(* ===== verification/Baize_Prelude.thy ===== *)
theory Baize_Prelude
  imports Main "HOL-Library.Word" "HOL-Library.Sublist"
begin

text \<open>
  Shared ground of the development: the machine types of the C++ code, the
  result type of code that can stop (a failed \<open>assert\<close>, an access outside an
  object, a null dereference, \<open>LOG_FATAL\<close>), sequencing of such code, checked
  reads and writes of byte objects, and the generic lemmas the components use.
\<close>

unbundle bit_operations_syntax

section \<open>Machine types\<close>

type_synonym byte = "8 word"
type_synonym u16 = "16 word"
type_synonym u32 = "32 word"
type_synonym u64 = "64 word"

text \<open>A \<open>std::string\<close> or a string literal of the source, as its bytes.\<close>

definition str :: "string \<Rightarrow> byte list" where
  "str s = map of_char s"

abbreviation INT_MAX :: int where "INT_MAX \<equiv> 2147483647"

named_theorems res_simps \<open>rewriting of sequenced results\<close>
named_theorems byte_simps \<open>facts on bytes, words and their encodings\<close>

section \<open>Results of code that can stop\<close>

text \<open>
  \<open>Inl\<close> is an execution that ends without returning: \<open>AssertFail\<close> is a failed
  \<open>assert\<close> (the build keeps assertions), \<open>OutOfBounds\<close> an access outside the
  object, \<open>BadPointer\<close> an access through a pointer to no object, \<open>NullDeref\<close> one
  through a null pointer, \<open>SignedOverflow\<close> an \<open>int\<close> operation without a value,
  \<open>StdException\<close> an exception nobody catches, \<open>Fatal\<close> a \<open>LOG_FATAL\<close>, \<open>Diverge\<close> a loop that used up the fuel of the model.
\<close>

datatype fault =
    AssertFail | OutOfBounds | BadPointer | NullDeref | SignedOverflow | StdException | Fatal | Diverge

type_synonym 'a res = "fault + 'a"

definition fbind :: "'a res \<Rightarrow> ('a \<Rightarrow> 'b res) \<Rightarrow> 'b res" where
  "fbind m f = (case m of Inl e \<Rightarrow> Inl e | Inr x \<Rightarrow> f x)"

definition assert_that :: "bool \<Rightarrow> unit res" where
  "assert_that b = (if b then Inr () else Inl AssertFail)"

lemma fbind_simps [simp, res_simps]:
  "fbind (Inr x) f = f x"
  "fbind (Inl e) f = Inl e"
  by (simp_all add: fbind_def)

lemma fbind_cong [fundef_cong]:
  assumes "m = m'" and "\<And>x. m' = Inr x \<Longrightarrow> f x = g x"
  shows "fbind m f = fbind m' g"
  using assms by (cases m') simp_all

lemma fbind_Inr_iff [res_simps]: "fbind m f = Inr y \<longleftrightarrow> (\<exists>x. m = Inr x \<and> f x = Inr y)"
  by (cases m) simp_all

lemma fbind_Inl_iff: "fbind m f = Inl e \<longleftrightarrow> m = Inl e \<or> (\<exists>x. m = Inr x \<and> f x = Inl e)"
  by (cases m) simp_all

lemma fbind_assoc: "fbind (fbind m f) g = fbind m (\<lambda>x. fbind (f x) g)"
  by (cases m) simp_all

lemma assert_that_simps [simp, res_simps]:
  "b \<Longrightarrow> assert_that b = Inr ()"
  "\<not> b \<Longrightarrow> assert_that b = Inl AssertFail"
  by (simp_all add: assert_that_def)

lemma assert_that_Inr_iff [simp]: "assert_that b = Inr u \<longleftrightarrow> b"
  by (simp add: assert_that_def)

text \<open>Code that runs to its end.\<close>

definition returns :: "'a res \<Rightarrow> bool" where
  "returns m \<longleftrightarrow> (\<exists>x. m = Inr x)"

lemma returns_Inr [simp, intro]: "returns (Inr x)"
  by (simp add: returns_def)

lemma not_returns_Inl [simp]: "\<not> returns (Inl e)"
  by (simp add: returns_def)

lemma returns_fbind: "returns (fbind m f) \<longleftrightarrow> (\<exists>x. m = Inr x \<and> returns (f x))"
  by (cases m) (simp_all add: returns_def)

section \<open>Checked access to a byte object\<close>

text \<open>
  \<open>rd m i\<close> is \<open>m[i]\<close> and \<open>wr m i v\<close> is \<open>m[i] = v\<close> for an object of exactly
  \<open>length m\<close> bytes.
\<close>

definition rd :: "byte list \<Rightarrow> nat \<Rightarrow> byte res" where
  "rd m i = (if i < length m then Inr (m ! i) else Inl OutOfBounds)"

definition wr :: "byte list \<Rightarrow> nat \<Rightarrow> byte \<Rightarrow> byte list res" where
  "wr m i v = (if i < length m then Inr (m[i := v]) else Inl OutOfBounds)"

lemma rd_in [simp]: "i < length m \<Longrightarrow> rd m i = Inr (m ! i)"
  by (simp add: rd_def)

lemma rd_out [simp]: "length m \<le> i \<Longrightarrow> rd m i = Inl OutOfBounds"
  by (simp add: rd_def)

lemma rd_Inr_iff: "rd m i = Inr v \<longleftrightarrow> i < length m \<and> v = m ! i"
  by (auto simp: rd_def)

lemma rd_append_left [simp]: "i < length m \<Longrightarrow> rd (m @ m') i = rd m i"
  by (simp add: rd_def nth_append)

lemma wr_in [simp]: "i < length m \<Longrightarrow> wr m i v = Inr (m[i := v])"
  by (simp add: wr_def)

text \<open>\<open>sub m i n\<close> is the \<open>n\<close> bytes from offset \<open>i\<close> on, as \<open>memcpy\<close> reads them.\<close>

definition sub :: "byte list \<Rightarrow> nat \<Rightarrow> nat \<Rightarrow> byte list" where
  "sub m i n = take n (drop i m)"

definition rd_sub :: "byte list \<Rightarrow> nat \<Rightarrow> nat \<Rightarrow> byte list res" where
  "rd_sub m i n = (if i + n \<le> length m then Inr (sub m i n) else Inl OutOfBounds)"

lemma length_sub [simp]: "i + n \<le> length m \<Longrightarrow> length (sub m i n) = n"
  by (simp add: sub_def)

lemma nth_sub: "i + n \<le> length m \<Longrightarrow> k < n \<Longrightarrow> sub m i n ! k = m ! (i + k)"
  by (simp add: sub_def)

lemma rd_sub_in [simp]: "i + n \<le> length m \<Longrightarrow> rd_sub m i n = Inr (sub m i n)"
  by (simp add: rd_sub_def)

lemma sub_append_left: "i + n \<le> length m \<Longrightarrow> sub (m @ m') i n = sub m i n"
  by (simp add: sub_def)

lemma sub_append_right: "sub (m @ m') (length m + i) n = sub m' i n"
  by (simp add: sub_def)

text \<open>The bytes between two offsets of an object.\<close>

definition mem_get :: "byte list \<Rightarrow> int \<Rightarrow> int \<Rightarrow> byte list res" where
  "mem_get m i j =
     (if 0 \<le> i \<and> i \<le> j \<and> j \<le> int (length m) then Inr (sub m (nat i) (nat (j - i))) else Inl OutOfBounds)"

lemma take_sub_drop: "take i m @ sub m i n @ drop (i + n) m = m"
  unfolding sub_def by (metis append_take_drop_id drop_drop add.commute)

text \<open>What \<open>printf\<close> writes for an unsigned number.\<close>

fun decimal :: "nat \<Rightarrow> byte list" where
  "decimal n = (if n < 10 then [word_of_nat (48 + n)] else decimal (n div 10) @ [word_of_nat (48 + n mod 10)])"

declare decimal.simps [simp del]

lemma decimal_nonempty [simp]: "decimal n \<noteq> []"
  by (subst decimal.simps) simp

section \<open>Ordered maps\<close>

text \<open>
  \<open>std::map\<close> as the list of its entries in the order of the keys, which is the
  order its iterators visit: assignment through \<open>operator[]\<close>, lookup and erasure.
\<close>

type_synonym ('k, 'v) std_map = "('k \<times> 'v) list"

fun map_put :: "'k::linorder \<Rightarrow> 'v \<Rightarrow> ('k, 'v) std_map \<Rightarrow> ('k, 'v) std_map" where
  "map_put k v [] = [(k, v)]"
| "map_put k v ((k', v') # m) =
     (if k < k' then (k, v) # (k', v') # m
      else if k = k' then (k, v) # m else (k', v') # map_put k v m)"

definition map_erase :: "'k \<Rightarrow> ('k, 'v) std_map \<Rightarrow> ('k, 'v) std_map" where
  "map_erase k m = filter (\<lambda>e. fst e \<noteq> k) m"

definition map_ok :: "('k::linorder, 'v) std_map \<Rightarrow> bool" where
  "map_ok m \<longleftrightarrow> sorted_wrt (<) (map fst m)"

lemma map_of_map_put [simp]: "map_of (map_put k v m) = (map_of m)(k \<mapsto> v)"
  by (induction m) (auto simp: fun_eq_iff)

lemma keys_map_put: "fst ` set (map_put k v m) = insert k (fst ` set m)"
proof (induction m)
  case (Cons e m)
  then show ?case by (cases e) (simp add: insert_commute)
qed simp

lemma map_ok_Cons: "map_ok (e # m) \<longleftrightarrow> (\<forall>k \<in> fst ` set m. fst e < k) \<and> map_ok m"
  by (simp add: map_ok_def)

lemma map_ok_put: "map_ok m \<Longrightarrow> map_ok (map_put k v m)"
proof (induction m)
  case (Cons e m)
  then show ?case
    by (cases e) (auto simp: map_ok_Cons keys_map_put simp del: image_iff)
qed (simp add: map_ok_def)

lemma map_ok_erase: "map_ok m \<Longrightarrow> map_ok (map_erase k m)"
  unfolding map_ok_def map_erase_def
  by (induction m) (auto simp: sorted_wrt_map)

lemma map_of_map_erase: "map_of (map_erase k m) = (map_of m)(k := None)"
  unfolding map_erase_def by (induction m) (auto simp: fun_eq_iff)

lemma map_put_last: "\<forall>e \<in> set m. fst e < k \<Longrightarrow> map_put k v m = m @ [(k, v)]"
  by (induction m) auto

lemma map_ok_nil [simp]: "map_ok []"
  by (simp add: map_ok_def)

lemma foldl_map_put:
  "map_ok (a @ m) \<Longrightarrow> foldl (\<lambda>h (k, v). map_put k v h) a m = a @ m"
proof (induction m arbitrary: a)
  case (Cons e m)
  then show ?case
    by (cases e) (auto simp: map_put_last map_ok_def sorted_wrt_append)
qed simp

section \<open>Words\<close>

lemma unat_byte_less [simp]: "unat (b :: byte) < 256"
proof -
  have "unat b < 2 ^ LENGTH(8)" by (rule unsigned_less)
  then show ?thesis by simp
qed

lemma unat_u16_less [simp]: "unat (w :: u16) < 65536"
proof -
  have "unat w < 2 ^ LENGTH(16)" by (rule unsigned_less)
  then show ?thesis by simp
qed

lemma unat_of_nat_byte [simp]: "n < 256 \<Longrightarrow> unat (word_of_nat n :: byte) = n"
  by (simp add: unsigned_of_nat take_bit_nat_eq_self)

lemma unat_of_nat_u16: "n < 65536 \<Longrightarrow> unat (word_of_nat n :: u16) = n"
  by (simp add: unsigned_of_nat take_bit_nat_eq_self)

lemma unat_of_nat_u32: "n < 4294967296 \<Longrightarrow> unat (word_of_nat n :: u32) = n"
  by (simp add: unsigned_of_nat take_bit_nat_eq_self)

lemma byte_all_less: "(\<forall>b :: byte. P b) \<longleftrightarrow> (\<forall>n < 256. P (word_of_nat n))"
proof
  assume r: "\<forall>n < 256. P (word_of_nat n)"
  show "\<forall>b :: byte. P b"
  proof
    fix b :: byte
    have "P (word_of_nat (unat b))" using r unat_byte_less by blast
    then show "P b" by simp
  qed
qed simp

section \<open>Padding to a multiple of four\<close>

lemma pad4_round: "k + (4 - k mod 4) mod 4 = 4 * ((k + 3) div 4)" for k :: nat
proof -
  define m r where "m = k div 4" and "r = k mod 4"
  have k: "k = 4 * m + r" "r < 4" by (simp_all add: m_def r_def)
  have "r = 0 \<or> r = 1 \<or> r = 2 \<or> r = 3" using k(2) by linarith
  then show ?thesis using k(1) by (auto simp flip: r_def)
qed

end
