(* ===== verification/Net_Types.thy ===== *)
theory Net_Types
  imports Baize_Prelude
begin

text \<open>
  The inline helpers of \<open>kernel/util/types.h\<close>: integers read from and written
  to byte objects in network order, the host/network conversions on a
  little-endian host, and the alignment functions. The locale \<open>wire_int\<close> is what
  the packet codecs use of a fixed-width integer; every width of the header is
  an interpretation of it.
\<close>

section \<open>Reading and writing\<close>

definition byte1 :: "byte list \<Rightarrow> nat \<Rightarrow> byte res" where
  "byte1 data i = rd data i"

definition byte2 :: "byte list \<Rightarrow> nat \<Rightarrow> u16 res" where
  "byte2 data i =
     fbind (rd data (i + 1)) (\<lambda>lo. fbind (rd data i) (\<lambda>hi.
       Inr (ucast lo OR push_bit 8 (ucast hi))))"

definition byte3 :: "byte list \<Rightarrow> nat \<Rightarrow> u32 res" where
  "byte3 data i =
     fbind (rd data (i + 2)) (\<lambda>c. fbind (rd data (i + 1)) (\<lambda>b. fbind (rd data i) (\<lambda>a.
       Inr (ucast c OR push_bit 8 (ucast b) OR push_bit 16 (ucast a)))))"

definition byte4 :: "byte list \<Rightarrow> nat \<Rightarrow> u32 res" where
  "byte4 data i =
     fbind (rd data (i + 3)) (\<lambda>d. fbind (rd data (i + 2)) (\<lambda>c.
     fbind (rd data (i + 1)) (\<lambda>b. fbind (rd data i) (\<lambda>a.
       Inr (ucast d OR push_bit 8 (ucast c) OR push_bit 16 (ucast b) OR push_bit 24 (ucast a))))))"

definition byte8 :: "byte list \<Rightarrow> nat \<Rightarrow> u64 res" where
  "byte8 data i =
     fbind (byte4 data i) (\<lambda>hi. fbind (byte4 data (i + 4)) (\<lambda>lo.
       Inr (push_bit 32 (ucast hi) OR ucast lo)))"

definition set_byte1 :: "byte list \<Rightarrow> nat \<Rightarrow> byte \<Rightarrow> byte list res" where
  "set_byte1 data i v = wr data i v"

definition set_byte2 :: "byte list \<Rightarrow> nat \<Rightarrow> u16 \<Rightarrow> byte list res" where
  "set_byte2 data i v =
     fbind (wr data (i + 1) (ucast v)) (\<lambda>data. wr data i (ucast (drop_bit 8 v)))"

definition set_byte3 :: "byte list \<Rightarrow> nat \<Rightarrow> u32 \<Rightarrow> byte list res" where
  "set_byte3 data i v =
     fbind (wr data (i + 2) (ucast v)) (\<lambda>data.
     fbind (wr data (i + 1) (ucast (drop_bit 8 v))) (\<lambda>data.
       wr data i (ucast (drop_bit 16 v))))"

definition set_byte4 :: "byte list \<Rightarrow> nat \<Rightarrow> u32 \<Rightarrow> byte list res" where
  "set_byte4 data i v =
     fbind (wr data (i + 3) (ucast v)) (\<lambda>data.
     fbind (wr data (i + 2) (ucast (drop_bit 8 v))) (\<lambda>data.
     fbind (wr data (i + 1) (ucast (drop_bit 16 v))) (\<lambda>data.
       wr data i (ucast (drop_bit 24 v)))))"

definition set_byte8 :: "byte list \<Rightarrow> nat \<Rightarrow> u64 \<Rightarrow> byte list res" where
  "set_byte8 data i v =
     fbind (wr data (i + 7) (ucast v)) (\<lambda>data.
     fbind (wr data (i + 6) (ucast (drop_bit 8 v))) (\<lambda>data.
     fbind (wr data (i + 5) (ucast (drop_bit 16 v))) (\<lambda>data.
     fbind (wr data (i + 4) (ucast (drop_bit 24 v))) (\<lambda>data.
     fbind (wr data (i + 3) (ucast (drop_bit 32 v))) (\<lambda>data.
     fbind (wr data (i + 2) (ucast (drop_bit 40 v))) (\<lambda>data.
     fbind (wr data (i + 1) (ucast (drop_bit 48 v))) (\<lambda>data.
       wr data i (ucast (drop_bit 56 v)))))))))"

section \<open>Host and network order\<close>

text \<open>
  The object representation of an integer on the little-endian host
  (\<open>BAIZE_LITTLE_ENDIAN\<close>), as \<open>Buffer::Append(&v, sizeof(v))\<close> sees it, and the
  byte swap that \<open>htobe16\<close> and its relatives are there.
\<close>

definition mem16 :: "u16 \<Rightarrow> byte list" where
  "mem16 v = [ucast v, ucast (drop_bit 8 v)]"

definition mem32 :: "u32 \<Rightarrow> byte list" where
  "mem32 v = [ucast v, ucast (drop_bit 8 v), ucast (drop_bit 16 v), ucast (drop_bit 24 v)]"

definition mem64 :: "u64 \<Rightarrow> byte list" where
  "mem64 v = mem32 (ucast v) @ mem32 (ucast (drop_bit 32 v))"

text \<open>Loads of 16-bit and 32-bit fields, on a little-endian host.\<close>

definition load16 :: "byte list \<Rightarrow> nat \<Rightarrow> u16 res" where
  "load16 m i = fbind (rd m i) (\<lambda>a. fbind (rd m (i + 1)) (\<lambda>b. Inr (ucast a OR push_bit 8 (ucast b))))"

definition load32 :: "byte list \<Rightarrow> nat \<Rightarrow> u32 res" where
  "load32 m i =
     fbind (rd m i) (\<lambda>a. fbind (rd m (i + 1)) (\<lambda>b. fbind (rd m (i + 2)) (\<lambda>c. fbind (rd m (i + 3)) (\<lambda>d.
     Inr (ucast a OR push_bit 8 (ucast b) OR push_bit 16 (ucast c) OR push_bit 24 (ucast d))))))"

definition HostToNetwork16 :: "u16 \<Rightarrow> u16" where
  "HostToNetwork16 v = push_bit 8 v OR drop_bit 8 v"

definition HostToNetwork32 :: "u32 \<Rightarrow> u32" where
  "HostToNetwork32 v =
     ucast (ucast (drop_bit 24 v) :: byte) OR
     push_bit 8 (ucast (ucast (drop_bit 16 v) :: byte)) OR
     push_bit 16 (ucast (ucast (drop_bit 8 v) :: byte)) OR
     push_bit 24 (ucast (ucast v :: byte))"

definition HostToNetwork64 :: "u64 \<Rightarrow> u64" where
  "HostToNetwork64 v =
     push_bit 32 (ucast (HostToNetwork32 (ucast v))) OR
     ucast (HostToNetwork32 (ucast (drop_bit 32 v)))"

definition NetworkToHost16 :: "u16 \<Rightarrow> u16" where
  "NetworkToHost16 = HostToNetwork16"

definition NetworkToHost32 :: "u32 \<Rightarrow> u32" where
  "NetworkToHost32 = HostToNetwork32"

definition NetworkToHost64 :: "u64 \<Rightarrow> u64" where
  "NetworkToHost64 = HostToNetwork64"

text \<open>A network-order field of a structure, converted to host order.\<close>

definition net16 :: "byte list \<Rightarrow> nat \<Rightarrow> u16 res" where
  "net16 m i = fbind (load16 m i) (\<lambda>v. Inr (NetworkToHost16 v))"

definition net32 :: "byte list \<Rightarrow> nat \<Rightarrow> u32 res" where
  "net32 m i = fbind (load32 m i) (\<lambda>v. Inr (NetworkToHost32 v))"

section \<open>Alignment\<close>

definition Align4_16 :: "u16 \<Rightarrow> u16" where
  "Align4_16 sz = (if sz AND 0x03 \<noteq> 0 then (sz AND 0xFFFC) + 4 else sz)"

definition Align4_32 :: "u32 \<Rightarrow> u32" where
  "Align4_32 sz = (if sz AND 0x03 \<noteq> 0 then (sz AND 0xFFFFFFFC) + 4 else sz)"

section \<open>Network order as byte strings\<close>

definition be16 :: "u16 \<Rightarrow> byte list" where
  "be16 v = [ucast (drop_bit 8 v), ucast v]"

definition be24 :: "u32 \<Rightarrow> byte list" where
  "be24 v = [ucast (drop_bit 16 v), ucast (drop_bit 8 v), ucast v]"

definition be32 :: "u32 \<Rightarrow> byte list" where
  "be32 v = [ucast (drop_bit 24 v), ucast (drop_bit 16 v), ucast (drop_bit 8 v), ucast v]"

definition be64 :: "u64 \<Rightarrow> byte list" where
  "be64 v = be32 (ucast (drop_bit 32 v)) @ be32 (ucast v)"

lemma length_be [simp]:
  "length (be16 v) = 2" "length (be24 w) = 3" "length (be32 w) = 4" "length (be64 x) = 8"
  by (simp_all add: be16_def be24_def be32_def be64_def)

lemma bit_narrow [simp]:
  "8 \<le> n \<Longrightarrow> \<not> bit (b :: byte) n"
  "16 \<le> n \<Longrightarrow> \<not> bit (h :: u16) n"
  "32 \<le> n \<Longrightarrow> \<not> bit (w :: u32) n"
  by (auto dest: bit_imp_le_length)

lemma be16_join [byte_simps]: "be16 (ucast lo OR push_bit 8 (ucast hi)) = [hi, lo]"
  unfolding be16_def by (auto intro!: bit_word_eqI simp: bit_simps dest: bit_imp_le_length)

lemma join_be16 [byte_simps]: "ucast (ucast v :: byte) OR push_bit 8 (ucast (ucast (drop_bit 8 v) :: byte)) = (v :: u16)"
  by (rule bit_word_eqI) (auto simp: bit_simps dest: bit_imp_le_length)

lemma be32_join [byte_simps]:
  "be32 (ucast d OR push_bit 8 (ucast c) OR push_bit 16 (ucast b) OR push_bit 24 (ucast a)) = [a, b, c, d]"
  unfolding be32_def by (auto intro!: bit_word_eqI simp: bit_simps dest: bit_imp_le_length)

lemma join_be32 [byte_simps]:
  "ucast (ucast v :: byte) OR push_bit 8 (ucast (ucast (drop_bit 8 v) :: byte)) OR
   push_bit 16 (ucast (ucast (drop_bit 16 v) :: byte)) OR
   push_bit 24 (ucast (ucast (drop_bit 24 v) :: byte)) = (v :: u32)" (is "?l = _")
proof (rule bit_word_eqI)
  fix n
  show "bit ?l n \<longleftrightarrow> bit v n"
    by (cases "n < 8"; cases "n < 16"; cases "n < 24") (auto simp: bit_simps dest: bit_imp_le_length)
qed

lemma be24_join [byte_simps]:
  "be24 (ucast c OR push_bit 8 (ucast b) OR push_bit 16 (ucast a)) = [a, b, c]"
  unfolding be24_def by (auto intro!: bit_word_eqI simp: bit_simps dest: bit_imp_le_length)

lemma join_be24 [byte_simps]:
  assumes "take_bit 24 v = v"
  shows "ucast (ucast v :: byte) OR push_bit 8 (ucast (ucast (drop_bit 8 v) :: byte)) OR
    push_bit 16 (ucast (ucast (drop_bit 16 v) :: byte)) = (v :: u32)"
proof -
  have b: "bit v n \<Longrightarrow> n < 24" for n using bit_take_bit_iff [of 24 v n] assms by simp
  show ?thesis
  proof (rule bit_word_eqI)
    fix n
    show "bit (ucast (ucast v :: byte) OR push_bit 8 (ucast (ucast (drop_bit 8 v) :: byte)) OR
      push_bit 16 (ucast (ucast (drop_bit 16 v) :: byte)) :: u32) n \<longleftrightarrow> bit v n"
      by (cases "n < 8"; cases "n < 16"; cases "n < 24") (auto simp: bit_simps dest: b bit_imp_le_length)
  qed
qed

lemma join24_fits:
  "take_bit 24 (ucast (c :: byte) OR push_bit 8 (ucast (b :: byte)) OR push_bit 16 (ucast (a :: byte))) =
    (ucast c OR push_bit 8 (ucast b) OR push_bit 16 (ucast a) :: u32)"
  by (rule bit_word_eqI) (auto simp: bit_simps dest: bit_imp_le_length)

lemma be64_join [byte_simps]:
  "ucast (drop_bit 32 (push_bit 32 (ucast hi) OR ucast lo :: u64)) = (hi :: u32)"
  "ucast (push_bit 32 (ucast hi) OR ucast lo :: u64) = (lo :: u32)"
  by (rule bit_word_eqI, auto simp: bit_simps dest: bit_imp_le_length)+

lemma join_be64 [byte_simps]:
  "push_bit 32 (ucast (ucast (drop_bit 32 v) :: u32)) OR ucast (ucast v :: u32) = (v :: u64)"
  by (rule bit_word_eqI) (auto simp: bit_simps dest: bit_imp_le_length)

text \<open>Sending the object representation of a converted integer puts it in network order.\<close>

lemma mem16_HostToNetwork16 [simp]: "mem16 (HostToNetwork16 v) = be16 v"
  unfolding mem16_def be16_def HostToNetwork16_def
  by (auto intro!: bit_word_eqI simp: bit_simps dest: bit_imp_le_length)

lemma mem32_HostToNetwork32 [simp]: "mem32 (HostToNetwork32 v) = be32 v"
proof -
  have "rev (mem32 w) = be32 w" for w by (simp add: mem32_def be32_def)
  then have "mem32 w = rev (be32 w)" for w by (metis rev_rev_ident)
  then show ?thesis by (simp add: HostToNetwork32_def be32_join) (simp add: be32_def)
qed

lemma mem64_HostToNetwork64 [simp]: "mem64 (HostToNetwork64 v) = be64 v"
  unfolding mem64_def be64_def HostToNetwork64_def
  by (simp only: be64_join mem32_HostToNetwork32)

section \<open>Fixed-width integers on the wire\<close>

locale wire_int =
  fixes get :: "byte list \<Rightarrow> nat \<Rightarrow> 'v res"
    and put :: "byte list \<Rightarrow> nat \<Rightarrow> 'v \<Rightarrow> byte list res"
    and enc :: "'v \<Rightarrow> byte list"
    and fits :: "'v \<Rightarrow> bool"
    and wid :: nat
  assumes enc_length: "length (enc v) = wid"
    and get_enc: "fits v \<Longrightarrow> i + wid \<le> length p \<Longrightarrow> sub p i wid = enc v \<Longrightarrow> get p i = Inr v"
    and get_total: "i + wid \<le> length p \<Longrightarrow> \<exists>v. get p i = Inr v \<and> fits v \<and> enc v = sub p i wid"
    and get_outside: "length p < i + wid \<Longrightarrow> get p i = Inl OutOfBounds"
    and put_inside: "i + wid \<le> length p \<Longrightarrow> put p i v = Inr (take i p @ enc v @ drop (i + wid) p)"
begin

lemma get_returns_iff: "returns (get p i) \<longleftrightarrow> i + wid \<le> length p"
  using get_total [of i p] get_outside [of p i] by (cases "i + wid \<le> length p") (auto simp: returns_def)

lemma get_appended: "fits v \<Longrightarrow> get (xs @ enc v @ ys) (length xs) = Inr v"
  by (rule get_enc) (simp_all add: enc_length sub_def)

lemma get_sub: "i + n \<le> length p \<Longrightarrow> k + wid \<le> n \<Longrightarrow> get (sub p i n) k = get p (i + k)"
proof -
  assume a: "i + n \<le> length p" "k + wid \<le> n"
  have "sub (sub p i n) k wid = sub p (i + k) wid"
    using a by (simp add: sub_def drop_take min_def add.commute)
  moreover obtain v where "get p (i + k) = Inr v" "fits v" "enc v = sub p (i + k) wid"
    using get_total [of "i + k" p] a by auto
  ultimately show ?thesis using a by (simp add: get_enc)
qed

lemma enc_inject: "fits v \<Longrightarrow> fits w \<Longrightarrow> enc v = enc w \<Longrightarrow> v = w"
  using get_appended [of v "[]" "[]"] get_appended [of w "[]" "[]"] by simp

lemma get_put: "fits v \<Longrightarrow> i + wid \<le> length p \<Longrightarrow> put p i v = Inr q \<Longrightarrow> get q i = Inr v"
  using get_appended [of v "take i p" "drop (i + wid) p"] by (simp add: put_inside)

lemma put_length: "i + wid \<le> length p \<Longrightarrow> put p i v = Inr q \<Longrightarrow> length q = length p"
  by (auto simp: put_inside enc_length)

lemma put_outside_window:
  "i + wid \<le> length p \<Longrightarrow> put p i v = Inr q \<Longrightarrow> k < i \<or> i + wid \<le> k \<Longrightarrow> q ! k = p ! k"
  by (auto simp: put_inside nth_append enc_length)

lemma put_get: "i + wid \<le> length p \<Longrightarrow> get p i = Inr v \<Longrightarrow> put p i v = Inr p"
proof -
  assume a: "i + wid \<le> length p" "get p i = Inr v"
  then have "enc v = sub p i wid" using get_total [of i p] by auto
  then show ?thesis using a by (simp add: put_inside take_sub_drop)
qed

end

lemma sub_two: "i + 2 \<le> length p \<Longrightarrow> sub p i 2 = [p ! i, p ! (i + 1)]"
  by (rule nth_equalityI) (auto simp: nth_sub less_Suc_eq numeral_eq_Suc)

lemma sub_three: "i + 3 \<le> length p \<Longrightarrow> sub p i 3 = [p ! i, p ! (i + 1), p ! (i + 2)]"
  by (rule nth_equalityI) (auto simp: nth_sub less_Suc_eq numeral_eq_Suc)

lemma sub_four: "i + 4 \<le> length p \<Longrightarrow> sub p i 4 = [p ! i, p ! (i + 1), p ! (i + 2), p ! (i + 3)]"
  by (rule nth_equalityI) (auto simp: nth_sub less_Suc_eq numeral_eq_Suc)

text \<open>A window of \<open>p\<close> replaced by \<open>bs\<close>; the setters write it from its last byte back.\<close>

definition window :: "byte list \<Rightarrow> nat \<Rightarrow> byte list \<Rightarrow> byte list" where
  "window p i bs = take i p @ bs @ drop (i + length bs) p"

lemma wr_window_init: "i + 1 \<le> length p \<Longrightarrow> wr p i a = Inr (window p i [a])"
  by (simp add: window_def upd_conv_take_nth_drop)

lemma wr_window:
  "j = Suc i \<Longrightarrow> j + length bs \<le> length p \<Longrightarrow> wr (window p j bs) i a = Inr (window p i (a # bs))"
  by (simp add: window_def wr_def take_Suc_conv_app_nth list_update_append)

lemmas get_defs = byte1_def byte2_def byte3_def byte4_def byte8_def
lemmas set_defs = set_byte1_def set_byte2_def set_byte3_def set_byte4_def set_byte8_def

interpretation b1: wire_int byte1 set_byte1 "\<lambda>v. [v]" "\<lambda>_. True" 1
proof
  fix i :: nat and p :: "byte list" and v :: byte
  show "byte1 p i = Inr v" if "i + 1 \<le> length p" "sub p i 1 = [v]"
    using that nth_sub [of i 1 p 0] by (simp add: byte1_def)
  show "\<exists>v. byte1 p i = Inr v \<and> True \<and> [v] = sub p i 1" if "i + 1 \<le> length p"
    using that by (simp add: byte1_def sub_def take_Suc_conv_app_nth hd_drop_conv_nth take_Suc)
  show "set_byte1 p i v = Inr (take i p @ [v] @ drop (i + 1) p)" if "i + 1 \<le> length p"
    using that by (simp add: set_byte1_def upd_conv_take_nth_drop)
qed (simp_all add: byte1_def)

interpretation b2: wire_int byte2 set_byte2 be16 "\<lambda>_. True" 2
proof
  fix i :: nat and p :: "byte list" and v :: u16
  show "byte2 p i = Inr v" if "i + 2 \<le> length p" "sub p i 2 = be16 v"
    using that by (simp add: byte2_def sub_two be16_def join_be16)
  show "\<exists>v. byte2 p i = Inr v \<and> True \<and> be16 v = sub p i 2" if "i + 2 \<le> length p"
    using that by (simp add: byte2_def sub_two be16_join)
  show "set_byte2 p i v = Inr (take i p @ be16 v @ drop (i + 2) p)" if "i + 2 \<le> length p"
    using that by (simp add: set_byte2_def wr_window_init wr_window del: wr_in) (simp add: window_def be16_def numeral_eq_Suc)
qed (auto simp: byte2_def rd_def)

interpretation b3: wire_int byte3 set_byte3 be24 "\<lambda>v. take_bit 24 v = v" 3
proof
  fix i :: nat and p :: "byte list" and v :: u32
  show "byte3 p i = Inr v" if "take_bit 24 v = v" "i + 3 \<le> length p" "sub p i 3 = be24 v"
    using that by (simp add: byte3_def sub_three be24_def join_be24)
  show "\<exists>v. byte3 p i = Inr v \<and> take_bit 24 v = v \<and> be24 v = sub p i 3" if "i + 3 \<le> length p"
    using that by (simp add: byte3_def sub_three be24_join join24_fits del: take_bit_or)
  show "set_byte3 p i v = Inr (take i p @ be24 v @ drop (i + 3) p)" if "i + 3 \<le> length p"
    using that by (simp add: set_byte3_def wr_window_init wr_window del: wr_in) (simp add: window_def be24_def numeral_eq_Suc)
qed (auto simp: byte3_def rd_def)

interpretation b4: wire_int byte4 set_byte4 be32 "\<lambda>_. True" 4
proof
  fix i :: nat and p :: "byte list" and v :: u32
  show "byte4 p i = Inr v" if "i + 4 \<le> length p" "sub p i 4 = be32 v"
    using that by (simp add: byte4_def sub_four be32_def join_be32)
  show "\<exists>v. byte4 p i = Inr v \<and> True \<and> be32 v = sub p i 4" if "i + 4 \<le> length p"
    using that by (simp add: byte4_def sub_four be32_join)
  show "set_byte4 p i v = Inr (take i p @ be32 v @ drop (i + 4) p)" if "i + 4 \<le> length p"
    using that by (simp add: set_byte4_def wr_window_init wr_window del: wr_in) (simp add: window_def be32_def numeral_eq_Suc)
qed (auto simp: byte4_def rd_def)

lemma sub_eight: "i + 8 \<le> length p \<Longrightarrow> sub p i 8 = sub p i 4 @ sub p (i + 4) 4"
proof -
  have "take (4 + 4) (drop i p) = take 4 (drop i p) @ take 4 (drop 4 (drop i p))"
    by (rule take_add)
  then show ?thesis by (simp add: sub_def add.commute)
qed

lemma be32_halves:
  "be32 (ucast (v :: u64)) = [ucast (drop_bit 24 v), ucast (drop_bit 16 v), ucast (drop_bit 8 v), ucast v]"
  unfolding be32_def by (auto intro!: bit_word_eqI simp: bit_simps)

lemma be64_bytes:
  "be64 v = [ucast (drop_bit 56 v), ucast (drop_bit 48 v), ucast (drop_bit 40 v), ucast (drop_bit 32 v),
     ucast (drop_bit 24 v), ucast (drop_bit 16 v), ucast (drop_bit 8 v), ucast v]"
  by (simp add: be64_def be32_halves)

interpretation b8: wire_int byte8 set_byte8 be64 "\<lambda>_. True" 8
proof
  fix i :: nat and p :: "byte list" and v :: u64
  show "byte8 p i = Inr v" if a: "i + 8 \<le> length p" "sub p i 8 = be64 v"
  proof -
    have "sub p i 4 = be32 (ucast (drop_bit 32 v))" "sub p (i + 4) 4 = be32 (ucast v)"
      using a by (simp_all add: sub_eight be64_def)
    then have "byte4 p i = Inr (ucast (drop_bit 32 v))" "byte4 p (i + 4) = Inr (ucast v)"
      using a by (simp_all add: b4.get_enc)
    then show ?thesis by (simp add: byte8_def join_be64)
  qed
  show "\<exists>v. byte8 p i = Inr v \<and> True \<and> be64 v = sub p i 8" if a: "i + 8 \<le> length p"
  proof -
    obtain h l where "byte4 p i = Inr h" "be32 h = sub p i 4"
      "byte4 p (i + 4) = Inr l" "be32 l = sub p (i + 4) 4"
      using a b4.get_total [of i p] b4.get_total [of "i + 4" p] by auto
    then show ?thesis using a by (simp add: byte8_def be64_def sub_eight be64_join del: drop_bit_or)
  qed
  show "set_byte8 p i v = Inr (take i p @ be64 v @ drop (i + 8) p)" if "i + 8 \<le> length p"
    using that by (simp add: set_byte8_def wr_window_init wr_window del: wr_in) (simp add: window_def be64_bytes numeral_eq_Suc)
  show "byte8 p i = Inl OutOfBounds" if "length p < i + 8"
    using that b4.get_outside [of p "i + 4"] b4.get_outside [of p i] b4.get_total [of i p]
    by (cases "i + 4 \<le> length p") (auto simp: byte8_def)
qed simp_all

section \<open>Facts on alignment\<close>

lemma and_3_mod: "unat ((w :: 'a::len word) AND 0x03) = unat w mod 4" if "2 < LENGTH('a)"
proof -
  have "w AND 0x03 = take_bit 2 w"
    by (simp add: take_bit_eq_mask mask_eq_exp_minus_1)
  then have "unat (w AND 0x03) = take_bit 2 (unat w)" by (simp only: unsigned_take_bit_eq)
  then show ?thesis by (simp add: take_bit_eq_mod)
qed

lemma unat_drop_push2: "unat (push_bit 2 (drop_bit 2 (w :: 'a::len word))) = 4 * (unat w div 4)"
proof -
  have l: "unat w < 2 ^ LENGTH('a)" by (rule unsigned_less)
  have "unat (push_bit 2 (drop_bit 2 w)) = take_bit LENGTH('a) (4 * (unat w div 4))"
    by (simp only: unsigned_push_bit_eq unsigned_drop_bit_eq take_bit_nat_eq_self [OF l])
      (simp add: push_bit_eq_mult drop_bit_eq_div mult.commute)
  also have "4 * (unat w div 4) < 2 ^ LENGTH('a)"
    using l by (meson div_times_less_eq_dividend le_less_trans mult.commute times_div_less_eq_dividend)
  then have "take_bit LENGTH('a) (4 * (unat w div 4)) = 4 * (unat w div 4)"
    by (rule take_bit_nat_eq_self)
  finally show ?thesis .
qed

lemma and_not_mask2: "(w :: 'a::len word) AND NOT (mask 2) = push_bit 2 (drop_bit 2 w)"
proof (rule bit_word_eqI)
  fix n
  show "bit (w AND NOT (mask 2)) n \<longleftrightarrow> bit (push_bit 2 (drop_bit 2 w)) n" if "n < LENGTH('a)"
    using that le_Suc_ex [of 2 n] by (cases "n < 2") (auto simp: bit_simps not_less)
qed

lemma and_FFFC: "unat ((w :: u16) AND 0xFFFC) = 4 * (unat w div 4)"
proof -
  have "(0xFFFC :: u16) = NOT (mask 2)" by (simp add: mask_eq_exp_minus_1 not_eq_complement)
  then show ?thesis by (simp only: and_not_mask2 unat_drop_push2)
qed

lemma and_FFFFFFFC: "unat ((w :: u32) AND 0xFFFFFFFC) = 4 * (unat w div 4)"
proof -
  have "(0xFFFFFFFC :: u32) = NOT (mask 2)" by (simp add: mask_eq_exp_minus_1 not_eq_complement)
  then show ?thesis by (simp only: and_not_mask2 unat_drop_push2)
qed

lemma round_up4: "n mod 4 \<noteq> 0 \<Longrightarrow> 4 * (n div 4) + 4 = 4 * ((n + 3) div 4)" for n :: nat
  by presburger

lemma round_up4_id: "n mod 4 = 0 \<Longrightarrow> 4 * ((n + 3) div 4) = n" for n :: nat
  by presburger

lemma Align4_16_unat: "unat (Align4_16 w) = 4 * ((unat w + 3) div 4) mod 65536"
proof (cases "unat w mod 4 = 0")
  case True
  then have "w AND 0x03 = 0" using and_3_mod [of w] by (simp add: unat_eq_zero)
  then show ?thesis using True unat_u16_less [of w] by (simp add: Align4_16_def round_up4_id)
next
  case False
  then have "w AND 0x03 \<noteq> 0" using and_3_mod [of w] by auto
  then have "unat (Align4_16 w) = (unat (w AND 0xFFFC) + 4) mod 65536"
    by (simp add: Align4_16_def unat_word_ariths)
  then show ?thesis using False by (simp add: and_FFFC round_up4)
qed

lemma Align4_32_unat: "unat (Align4_32 w) = 4 * ((unat w + 3) div 4) mod 4294967296"
proof (cases "unat w mod 4 = 0")
  case True
  have "unat w < 2 ^ LENGTH(32)" by (rule unsigned_less)
  moreover have "w AND 0x03 = 0" using True and_3_mod [of w] by (simp add: unat_eq_zero)
  ultimately show ?thesis using True by (simp add: Align4_32_def round_up4_id)
next
  case False
  then have "w AND 0x03 \<noteq> 0" using and_3_mod [of w] by auto
  then have "unat (Align4_32 w) = (unat (w AND 0xFFFFFFFC) + 4) mod 4294967296"
    by (simp add: Align4_32_def unat_word_ariths)
  then show ?thesis using False by (simp add: and_FFFFFFFC round_up4)
qed

section \<open>Network fields of structures\<close>

text \<open>A loaded field converted to host order is the big-endian number at its offset.\<close>

lemma swap16: "HostToNetwork16 (ucast (a :: byte) OR push_bit 8 (ucast (b :: byte))) = ucast b OR push_bit 8 (ucast a)"
  unfolding HostToNetwork16_def by (rule bit_word_eqI) (auto simp: bit_simps dest: bit_imp_le_length)

lemma swap32:
  "HostToNetwork32 (ucast (a :: byte) OR push_bit 8 (ucast (b :: byte)) OR push_bit 16 (ucast (c :: byte)) OR push_bit 24 (ucast (d :: byte))) =
   ucast d OR push_bit 8 (ucast c) OR push_bit 16 (ucast b) OR push_bit 24 (ucast a)"
proof -
  let ?w = "ucast a OR push_bit 8 (ucast b) OR push_bit 16 (ucast c) OR push_bit 24 (ucast d) :: u32"
  have "be32 (HostToNetwork32 ?w) = rev (mem32 (HostToNetwork32 ?w))" by (simp add: be32_def mem32_def)
  also have "\<dots> = rev (be32 ?w)" by simp
  also have "\<dots> = [a, b, c, d]" by (simp add: be32_join)
  finally have "be32 (HostToNetwork32 ?w) = be32 (ucast d OR push_bit 8 (ucast c) OR push_bit 16 (ucast b) OR push_bit 24 (ucast a))"
    by (simp add: be32_join)
  then show ?thesis by (rule b4.enc_inject [OF TrueI TrueI])
qed

lemma net16_byte2: "net16 m i = byte2 m i"
  by (cases "i + 1 < length m"; cases "i < length m")
    (auto simp: net16_def load16_def byte2_def NetworkToHost16_def swap16 rd_def)

lemma net32_byte4: "net32 m i = byte4 m i"
  by (cases "i + 3 < length m"; cases "i + 2 < length m"; cases "i + 1 < length m"; cases "i < length m")
    (auto simp: net32_def load32_def byte4_def NetworkToHost32_def swap32 rd_def)

end
