(* ===== verification/Net_Buffer.thy ===== *)
theory Net_Buffer
  imports Net_Types
begin

text \<open>
  \<open>kernel/net/net_buffer.{h,cc}\<close> and \<open>kernel/net/net_buffer_pool.{h,cc}\<close>: the
  growable byte buffer with its reader and writer index, and the pool that
  hands buffers out. The buffer is shown to implement a queue of bytes (locale
  \<open>byte_queue\<close>): every operation keeps the index invariant, none of the
  assertions fails, and the readable bytes change as the queue says.
\<close>

section \<open>The buffer\<close>

record Buffer =
  buffer :: "byte list"
  reader_index :: int
  writer_index :: int

definition kCheapPrepend :: int where "kCheapPrepend = 8"
definition kInitialSize :: int where "kInitialSize = 1500 + 8"
definition extrabuf_size :: int where "extrabuf_size = 65536"

definition buf_size :: "Buffer \<Rightarrow> int" where
  "buf_size b = int (length (buffer b))"

definition readable_bytes :: "Buffer \<Rightarrow> int" where
  "readable_bytes b = writer_index b - reader_index b"

definition writable_bytes :: "Buffer \<Rightarrow> int" where
  "writable_bytes b = buf_size b - writer_index b"

definition prependable_bytes :: "Buffer \<Rightarrow> int" where
  "prependable_bytes b = reader_index b"

text \<open>The constructor; \<open>std::vector\<close> throws on a negative size.\<close>

definition Buffer_new :: "int \<Rightarrow> Buffer res" where
  "Buffer_new initialSize =
     (if kCheapPrepend + initialSize < 0 then Inl StdException
      else let b = \<lparr>buffer = replicate (nat (kCheapPrepend + initialSize)) 0,
                    reader_index = kCheapPrepend, writer_index = kCheapPrepend\<rparr> in
        fbind (assert_that (readable_bytes b = 0)) (\<lambda>_.
        fbind (assert_that (writable_bytes b = initialSize)) (\<lambda>_.
        fbind (assert_that (prependable_bytes b = kCheapPrepend)) (\<lambda>_. Inr b))))"

text \<open>\<open>std::vector<char>::resize\<close>, \<open>memcpy\<close> into the vector and \<open>std::copy\<close> inside it.\<close>

definition vec_resize :: "byte list \<Rightarrow> nat \<Rightarrow> byte list" where
  "vec_resize m n = take n m @ replicate (n - length m) 0"

definition mem_put :: "byte list \<Rightarrow> int \<Rightarrow> byte list \<Rightarrow> byte list res" where
  "mem_put m i bs =
     (if 0 \<le> i \<and> i + int (length bs) \<le> int (length m) then Inr (window m (nat i) bs) else Inl OutOfBounds)"

definition MakeSpace :: "Buffer \<Rightarrow> int \<Rightarrow> Buffer res" where
  "MakeSpace b len =
     (if writable_bytes b + prependable_bytes b < len + kCheapPrepend then
        Inr (b\<lparr>buffer := vec_resize (buffer b) (nat (writer_index b + len))\<rparr>)
      else
        fbind (assert_that (kCheapPrepend < reader_index b)) (\<lambda>_.
        let readable = readable_bytes b in
        fbind (mem_get (buffer b) (reader_index b) (writer_index b)) (\<lambda>bs.
        fbind (mem_put (buffer b) kCheapPrepend bs) (\<lambda>m.
        let b' = b\<lparr>buffer := m, reader_index := kCheapPrepend, writer_index := kCheapPrepend + readable\<rparr> in
        fbind (assert_that (readable = readable_bytes b')) (\<lambda>_. Inr b')))))"

definition EnsureWritableBytes :: "Buffer \<Rightarrow> int \<Rightarrow> Buffer res" where
  "EnsureWritableBytes b len =
     fbind (if writable_bytes b < len then MakeSpace b len else Inr b) (\<lambda>b.
     fbind (assert_that (len \<le> writable_bytes b)) (\<lambda>_. Inr b))"

text \<open>\<open>Append(const void* data, int len)\<close>; the other overloads call it.\<close>

definition Append :: "Buffer \<Rightarrow> byte list \<Rightarrow> int \<Rightarrow> Buffer res" where
  "Append b data len =
     (if 0 < len then
        fbind (EnsureWritableBytes b len) (\<lambda>b.
        fbind (rd_sub data 0 (nat len)) (\<lambda>bs.
        fbind (mem_put (buffer b) (writer_index b) bs) (\<lambda>m.
        Inr (b\<lparr>buffer := m, writer_index := writer_index b + len\<rparr>))))
      else Inr b)"

definition Append_piece :: "Buffer \<Rightarrow> byte list \<Rightarrow> Buffer res" where
  "Append_piece b s = Append b s (int (length s))"

definition Append_u8 :: "Buffer \<Rightarrow> byte \<Rightarrow> Buffer res" where
  "Append_u8 b v = Append b [v] 1"

definition Append_u16 :: "Buffer \<Rightarrow> u16 \<Rightarrow> Buffer res" where
  "Append_u16 b v = Append b (mem16 v) 2"

definition Append_u32 :: "Buffer \<Rightarrow> u32 \<Rightarrow> Buffer res" where
  "Append_u32 b v = Append b (mem32 v) 4"

definition Append_u64 :: "Buffer \<Rightarrow> u64 \<Rightarrow> Buffer res" where
  "Append_u64 b v = Append b (mem64 v) 8"

definition AddReadableLength :: "Buffer \<Rightarrow> int \<Rightarrow> Buffer res" where
  "AddReadableLength b len =
     (if len \<le> 0 then Inr b
      else fbind (EnsureWritableBytes b len) (\<lambda>b.
        let b = b\<lparr>writer_index := writer_index b + len\<rparr> in
        if writable_bytes b < 1024 then
          (if buf_size b < 65536 then EnsureWritableBytes b (buf_size b)
           else EnsureWritableBytes b 65536)
        else Inr b))"

definition TakeAll :: "Buffer \<Rightarrow> Buffer" where
  "TakeAll b = b\<lparr>reader_index := kCheapPrepend, writer_index := kCheapPrepend\<rparr>"

definition Take :: "Buffer \<Rightarrow> int \<Rightarrow> Buffer res" where
  "Take b len =
     (if 0 < len then
        fbind (assert_that (len \<le> readable_bytes b)) (\<lambda>_.
        if len < readable_bytes b then Inr (b\<lparr>reader_index := reader_index b + len\<rparr>)
        else Inr (TakeAll b))
      else Inr b)"

text \<open>\<open>pos\<close> is an offset into the buffer's vector.\<close>

definition TakeUntil :: "Buffer \<Rightarrow> int \<Rightarrow> Buffer res" where
  "TakeUntil b pos =
     fbind (assert_that (reader_index b \<le> pos)) (\<lambda>_.
     fbind (assert_that (pos \<le> writer_index b)) (\<lambda>_.
     Take b (pos - reader_index b)))"

text \<open>The bytes \<open>slice()\<close> views.\<close>

definition buf_slice :: "Buffer \<Rightarrow> byte list res" where
  "buf_slice b = mem_get (buffer b) (reader_index b) (writer_index b)"

text \<open>
  \<open>ReadFd\<close>: \<open>readv\<close> scatters what it delivers over the writable part and, when
  that part is smaller than the extra buffer, the extra buffer. \<open>None\<close> is a
  negative result. The capacity is what the two vectors offer.
\<close>

definition ReadFd_capacity :: "Buffer \<Rightarrow> int" where
  "ReadFd_capacity b =
     writable_bytes b + (if writable_bytes b < extrabuf_size then extrabuf_size else 0)"

definition ReadFd :: "Buffer \<Rightarrow> byte list option \<Rightarrow> (int \<times> Buffer) res" where
  "ReadFd b delivered =
     (let writable = writable_bytes b in
      case delivered of
        None \<Rightarrow> Inr (-1, b)
      | Some bs \<Rightarrow>
          (let rn = int (length bs);
               extrabuf = (if writable < extrabuf_size
                           then take (nat extrabuf_size) (drop (nat writable) bs) else []) in
           fbind (mem_put (buffer b) (writer_index b) (take (nat writable) bs)) (\<lambda>m.
           let b = b\<lparr>buffer := m\<rparr> in
           if rn \<le> writable then Inr (rn, b\<lparr>writer_index := writer_index b + rn\<rparr>)
           else fbind (Append (b\<lparr>writer_index := buf_size b\<rparr>) extrabuf (rn - writable))
                  (\<lambda>b. Inr (rn, b)))))"

definition Buffer_swap :: "Buffer \<times> Buffer \<Rightarrow> Buffer \<times> Buffer" where
  "Buffer_swap = (\<lambda>(l, r).
     (l\<lparr>buffer := buffer r, reader_index := reader_index r, writer_index := writer_index r\<rparr>,
      r\<lparr>buffer := buffer l, reader_index := reader_index l, writer_index := writer_index l\<rparr>))"

section \<open>The buffer pool\<close>

text \<open>The owned buffers, last one on top; a \<open>BufferUptr\<close> is an optional buffer.\<close>

record BufferPool =
  buffers :: "Buffer list"

definition kBufferNum :: int where "kBufferNum = 1000"

fun pool_fill :: "nat \<Rightarrow> Buffer list res" where
  "pool_fill 0 = Inr []"
| "pool_fill (Suc n) = fbind (pool_fill n) (\<lambda>bs. fbind (Buffer_new kInitialSize) (\<lambda>b. Inr (bs @ [b])))"

definition BufferPool_new :: "int \<Rightarrow> BufferPool res" where
  "BufferPool_new n = fbind (pool_fill (nat n)) (\<lambda>bs. Inr \<lparr>buffers = bs\<rparr>)"

definition AllocBuffer :: "BufferPool \<Rightarrow> Buffer option \<times> BufferPool" where
  "AllocBuffer p =
     (if buffers p \<noteq> [] then (Some (TakeAll (last (buffers p))), p\<lparr>buffers := butlast (buffers p)\<rparr>)
      else (None, p))"

definition BufferDelete :: "BufferPool \<Rightarrow> Buffer \<Rightarrow> BufferPool" where
  "BufferDelete p b = p\<lparr>buffers := buffers p @ [TakeAll b]\<rparr>"

definition pool_size :: "BufferPool \<Rightarrow> int" where
  "pool_size p = int (length (buffers p))"

section \<open>Invariant and abstraction\<close>

definition buf_inv :: "Buffer \<Rightarrow> bool" where
  "buf_inv b \<longleftrightarrow> kCheapPrepend \<le> reader_index b \<and> reader_index b \<le> writer_index b \<and> writer_index b \<le> buf_size b"

definition content :: "Buffer \<Rightarrow> byte list" where
  "content b = sub (buffer b) (nat (reader_index b)) (nat (readable_bytes b))"

lemmas buf_consts = kCheapPrepend_def kInitialSize_def extrabuf_size_def
lemmas buf_getters = buf_size_def readable_bytes_def writable_bytes_def prependable_bytes_def

lemma length_vec_resize [simp]: "length (vec_resize m n) = n"
  by (simp add: vec_resize_def)

lemma sub_vec_resize: "i + k \<le> length m \<Longrightarrow> i + k \<le> n \<Longrightarrow> sub (vec_resize m n) i k = sub m i k"
  by (simp add: vec_resize_def sub_def drop_take min_def)

lemma length_window [simp]: "i + length bs \<le> length m \<Longrightarrow> length (window m i bs) = length m"
  by (simp add: window_def)

lemma sub_window_same: "i + length bs \<le> length m \<Longrightarrow> n = length bs \<Longrightarrow> sub (window m i bs) i n = bs"
  by (simp add: window_def sub_def)

lemma sub_take: "j + n \<le> i \<Longrightarrow> sub (take i m) j n = sub m j n"
  by (simp add: sub_def drop_take min_def)

lemma sub_window_before: "j + n \<le> i \<Longrightarrow> i \<le> length m \<Longrightarrow> sub (window m i bs) j n = sub m j n"
  unfolding window_def by (subst sub_append_left) (simp_all add: sub_take)

lemma sub_add: "sub m i (n + k) = sub m i n @ sub m (i + n) k"
  by (simp add: sub_def take_add add.commute [of i n])

text \<open>A buffer within its invariant has natural indices.\<close>

lemma buf_invE:
  assumes "buf_inv b"
  obtains m r w where "b = \<lparr>buffer = m, reader_index = int r, writer_index = int w\<rparr>"
    and "8 \<le> r" and "r \<le> w" and "w \<le> length m"
proof
  show "b = \<lparr>buffer = buffer b, reader_index = int (nat (reader_index b)),
    writer_index = int (nat (writer_index b))\<rparr>"
    using assms by (simp add: buf_inv_def buf_consts)
qed (use assms in \<open>auto simp: buf_inv_def buf_consts buf_size_def\<close>)

lemma buf_inv_nat [simp]:
  "buf_inv \<lparr>buffer = m, reader_index = int r, writer_index = int w\<rparr> \<longleftrightarrow> 8 \<le> r \<and> r \<le> w \<and> w \<le> length m"
  by (auto simp: buf_inv_def buf_consts buf_size_def)

lemma content_nat [simp]:
  "r \<le> w \<Longrightarrow> content \<lparr>buffer = m, reader_index = int r, writer_index = int w\<rparr> = sub m r (w - r)"
  by (simp add: content_def readable_bytes_def nat_diff_distrib)

lemma length_content: "buf_inv b \<Longrightarrow> int (length (content b)) = readable_bytes b"
  by (erule buf_invE) (simp add: buf_getters of_nat_diff)

lemma readable_bytes_nonneg: "buf_inv b \<Longrightarrow> 0 \<le> readable_bytes b"
  by (simp add: buf_inv_def readable_bytes_def)

lemma writable_bytes_nonneg: "buf_inv b \<Longrightarrow> 0 \<le> writable_bytes b"
  by (simp add: buf_inv_def writable_bytes_def)

lemma buf_slice_content: "buf_inv b \<Longrightarrow> buf_slice b = Inr (content b)"
  by (erule buf_invE) (simp add: buf_slice_def mem_get_def nat_diff_distrib)

section \<open>The operations keep the invariant and act as a queue\<close>

lemma MakeSpace_spec:
  assumes "buf_inv b" and "writable_bytes b < len"
  obtains b' where "MakeSpace b len = Inr b'" "buf_inv b'" "content b' = content b" "len \<le> writable_bytes b'"
proof -
  from assms(1) obtain m r w where
    b: "b = \<lparr>buffer = m, reader_index = int r, writer_index = int w\<rparr>"
    and r: "8 \<le> r" "r \<le> w" "w \<le> length m" by (rule buf_invE)
  define n where "n = nat len"
  have n: "len = int n" using assms(2) r by (simp add: n_def b buf_getters)
  show thesis
  proof (cases "writable_bytes b + prependable_bytes b < len + kCheapPrepend")
    case True
    let ?b = "\<lparr>buffer = vec_resize m (w + n), reader_index = int r, writer_index = int w\<rparr>"
    have "MakeSpace b len = Inr ?b"
      using True by (simp add: MakeSpace_def b n nat_int_add)
    moreover have "content ?b = content b"
      using r by (simp add: b sub_vec_resize)
    ultimately show thesis using r n by (intro that [of ?b]) (simp_all add: buf_getters)
  next
    case False
    have lt: "8 < r" using False assms(2) by (simp add: b n buf_getters buf_consts)
    have copy: "mem_get m (int r) (int w) = Inr (sub m r (w - r))"
      using r by (simp add: mem_get_def nat_diff_distrib)
    let ?m = "window m 8 (sub m r (w - r))"
    let ?b = "\<lparr>buffer = ?m, reader_index = int 8, writer_index = int (8 + (w - r))\<rparr>"
    have "mem_put m 8 (sub m r (w - r)) = Inr ?m"
      using r lt by (simp add: mem_put_def)
    then have "MakeSpace b len = Inr ?b"
      using False lt copy r by (simp add: MakeSpace_def b buf_consts readable_bytes_def Let_def of_nat_diff)
    moreover have "content ?b = content b"
      using r lt by (subst content_nat) (simp_all add: b sub_window_same)
    moreover have "buf_inv ?b" unfolding buf_inv_nat using r lt by (simp, linarith)
    moreover have "len \<le> writable_bytes ?b"
      using False r lt by (simp add: b n buf_getters buf_consts of_nat_diff)
    ultimately show thesis by (intro that [of ?b]) simp_all
  qed
qed

lemma EnsureWritableBytes_spec:
  assumes "buf_inv b"
  obtains b' where "EnsureWritableBytes b len = Inr b'" "buf_inv b'" "content b' = content b"
    "len \<le> writable_bytes b'"
proof (cases "writable_bytes b < len")
  case True
  with assms obtain b' where "MakeSpace b len = Inr b'" "buf_inv b'" "content b' = content b"
    "len \<le> writable_bytes b'" by (rule MakeSpace_spec)
  with True show thesis by (intro that [of b']) (simp_all add: EnsureWritableBytes_def)
next
  case False
  with assms show thesis by (intro that [of b]) (simp_all add: EnsureWritableBytes_def)
qed

text \<open>What \<open>memcpy\<close> to \<open>write_index()\<close> and the step of the writer index do together.\<close>

lemma buf_write:
  assumes "buf_inv b" and "int (length bs) \<le> writable_bytes b"
  obtains m where "mem_put (buffer b) (writer_index b) bs = Inr m"
    and "length m = length (buffer b)"
    and "buf_inv (b\<lparr>buffer := m, writer_index := writer_index b + int (length bs)\<rparr>)"
    and "content (b\<lparr>buffer := m, writer_index := writer_index b + int (length bs)\<rparr>) = content b @ bs"
proof -
  from assms(1) obtain m r w where
    b: "b = \<lparr>buffer = m, reader_index = int r, writer_index = int w\<rparr>"
    and r: "8 \<le> r" "r \<le> w" "w \<le> length m" by (rule buf_invE)
  have fit: "w + length bs \<le> length m" using assms(2) by (simp add: b buf_getters)
  let ?b = "\<lparr>buffer = window m w bs, reader_index = int r, writer_index = int (w + length bs)\<rparr>"
  have "content ?b = sub (window m w bs) r ((w - r) + length bs)"
    using r by (subst content_nat) simp_all
  also have "\<dots> = content b @ bs"
    using r fit by (simp only: sub_add) (simp add: b sub_window_before sub_window_same)
  finally have "content ?b = content b @ bs" .
  moreover have "buf_inv ?b" unfolding buf_inv_nat using r fit by simp
  moreover have "b\<lparr>buffer := window m w bs, writer_index := writer_index b + int (length bs)\<rparr> = ?b"
    by (simp add: b)
  ultimately show thesis using fit by (intro that [of "window m w bs"]) (simp_all add: b mem_put_def)
qed

lemma Append_spec:
  assumes "buf_inv b" and "len \<le> int (length data)"
  obtains b' where "Append b data len = Inr b'" "buf_inv b'" "content b' = content b @ take (nat len) data"
proof (cases "0 < len")
  case True
  from assms(1) obtain b1 where b1: "EnsureWritableBytes b len = Inr b1" "buf_inv b1"
    "content b1 = content b" "len \<le> writable_bytes b1" by (rule EnsureWritableBytes_spec)
  let ?bs = "take (nat len) data"
  have l: "int (length ?bs) = len" using True assms(2) by simp
  with b1 obtain m where m: "mem_put (buffer b1) (writer_index b1) ?bs = Inr m"
    "buf_inv (b1\<lparr>buffer := m, writer_index := writer_index b1 + len\<rparr>)"
    "content (b1\<lparr>buffer := m, writer_index := writer_index b1 + len\<rparr>) = content b1 @ ?bs"
    using buf_write [of b1 ?bs] by metis
  have "Append b data len = Inr (b1\<lparr>buffer := m, writer_index := writer_index b1 + len\<rparr>)"
    using True assms(2) b1 m by (simp add: Append_def sub_def)
  with m b1 show thesis by (intro that) simp_all
qed (use assms in \<open>auto intro: that simp: Append_def\<close>)

text \<open>
  \<open>AddReadableLength\<close> publishes \<open>len\<close> bytes that were placed at \<open>write_index()\<close>
  before the call, and leaves room for the next read: 1024 bytes, or as many
  as the whole buffer had when it was smaller than that.
\<close>

lemma AddReadableLength_spec:
  assumes "buf_inv b" and "0 < len" and "len \<le> writable_bytes b"
  obtains b' where "AddReadableLength b len = Inr b'" "buf_inv b'"
    "content b' = content b @ sub (buffer b) (nat (writer_index b)) (nat len)"
    "min 1024 (buf_size b) \<le> writable_bytes b'"
proof -
  from assms(1) obtain m r w where
    b: "b = \<lparr>buffer = m, reader_index = int r, writer_index = int w\<rparr>"
    and r: "8 \<le> r" "r \<le> w" "w \<le> length m" by (rule buf_invE)
  define n where "n = nat len"
  have n: "len = int n" "w + n \<le> length m" "0 < n" using assms by (auto simp: n_def b buf_getters)
  define c where "c = \<lparr>buffer = m, reader_index = int r, writer_index = int (w + n)\<rparr>"
  have upd: "b\<lparr>writer_index := writer_index b + len\<rparr> = c" by (simp add: b c_def n)
  have inv: "buf_inv c" unfolding c_def buf_inv_nat using r n by simp
  have "content c = sub m r ((w - r) + n)" unfolding c_def using r by (subst content_nat) simp_all
  then have con: "content c = content b @ sub m w n" using r by (simp only: sub_add) (simp add: b)
  have size: "buf_size c = buf_size b" by (simp add: b c_def buf_size_def)
  have ens: "EnsureWritableBytes b len = Inr b"
    using assms by (simp add: EnsureWritableBytes_def)
  show thesis
  proof (cases "writable_bytes c < 1024")
    case False
    then have "AddReadableLength b len = Inr c"
      using assms(2) by (simp add: AddReadableLength_def ens upd Let_def)
    with inv con False show thesis by (intro that [of c]) (simp_all add: b n)
  next
    case True
    let ?k = "if buf_size c < 65536 then buf_size c else 65536"
    obtain c' where c': "EnsureWritableBytes c ?k = Inr c'" "buf_inv c'" "content c' = content c"
      "?k \<le> writable_bytes c'" using inv by (rule EnsureWritableBytes_spec)
    have "AddReadableLength b len = Inr c'"
      using assms(2) True c'(1) by (simp add: AddReadableLength_def ens upd Let_def split: if_splits)
    moreover have "min 1024 (buf_size b) \<le> writable_bytes c'"
      using c'(4) size by (simp split: if_splits)
    ultimately show thesis using c' con by (intro that [of c']) (simp_all add: b n)
  qed
qed

lemma Take_spec:
  assumes "buf_inv b" and "len \<le> readable_bytes b"
  obtains b' where "Take b len = Inr b'" "buf_inv b'" "content b' = drop (nat len) (content b)"
proof -
  from assms(1) obtain m r w where
    b: "b = \<lparr>buffer = m, reader_index = int r, writer_index = int w\<rparr>"
    and r: "8 \<le> r" "r \<le> w" "w \<le> length m" by (rule buf_invE)
  define n where "n = nat len"
  consider "len \<le> 0" | "0 < len" "len < readable_bytes b" | "0 < len" "len = readable_bytes b"
    using assms(2) by linarith
  then show thesis
  proof cases
    case 1
    with assms show thesis by (intro that [of b]) (simp_all add: Take_def)
  next
    case 2
    let ?b = "\<lparr>buffer = m, reader_index = int (r + n), writer_index = int w\<rparr>"
    have n: "len = int n" "r + n < w" using 2 r by (auto simp: n_def b buf_getters)
    have "content ?b = drop n (content b)"
      using n r by (subst content_nat) (simp_all add: b sub_def take_drop add.commute)
    moreover have "buf_inv ?b" unfolding buf_inv_nat using n r by simp
    moreover have "Take b len = Inr ?b" using 2 by (simp add: Take_def) (simp add: b n)
    ultimately show thesis by (intro that) (simp_all add: n)
  next
    case 3
    have "buf_inv (TakeAll b)" "content (TakeAll b) = []"
      using r by (simp_all add: TakeAll_def b buf_inv_def content_def buf_consts buf_getters sub_def)
    moreover have "drop (nat len) (content b) = []"
      using 3 length_content [OF assms(1)] by simp
    ultimately show thesis using 3 by (intro that [of "TakeAll b"]) (simp_all add: Take_def)
  qed
qed

lemma Take_too_much: "buf_inv b \<Longrightarrow> readable_bytes b < len \<Longrightarrow> Take b len = Inl AssertFail"
  using readable_bytes_nonneg [of b] by (simp add: Take_def)

lemma TakeAll_inv [simp]: "buf_inv b \<Longrightarrow> buf_inv (TakeAll b)"
  by (simp add: TakeAll_def buf_inv_def buf_consts buf_size_def)

lemma content_TakeAll [simp]: "content (TakeAll b) = []"
  by (simp add: TakeAll_def content_def readable_bytes_def sub_def)

lemma TakeUntil_spec:
  assumes "buf_inv b" and "reader_index b \<le> pos" and "pos \<le> writer_index b"
  obtains b' where "TakeUntil b pos = Inr b'" "buf_inv b'"
    "content b' = drop (nat (pos - reader_index b)) (content b)"
  using Take_spec [OF assms(1), of "pos - reader_index b"] assms
  by (auto simp: TakeUntil_def readable_bytes_def)

lemma Buffer_new_spec:
  assumes "0 \<le> n"
  obtains b where "Buffer_new n = Inr b" "buf_inv b" "content b = []" "writable_bytes b = n"
  using assms that by (simp add: Buffer_new_def buf_getters buf_consts buf_inv_def content_def sub_def)

text \<open>
  Whatever \<open>readv\<close> delivers, up to the capacity it is offered, ends up behind
  the readable bytes, also when it spills into the extra buffer.
\<close>

lemma ReadFd_spec:
  assumes "buf_inv b" and "int (length bs) \<le> ReadFd_capacity b"
  obtains b' where "ReadFd b (Some bs) = Inr (int (length bs), b')" "buf_inv b'" "content b' = content b @ bs"
proof (cases "int (length bs) \<le> writable_bytes b")
  case True
  then obtain m where m: "mem_put (buffer b) (writer_index b) bs = Inr m"
    "buf_inv (b\<lparr>buffer := m, writer_index := writer_index b + int (length bs)\<rparr>)"
    "content (b\<lparr>buffer := m, writer_index := writer_index b + int (length bs)\<rparr>) = content b @ bs"
    using buf_write [OF assms(1)] by metis
  have "take (nat (writable_bytes b)) bs = bs" using True by simp
  with m True show thesis by (intro that) (simp_all add: ReadFd_def Let_def)
next
  case False
  let ?w = "nat (writable_bytes b)"
  have wn: "0 \<le> writable_bytes b" using assms(1) by (rule writable_bytes_nonneg)
  have l: "int (length (take ?w bs)) = writable_bytes b" using False wn by simp
  then obtain m where m: "mem_put (buffer b) (writer_index b) (take ?w bs) = Inr m"
    "length m = length (buffer b)"
    "buf_inv (b\<lparr>buffer := m, writer_index := writer_index b + writable_bytes b\<rparr>)"
    "content (b\<lparr>buffer := m, writer_index := writer_index b + writable_bytes b\<rparr>) = content b @ take ?w bs"
    using buf_write [OF assms(1), of "take ?w bs"] by (metis order.refl)
  let ?b = "b\<lparr>buffer := m, writer_index := buf_size b\<rparr>"
  have full: "buf_inv ?b" "content ?b = content b @ take ?w bs"
    using m by (simp_all add: writable_bytes_def)
  have room: "writable_bytes b < extrabuf_size" "int (length (drop ?w bs)) \<le> extrabuf_size"
    using False wn assms(2) by (auto simp: ReadFd_capacity_def split: if_splits)
  then have extra: "take (nat extrabuf_size) (drop ?w bs) = drop ?w bs" by simp
  have rest: "int (length bs) - writable_bytes b = int (length (drop ?w bs))" using False wn by simp
  obtain b' where b': "Append ?b (drop ?w bs) (int (length (drop ?w bs))) = Inr b'" "buf_inv b'"
    "content b' = content ?b @ take (nat (int (length (drop ?w bs)))) (drop ?w bs)"
    using Append_spec [OF full(1) order.refl, of "drop ?w bs"] by blast
  have "ReadFd b (Some bs) = Inr (int (length bs), b')"
    using False m b'(1) room(1) by (simp add: ReadFd_def Let_def extra rest buf_size_def)
  with b' full show thesis by (intro that [of b']) simp_all
qed

section \<open>The buffer as a queue of bytes\<close>

text \<open>
  What the streams and the packet builders use of a buffer. \<open>run_ops\<close> performs
  a sequence of calls; \<open>queue_run\<close> is what the sequence means for a queue, with
  \<open>None\<close> for a call that takes more than there is.
\<close>

datatype queue_op = Put "byte list" | Get nat | Clear

primrec run_op :: "('b \<Rightarrow> byte list \<Rightarrow> 'b res) \<Rightarrow> ('b \<Rightarrow> nat \<Rightarrow> 'b res) \<Rightarrow> ('b \<Rightarrow> 'b) \<Rightarrow> queue_op \<Rightarrow> 'b \<Rightarrow> 'b res" where
  "run_op app drp clr (Put xs) b = app b xs"
| "run_op app drp clr (Get n) b = drp b n"
| "run_op app drp clr Clear b = Inr (clr b)"

primrec run_ops :: "('b \<Rightarrow> byte list \<Rightarrow> 'b res) \<Rightarrow> ('b \<Rightarrow> nat \<Rightarrow> 'b res) \<Rightarrow> ('b \<Rightarrow> 'b) \<Rightarrow> queue_op list \<Rightarrow> 'b \<Rightarrow> 'b res" where
  "run_ops app drp clr [] b = Inr b"
| "run_ops app drp clr (p # ps) b = fbind (run_op app drp clr p b) (run_ops app drp clr ps)"

primrec queue_op_run :: "queue_op \<Rightarrow> byte list \<Rightarrow> byte list option" where
  "queue_op_run (Put xs) q = Some (q @ xs)"
| "queue_op_run (Get n) q = (if n \<le> length q then Some (drop n q) else None)"
| "queue_op_run Clear q = Some []"

primrec queue_run :: "queue_op list \<Rightarrow> byte list \<Rightarrow> byte list option" where
  "queue_run [] q = Some q"
| "queue_run (p # ps) q = (case queue_op_run p q of None \<Rightarrow> None | Some q \<Rightarrow> queue_run ps q)"

locale byte_queue =
  fixes inv :: "'b \<Rightarrow> bool"
    and bytes :: "'b \<Rightarrow> byte list"
    and app :: "'b \<Rightarrow> byte list \<Rightarrow> 'b res"
    and drp :: "'b \<Rightarrow> nat \<Rightarrow> 'b res"
    and clr :: "'b \<Rightarrow> 'b"
  assumes app_ok: "inv b \<Longrightarrow> \<exists>b'. app b xs = Inr b' \<and> inv b' \<and> bytes b' = bytes b @ xs"
    and drp_ok: "inv b \<Longrightarrow> n \<le> length (bytes b) \<Longrightarrow> \<exists>b'. drp b n = Inr b' \<and> inv b' \<and> bytes b' = drop n (bytes b)"
    and drp_fail: "inv b \<Longrightarrow> length (bytes b) < n \<Longrightarrow> drp b n = Inl AssertFail"
    and clr_ok: "inv b \<Longrightarrow> inv (clr b) \<and> bytes (clr b) = []"
begin

lemma run_op_some:
  "inv b \<Longrightarrow> queue_op_run p (bytes b) = Some q \<Longrightarrow>
    \<exists>b'. run_op app drp clr p b = Inr b' \<and> inv b' \<and> bytes b' = q"
  using app_ok drp_ok clr_ok by (cases p) (auto split: if_splits)

lemma run_op_none: "inv b \<Longrightarrow> queue_op_run p (bytes b) = None \<Longrightarrow> run_op app drp clr p b = Inl AssertFail"
  using drp_fail by (cases p) (auto split: if_splits)

theorem run_ops_refines:
  "inv b \<Longrightarrow>
    (case queue_run ps (bytes b) of
       None \<Rightarrow> run_ops app drp clr ps b = Inl AssertFail
     | Some q \<Rightarrow> \<exists>b'. run_ops app drp clr ps b = Inr b' \<and> inv b' \<and> bytes b' = q)"
proof (induction ps arbitrary: b)
  case (Cons p ps)
  show ?case
  proof (cases "queue_op_run p (bytes b)")
    case None
    then show ?thesis using run_op_none [OF Cons.prems] by simp
  next
    case (Some q)
    then obtain b' where "run_op app drp clr p b = Inr b'" "inv b'" "bytes b' = q"
      using run_op_some [OF Cons.prems] by blast
    then show ?thesis using Cons.IH [of b'] Some by (cases "queue_run ps q") simp_all
  qed
qed simp

end

interpretation bq: byte_queue buf_inv content Append_piece "\<lambda>b n. Take b (int n)" TakeAll
proof
  fix b :: Buffer and xs n
  assume inv: "buf_inv b"
  show "\<exists>b'. Append_piece b xs = Inr b' \<and> buf_inv b' \<and> content b' = content b @ xs"
    using Append_spec [OF inv, of "int (length xs)" xs] by (metis Append_piece_def nat_int order.refl take_all_iff)
  show "\<exists>b'. Take b (int n) = Inr b' \<and> buf_inv b' \<and> content b' = drop n (content b)"
    if "n \<le> length (content b)"
    using Take_spec [OF inv, of "int n"] that length_content [OF inv] by (metis nat_int of_nat_le_iff)
  show "Take b (int n) = Inl AssertFail" if "length (content b) < n"
    using that length_content [OF inv] by (intro Take_too_much inv) linarith
qed simp_all

section \<open>Building a packet in a buffer\<close>

text \<open>
  \<open>holds m bs\<close>: the code \<open>m\<close> ends with a buffer whose readable bytes are \<open>bs\<close>.
  \<open>adds f bs\<close>: the call \<open>f\<close> puts \<open>bs\<close> behind what the buffer holds.
\<close>

definition holds :: "Buffer res \<Rightarrow> byte list \<Rightarrow> bool" where
  "holds m bs \<longleftrightarrow> (\<exists>b. m = Inr b \<and> buf_inv b \<and> content b = bs)"

definition adds :: "(Buffer \<Rightarrow> Buffer res) \<Rightarrow> byte list \<Rightarrow> bool" where
  "adds f bs \<longleftrightarrow> (\<forall>b. buf_inv b \<longrightarrow> holds (f b) (content b @ bs))"

named_theorems build_intros \<open>what the append calls do to a buffer under construction\<close>

lemma holds_bind: "holds m bs \<Longrightarrow> (\<And>b. buf_inv b \<Longrightarrow> content b = bs \<Longrightarrow> holds (f b) cs) \<Longrightarrow> holds (fbind m f) cs"
  by (auto simp: holds_def)

lemma holds_adds: "holds m bs \<Longrightarrow> adds f cs \<Longrightarrow> holds (fbind m f) (bs @ cs)"
  by (rule holds_bind) (auto simp: adds_def)

lemma adds_bind [build_intros]: "adds f xs \<Longrightarrow> adds g ys \<Longrightarrow> adds (\<lambda>b. fbind (f b) g) (xs @ ys)"
  unfolding adds_def holds_def by fastforce

lemma adds_skip: "adds Inr []"
  by (simp add: adds_def holds_def)

lemma adds_if [build_intros]: "(c \<Longrightarrow> adds f xs) \<Longrightarrow> adds (\<lambda>b. if c then f b else Inr b) (if c then xs else [])"
  using adds_skip by (cases c) simp_all

lemma adds_piece [build_intros]: "adds (\<lambda>b. Append_piece b xs) xs"
  using bq.app_ok by (simp add: adds_def holds_def)

lemma Append_eq_piece:
  "Append_u8 b v = Append_piece b [v]"
  "Append_u16 b h = Append_piece b (mem16 h)"
  "Append_u32 b w = Append_piece b (mem32 w)"
  "Append_u64 b x = Append_piece b (mem64 x)"
  by (simp_all add: Append_u8_def Append_u16_def Append_u32_def Append_u64_def Append_piece_def
      mem16_def mem32_def mem64_def)

lemma adds_bytes: "n = int (length xs) \<Longrightarrow> adds (\<lambda>b. Append b xs n) xs"
  using adds_piece [of xs] by (simp add: Append_piece_def)

lemma adds_u8 [build_intros]: "adds (\<lambda>b. Append_u8 b v) [v]"
  unfolding Append_eq_piece by (rule adds_piece)

lemma adds_u16 [build_intros]: "adds (\<lambda>b. Append_u16 b (HostToNetwork16 v)) (be16 v)"
  unfolding Append_eq_piece mem16_HostToNetwork16 by (rule adds_piece)

lemma adds_u32 [build_intros]: "adds (\<lambda>b. Append_u32 b (HostToNetwork32 v)) (be32 v)"
  unfolding Append_eq_piece mem32_HostToNetwork32 by (rule adds_piece)

lemma adds_u64 [build_intros]: "adds (\<lambda>b. Append_u64 b (HostToNetwork64 v)) (be64 v)"
  unfolding Append_eq_piece mem64_HostToNetwork64 by (rule adds_piece)

section \<open>The pool\<close>

definition pool_inv :: "BufferPool \<Rightarrow> bool" where
  "pool_inv p \<longleftrightarrow> (\<forall>b \<in> set (buffers p). buf_inv b \<and> content b = [])"

lemma pool_fill_spec:
  "\<exists>bs. pool_fill n = Inr bs \<and> length bs = n \<and> (\<forall>b \<in> set bs. buf_inv b \<and> content b = [])"
proof (induction n)
  case (Suc n)
  obtain b where "Buffer_new kInitialSize = Inr b" "buf_inv b" "content b = []"
    using Buffer_new_spec [of kInitialSize] by (auto simp: kInitialSize_def)
  with Suc show ?case by auto
qed simp

text \<open>
  A client of the pool: the buffers it holds and the calls it makes. Like
  \<open>WebRTCServer::DispatchDataLoop\<close> it uses the allocated buffer without testing
  the pointer.
\<close>

datatype pool_op = PAlloc | PFill nat "byte list" | PFree nat

fun pool_step :: "pool_op \<Rightarrow> BufferPool \<times> Buffer list \<Rightarrow> (BufferPool \<times> Buffer list) res" where
  "pool_step PAlloc (p, held) =
     (case AllocBuffer p of (None, p) \<Rightarrow> Inl NullDeref | (Some b, p) \<Rightarrow> Inr (p, held @ [b]))"
| "pool_step (PFill i bs) (p, held) =
     (if i < length held then fbind (Append_piece (held ! i) bs) (\<lambda>b. Inr (p, held[i := b])) else Inr (p, held))"
| "pool_step (PFree i) (p, held) =
     (if i < length held then Inr (BufferDelete p (held ! i), take i held @ drop (Suc i) held) else Inr (p, held))"

definition pool_ok :: "nat \<Rightarrow> BufferPool \<times> Buffer list \<Rightarrow> bool" where
  "pool_ok n = (\<lambda>(p, held). pool_inv p \<and> (\<forall>b \<in> set held. buf_inv b) \<and> length (buffers p) + length held = n)"

lemma pool_step_ok:
  assumes "pool_ok n s" and "pool_step c s = Inr s'"
  shows "pool_ok n s'"
proof -
  obtain p held where s: "s = (p, held)" by (cases s)
  show ?thesis
  proof (cases c)
    case PAlloc
    then show ?thesis using assms
      by (auto simp: s AllocBuffer_def pool_ok_def pool_inv_def in_set_butlastD split: if_splits)
  next
    case (PFill i bs)
    show ?thesis
    proof (cases "i < length held")
      case True
      then have "buf_inv (held ! i)" using assms(1) by (simp add: s pool_ok_def)
      then obtain b where "Append_piece (held ! i) bs = Inr b" "buf_inv b" using bq.app_ok by blast
      then show ?thesis using assms PFill True
        by (auto simp: s pool_ok_def dest: set_update_subset_insert [THEN subsetD])
    qed (use assms PFill s in simp)
  next
    case (PFree i)
    then show ?thesis using assms
      by (auto simp: s pool_ok_def pool_inv_def BufferDelete_def split: if_splits
          dest!: in_set_takeD in_set_dropD)
  qed
qed

lemma pool_step_fault:
  assumes "pool_ok n (p, held)" and "pool_step c (p, held) = Inl e"
  shows "e = NullDeref \<and> c = PAlloc \<and> length held = n"
proof (cases c)
  case (PFill i bs)
  then show ?thesis using assms bq.app_ok [of "held ! i" bs]
    by (cases "i < length held") (auto simp: pool_ok_def)
qed (use assms in \<open>auto simp: AllocBuffer_def pool_ok_def split: if_splits\<close>)

section \<open>Properties\<close>


text \<open>\<open>ReadFd\<close> appends to the readable bytes exactly what \<open>readv\<close> delivered,
  within the capacity it was offered, whether it fits the writable part or
  spills into the 64 KiB extra buffer, and returns its length.\<close>

theorem ReadFd_appends:
  assumes "buf_inv b" and "int (length bs) \<le> ReadFd_capacity b"
  shows "\<exists>b'. ReadFd b (Some bs) = Inr (int (length bs), b') \<and> buf_inv b' \<and> content b' = content b @ bs"
  using ReadFd_spec [OF assms] by metis

theorem ReadFd_appends_witness:
  "\<exists>b'. ReadFd \<lparr>buffer = replicate 12 0, reader_index = 8, writer_index = 8\<rparr> (Some [1, 2, 3, 4, 5, 6]) = Inr (6, b') \<and>
     buf_inv b' \<and> content b' = [1, 2, 3, 4, 5, 6]"
proof -
  let ?b = "\<lparr>buffer = replicate 12 0, reader_index = 8, writer_index = 8\<rparr>"
  have "buf_inv ?b" "int (length [1, 2, 3, 4, 5, 6 :: byte]) \<le> ReadFd_capacity ?b" "content ?b = []"
    by (simp_all add: buf_inv_def buf_consts buf_getters ReadFd_capacity_def content_def sub_def)
  then show ?thesis using ReadFd_appends [of ?b "[1, 2, 3, 4, 5, 6]"] by simp
qed

text \<open>\<open>AddReadableLength\<close> makes the \<open>len\<close> bytes that were received at
  \<open>write_index()\<close> readable without losing any, although it may move or grow the
  vector afterwards, and leaves room for the next datagram.\<close>

theorem AddReadableLength_publishes:
  assumes "buf_inv b" and "0 < len" and "len \<le> writable_bytes b"
  shows "\<exists>b'. AddReadableLength b len = Inr b' \<and> buf_inv b' \<and>
    content b' = content b @ sub (buffer b) (nat (writer_index b)) (nat len) \<and>
    min 1024 (buf_size b) \<le> writable_bytes b'"
  using AddReadableLength_spec [OF assms] by metis

theorem AddReadableLength_publishes_witness:
  "\<exists>b'. AddReadableLength \<lparr>buffer = replicate 8 0 @ [7, 8, 9], reader_index = 8, writer_index = 8\<rparr> 2 = Inr b' \<and>
     buf_inv b' \<and> content b' = [7, 8] \<and> 11 \<le> writable_bytes b'"
proof -
  let ?b = "\<lparr>buffer = replicate 8 0 @ [7, 8, 9], reader_index = 8, writer_index = 8\<rparr>"
  have "buf_inv ?b" "(2 :: int) \<le> writable_bytes ?b" "content ?b = []" "buf_size ?b = 11"
    "sub (buffer ?b) (nat (writer_index ?b)) (nat 2) = [7, 8]"
    by (simp_all add: buf_inv_def buf_consts buf_getters content_def sub_def)
  then show ?thesis using AddReadableLength_publishes [of ?b 2] by simp
qed

text \<open>Buffers are neither lost nor duplicated by the pool: whatever is
  allocated, filled and released, the buffers in the pool and in use number as
  many as were created, those in the pool are empty and within the invariant,
  and a client that does not test the pointer faults exactly when it allocates
  while all of them are in use.\<close>

theorem pool_conserves:
  assumes "pool_ok n (p, held)"
  shows "case pool_step c (p, held) of
      Inr s' \<Rightarrow> pool_ok n s'
    | Inl e \<Rightarrow> e = NullDeref \<and> c = PAlloc \<and> length held = n"
  using pool_step_ok [OF assms] pool_step_fault [OF assms] by (auto split: sum.split)

theorem pool_conserves_witness:
  "case pool_step PAlloc (\<lparr>buffers = [\<lparr>buffer = replicate 9 0, reader_index = 8, writer_index = 8\<rparr>]\<rparr>, []) of
      Inr s' \<Rightarrow> pool_ok 1 s'
    | Inl e \<Rightarrow> e = NullDeref \<and> PAlloc = PAlloc \<and> length ([] :: Buffer list) = 1"
  by (rule pool_conserves)
    (simp add: pool_ok_def pool_inv_def buf_inv_def buf_consts buf_getters content_def sub_def)

end
