(* ===== verification/Crc32.thy ===== *)
theory Crc32
  imports Net_Types
begin

text \<open>
  \<open>kernel/crypto/util.cc\<close>: the table-driven CRC-32 that the STUN fingerprint
  uses. It is shown equal to the bit-serial definition of the checksum
  (reflected polynomial \<open>0xEDB88320\<close>), and to detect every corruption of a
  single byte. \<open>HmacSha1\<close> calls OpenSSL and is a parameter of the packet code.
\<close>

section \<open>The code\<close>

definition g_crc32_table :: "u32 list" where
  "g_crc32_table =
    [0x00000000, 0x77073096, 0xEE0E612C, 0x990951BA, 0x076DC419, 0x706AF48F,
     0xE963A535, 0x9E6495A3, 0x0EDB8832, 0x79DCB8A4, 0xE0D5E91E, 0x97D2D988,
     0x09B64C2B, 0x7EB17CBD, 0xE7B82D07, 0x90BF1D91, 0x1DB71064, 0x6AB020F2,
     0xF3B97148, 0x84BE41DE, 0x1ADAD47D, 0x6DDDE4EB, 0xF4D4B551, 0x83D385C7,
     0x136C9856, 0x646BA8C0, 0xFD62F97A, 0x8A65C9EC, 0x14015C4F, 0x63066CD9,
     0xFA0F3D63, 0x8D080DF5, 0x3B6E20C8, 0x4C69105E, 0xD56041E4, 0xA2677172,
     0x3C03E4D1, 0x4B04D447, 0xD20D85FD, 0xA50AB56B, 0x35B5A8FA, 0x42B2986C,
     0xDBBBC9D6, 0xACBCF940, 0x32D86CE3, 0x45DF5C75, 0xDCD60DCF, 0xABD13D59,
     0x26D930AC, 0x51DE003A, 0xC8D75180, 0xBFD06116, 0x21B4F4B5, 0x56B3C423,
     0xCFBA9599, 0xB8BDA50F, 0x2802B89E, 0x5F058808, 0xC60CD9B2, 0xB10BE924,
     0x2F6F7C87, 0x58684C11, 0xC1611DAB, 0xB6662D3D, 0x76DC4190, 0x01DB7106,
     0x98D220BC, 0xEFD5102A, 0x71B18589, 0x06B6B51F, 0x9FBFE4A5, 0xE8B8D433,
     0x7807C9A2, 0x0F00F934, 0x9609A88E, 0xE10E9818, 0x7F6A0DBB, 0x086D3D2D,
     0x91646C97, 0xE6635C01, 0x6B6B51F4, 0x1C6C6162, 0x856530D8, 0xF262004E,
     0x6C0695ED, 0x1B01A57B, 0x8208F4C1, 0xF50FC457, 0x65B0D9C6, 0x12B7E950,
     0x8BBEB8EA, 0xFCB9887C, 0x62DD1DDF, 0x15DA2D49, 0x8CD37CF3, 0xFBD44C65,
     0x4DB26158, 0x3AB551CE, 0xA3BC0074, 0xD4BB30E2, 0x4ADFA541, 0x3DD895D7,
     0xA4D1C46D, 0xD3D6F4FB, 0x4369E96A, 0x346ED9FC, 0xAD678846, 0xDA60B8D0,
     0x44042D73, 0x33031DE5, 0xAA0A4C5F, 0xDD0D7CC9, 0x5005713C, 0x270241AA,
     0xBE0B1010, 0xC90C2086, 0x5768B525, 0x206F85B3, 0xB966D409, 0xCE61E49F,
     0x5EDEF90E, 0x29D9C998, 0xB0D09822, 0xC7D7A8B4, 0x59B33D17, 0x2EB40D81,
     0xB7BD5C3B, 0xC0BA6CAD, 0xEDB88320, 0x9ABFB3B6, 0x03B6E20C, 0x74B1D29A,
     0xEAD54739, 0x9DD277AF, 0x04DB2615, 0x73DC1683, 0xE3630B12, 0x94643B84,
     0x0D6D6A3E, 0x7A6A5AA8, 0xE40ECF0B, 0x9309FF9D, 0x0A00AE27, 0x7D079EB1,
     0xF00F9344, 0x8708A3D2, 0x1E01F268, 0x6906C2FE, 0xF762575D, 0x806567CB,
     0x196C3671, 0x6E6B06E7, 0xFED41B76, 0x89D32BE0, 0x10DA7A5A, 0x67DD4ACC,
     0xF9B9DF6F, 0x8EBEEFF9, 0x17B7BE43, 0x60B08ED5, 0xD6D6A3E8, 0xA1D1937E,
     0x38D8C2C4, 0x4FDFF252, 0xD1BB67F1, 0xA6BC5767, 0x3FB506DD, 0x48B2364B,
     0xD80D2BDA, 0xAF0A1B4C, 0x36034AF6, 0x41047A60, 0xDF60EFC3, 0xA867DF55,
     0x316E8EEF, 0x4669BE79, 0xCB61B38C, 0xBC66831A, 0x256FD2A0, 0x5268E236,
     0xCC0C7795, 0xBB0B4703, 0x220216B9, 0x5505262F, 0xC5BA3BBE, 0xB2BD0B28,
     0x2BB45A92, 0x5CB36A04, 0xC2D7FFA7, 0xB5D0CF31, 0x2CD99E8B, 0x5BDEAE1D,
     0x9B64C2B0, 0xEC63F226, 0x756AA39C, 0x026D930A, 0x9C0906A9, 0xEB0E363F,
     0x72076785, 0x05005713, 0x95BF4A82, 0xE2B87A14, 0x7BB12BAE, 0x0CB61B38,
     0x92D28E9B, 0xE5D5BE0D, 0x7CDCEFB7, 0x0BDBDF21, 0x86D3D2D4, 0xF1D4E242,
     0x68DDB3F8, 0x1FDA836E, 0x81BE16CD, 0xF6B9265B, 0x6FB077E1, 0x18B74777,
     0x88085AE6, 0xFF0F6A70, 0x66063BCA, 0x11010B5C, 0x8F659EFF, 0xF862AE69,
     0x616BFFD3, 0x166CCF45, 0xA00AE278, 0xD70DD2EE, 0x4E048354, 0x3903B3C2,
     0xA7672661, 0xD06016F7, 0x4969474D, 0x3E6E77DB, 0xAED16A4A, 0xD9D65ADC,
     0x40DF0B66, 0x37D83BF0, 0xA9BCAE53, 0xDEBB9EC5, 0x47B2CF7F, 0x30B5FFE9,
     0xBDBDF21C, 0xCABAC28A, 0x53B39330, 0x24B4A3A6, 0xBAD03605, 0xCDD70693,
     0x54DE5729, 0x23D967BF, 0xB3667A2E, 0xC4614AB8, 0x5D681B02, 0x2A6F2B94,
     0xB40BBE37, 0xC30C8EA1, 0x5A05DF1B, 0x2D02EF8D]"

definition crc_update :: "u32 \<Rightarrow> byte \<Rightarrow> u32" where
  "crc_update crc b = g_crc32_table ! unat ((crc XOR ucast b) AND 0xFF) XOR drop_bit 8 crc"

definition CRC32 :: "byte list \<Rightarrow> u32" where
  "CRC32 s = foldl crc_update 0xFFFFFFFF s XOR NOT 0"

section \<open>The bit-serial checksum\<close>

definition crc_poly :: u32 where "crc_poly = 0xEDB88320"

definition crc_bit :: "u32 \<Rightarrow> u32" where
  "crc_bit c = (if bit c 0 then drop_bit 1 c XOR crc_poly else drop_bit 1 c)"

definition crc_byte :: "u32 \<Rightarrow> byte \<Rightarrow> u32" where
  "crc_byte c b = (crc_bit ^^ 8) (c XOR ucast b)"

definition crc_reference :: "byte list \<Rightarrow> u32" where
  "crc_reference s = foldl crc_byte 0xFFFFFFFF s XOR 0xFFFFFFFF"

section \<open>The table is the effect of eight bit steps\<close>

lemma crc_bit_pow8:
  "(crc_bit ^^ 8) x = crc_bit (crc_bit (crc_bit (crc_bit (crc_bit (crc_bit (crc_bit (crc_bit x)))))))"
  by (simp add: numeral_eq_Suc)

lemma upt_256: "[0..<256] =
    [0, 1, 2, 3, 4, 5, 6, 7, 8, 9, 10, 11, 12, 13, 14, 15, 16, 17, 18, 19,
     20, 21, 22, 23, 24, 25, 26, 27, 28, 29, 30, 31, 32, 33, 34, 35, 36, 37, 38, 39,
     40, 41, 42, 43, 44, 45, 46, 47, 48, 49, 50, 51, 52, 53, 54, 55, 56, 57, 58, 59,
     60, 61, 62, 63, 64, 65, 66, 67, 68, 69, 70, 71, 72, 73, 74, 75, 76, 77, 78, 79,
     80, 81, 82, 83, 84, 85, 86, 87, 88, 89, 90, 91, 92, 93, 94, 95, 96, 97, 98, 99,
     100, 101, 102, 103, 104, 105, 106, 107, 108, 109, 110, 111, 112, 113, 114, 115, 116, 117, 118, 119,
     120, 121, 122, 123, 124, 125, 126, 127, 128, 129, 130, 131, 132, 133, 134, 135, 136, 137, 138, 139,
     140, 141, 142, 143, 144, 145, 146, 147, 148, 149, 150, 151, 152, 153, 154, 155, 156, 157, 158, 159,
     160, 161, 162, 163, 164, 165, 166, 167, 168, 169, 170, 171, 172, 173, 174, 175, 176, 177, 178, 179,
     180, 181, 182, 183, 184, 185, 186, 187, 188, 189, 190, 191, 192, 193, 194, 195, 196, 197, 198, 199,
     200, 201, 202, 203, 204, 205, 206, 207, 208, 209, 210, 211, 212, 213, 214, 215, 216, 217, 218, 219,
     220, 221, 222, 223, 224, 225, 226, 227, 228, 229, 230, 231, 232, 233, 234, 235, 236, 237, 238, 239,
     240, 241, 242, 243, 244, 245, 246, 247, 248, 249, 250, 251, 252, 253, 254, 255]"
  by (simp add: upt_conv_Cons)

lemma crc_table_entries: "map (\<lambda>n. (crc_bit ^^ 8) (word_of_nat n)) [0..<256] = g_crc32_table"
  unfolding g_crc32_table_def
  by (simp only: upt_256 list.map of_nat_numeral of_nat_0 of_nat_1 crc_bit_pow8)
    (simp add: crc_bit_def crc_poly_def)

section \<open>The table-driven checksum is the bit-serial one\<close>

lemma crc_bit_alt: "crc_bit c = drop_bit 1 c XOR (if bit c 0 then crc_poly else 0)"
  by (simp add: crc_bit_def)

lemma crc_bit_xor: "crc_bit (a XOR b) = crc_bit a XOR crc_bit b"
proof -
  have "(if bit (a XOR b) 0 then crc_poly else 0) =
      (if bit a 0 then crc_poly else 0) XOR (if bit b 0 then crc_poly else 0)"
    by (simp add: bit_xor_iff)
  then show ?thesis unfolding crc_bit_alt
    by (simp add: xor.assoc xor.left_commute)
qed

lemma crc_bits_xor: "(crc_bit ^^ n) (a XOR b) = (crc_bit ^^ n) a XOR (crc_bit ^^ n) b"
  by (induction n) (simp_all add: crc_bit_xor)

text \<open>A word whose low \<open>k\<close> bits are zero is shifted out by \<open>k\<close> steps.\<close>

lemma crc_bits_push:
  "k \<le> 32 \<Longrightarrow> take_bit (32 - k) y = y \<Longrightarrow> (crc_bit ^^ k) (push_bit k y) = y"
proof (induction k)
  case (Suc k)
  have b: "bit y n \<Longrightarrow> n < 31 - k" for n
    using Suc.prems bit_take_bit_iff [of "32 - Suc k" y n] by simp
  have "take_bit (32 - k) y = y"
    by (rule bit_word_eqI) (auto simp: bit_take_bit_iff dest: b)
  moreover have "crc_bit (push_bit (Suc k) y) = push_bit k y"
  proof -
    have "\<not> bit (push_bit (Suc k) y) 0" by (simp add: bit_push_bit_iff del: push_bit_Suc)
    then have "crc_bit (push_bit (Suc k) y) = drop_bit 1 (push_bit (Suc k) y)"
      by (simp only: crc_bit_def if_False)
    also have "\<dots> = push_bit k y"
      by (rule bit_word_eqI) (auto simp: bit_drop_bit_eq bit_push_bit_iff simp del: push_bit_Suc dest: b)
    finally show ?thesis .
  qed
  ultimately show ?case using Suc by (simp add: funpow_Suc_right del: funpow.simps push_bit_Suc)
qed simp

lemma split_low_byte: "(x :: u32) = (x AND 0xFF) XOR push_bit 8 (drop_bit 8 x)"
proof (rule bit_word_eqI)
  fix n assume n: "n < LENGTH(32)"
  have "(0xFF :: u32) = mask 8" by (simp add: mask_eq_exp_minus_1)
  then have "x AND 0xFF = take_bit 8 x" by (simp only: take_bit_eq_mask)
  then have "bit ((x AND 0xFF) XOR push_bit 8 (drop_bit 8 x)) n \<longleftrightarrow>
      bit (take_bit 8 x XOR push_bit 8 (drop_bit 8 x)) n" by (simp only:)
  also have "\<dots> \<longleftrightarrow> bit x n"
    using n le_Suc_ex [of 8 n] by (cases "n < 8") (auto simp: bit_simps not_less)
  finally show "bit x n \<longleftrightarrow> bit ((x AND 0xFF) XOR push_bit 8 (drop_bit 8 x)) n" ..
qed

lemma and_255_less: "unat ((x :: u32) AND 0xFF) < 256"
proof -
  have "x AND 0xFF = take_bit 8 x" by (simp add: take_bit_eq_mask mask_eq_exp_minus_1)
  then have "unat (x AND 0xFF) = take_bit 8 (unat x)" by (simp only: unsigned_take_bit_eq)
  then show ?thesis using take_bit_nat_less_exp [of 8 "unat x"] by simp
qed

lemma crc_table_at: "n < 256 \<Longrightarrow> g_crc32_table ! n = (crc_bit ^^ 8) (word_of_nat n)"
  unfolding crc_table_entries [symmetric] by (simp only: nth_map length_upt nth_upt add_0 diff_zero)

lemma crc_update_eq: "crc_update c b = crc_byte c b"
proof -
  define x where "x = c XOR ucast b"
  have "drop_bit 8 (ucast b :: u32) = 0" by (rule bit_word_eqI) (simp add: bit_simps)
  then have d: "drop_bit 8 x = drop_bit 8 c" by (simp add: x_def)
  have "take_bit 24 (drop_bit 8 x) = drop_bit 8 x"
    by (rule bit_word_eqI) (auto simp: bit_simps dest: bit_imp_le_length)
  then have "(crc_bit ^^ 8) (push_bit 8 (drop_bit 8 x)) = drop_bit 8 x"
    by (intro crc_bits_push) simp_all
  then have "(crc_bit ^^ 8) x = (crc_bit ^^ 8) (x AND 0xFF) XOR drop_bit 8 x"
    using crc_bits_xor [of 8 "x AND 0xFF" "push_bit 8 (drop_bit 8 x)"]
    by (simp only: split_low_byte [symmetric])
  moreover have "g_crc32_table ! unat (x AND 0xFF) = (crc_bit ^^ 8) (x AND 0xFF)"
    using crc_table_at [OF and_255_less [of x]] by simp
  ultimately show ?thesis by (simp add: crc_update_def crc_byte_def d flip: x_def)
qed

section \<open>Injectivity of the bit steps\<close>

lemma xor_cancel_right: "a XOR c = b XOR c \<Longrightarrow> a = (b :: 'a::len word)"
  by (metis xor.assoc xor.right_neutral xor_self_eq)

lemma xor_cancel_left: "c XOR a = c XOR b \<Longrightarrow> a = (b :: 'a::len word)"
  by (metis xor.commute xor_cancel_right)

lemma crc_bit_top: "bit (crc_bit c) 31 \<longleftrightarrow> bit c 0"
proof -
  have "bit crc_poly 31" by (simp add: crc_poly_def)
  moreover have "\<not> bit (drop_bit 1 c) 31" by (simp add: bit_drop_bit_eq)
  ultimately show ?thesis unfolding crc_bit_alt by (simp add: bit_xor_iff)
qed

lemma crc_bit_inj: "crc_bit a = crc_bit b \<Longrightarrow> a = b"
proof -
  assume e: "crc_bit a = crc_bit b"
  have low: "bit a 0 \<longleftrightarrow> bit b 0" using e crc_bit_top [of a] crc_bit_top [of b] by simp
  then have d: "drop_bit 1 a = drop_bit 1 b"
    using e unfolding crc_bit_alt by (auto dest: xor_cancel_right split: if_splits)
  show "a = b"
  proof (rule bit_word_eqI)
    fix n
    have "bit (drop_bit 1 a) m \<longleftrightarrow> bit (drop_bit 1 b) m" for m by (simp only: d)
    then have "bit a (Suc m) \<longleftrightarrow> bit b (Suc m)" for m by (simp add: bit_drop_bit_eq)
    then show "bit a n \<longleftrightarrow> bit b n" using low by (cases n) simp_all
  qed
qed

lemma crc_bits_inj: "(crc_bit ^^ n) a = (crc_bit ^^ n) b \<Longrightarrow> a = b"
  by (induction n) (auto dest: crc_bit_inj)

lemma crc_byte_inj: "crc_byte c b = crc_byte d b \<Longrightarrow> c = d"
  unfolding crc_byte_def by (drule crc_bits_inj) (rule xor_cancel_right)

lemma crc_bytes_inj: "foldl crc_byte c s = foldl crc_byte d s \<Longrightarrow> c = d"
  by (induction s arbitrary: c d) (auto dest: crc_byte_inj)
section \<open>Burst errors\<close>

text \<open>Up to four bytes as the number their bits enter the register with.\<close>

fun le_word :: "byte list \<Rightarrow> u32" where
  "le_word [] = 0"
| "le_word (b # s) = ucast b XOR push_bit 8 (le_word s)"

lemma le_word_bits: "bit (le_word s) n \<Longrightarrow> n < 8 * length s"
proof (induction s arbitrary: n)
  case (Cons b s)
  show ?case
  proof (cases "n < 8")
    case False
    then have "bit (le_word s) (n - 8)"
      using Cons.prems by (auto simp: bit_xor_iff bit_push_bit_iff bit_ucast_iff)
    then show ?thesis using Cons.IH [of "n - 8"] by simp
  qed simp
qed simp

lemma le_word_fits: "length s \<le> 3 \<Longrightarrow> take_bit 24 (le_word s) = le_word s"
  by (rule bit_word_eqI) (auto simp: bit_take_bit_iff dest: le_word_bits)

lemma crc_bytes_le_word:
  "length s \<le> 4 \<Longrightarrow> foldl crc_byte c s = (crc_bit ^^ (8 * length s)) (c XOR le_word s)"
proof (induction s arbitrary: c)
  case (Cons b s)
  have fit: "take_bit 24 (le_word s) = le_word s" using Cons.prems by (intro le_word_fits) simp
  have "foldl crc_byte c (b # s) = (crc_bit ^^ (8 * length s)) (crc_byte c b XOR le_word s)"
    using Cons by simp
  also have "crc_byte c b XOR le_word s = (crc_bit ^^ 8) ((c XOR ucast b) XOR push_bit 8 (le_word s))"
    using fit by (simp only: crc_bits_xor crc_byte_def) (simp add: crc_bits_push)
  also have "(c XOR ucast b) XOR push_bit 8 (le_word s) = c XOR le_word (b # s)"
    by (simp add: xor.assoc)
  also have "(crc_bit ^^ (8 * length s)) ((crc_bit ^^ 8) (c XOR le_word (b # s))) =
      (crc_bit ^^ (8 * length (b # s))) (c XOR le_word (b # s))"
    using funpow_add [of "8 * length s" 8 crc_bit] by (simp add: add.commute del: le_word.simps)
  finally show ?case .
qed simp

lemma le_word_inj: "length s = length t \<Longrightarrow> length s \<le> 4 \<Longrightarrow> le_word s = le_word t \<Longrightarrow> s = t"
proof (induction s t rule: list_induct2)
  case (Cons a s b t)
  have low: "ucast (le_word (x # u)) = x" for x u
    by (rule bit_word_eqI) (auto simp: bit_simps)
  have high: "drop_bit 8 (le_word (x # u)) = le_word u" if "length u \<le> 3" for x u
  proof (rule bit_word_eqI)
    fix n assume "n < LENGTH(32)"
    have "bit (le_word u) n \<Longrightarrow> n < 24"
      using that le_word_bits [of u n] by simp
    then show "bit (drop_bit 8 (le_word (x # u))) n \<longleftrightarrow> bit (le_word u) n"
      by (auto simp: bit_simps)
  qed
  have "a = b" "le_word s = le_word t"
    using Cons.prems Cons.hyps low [of a s] low [of b t] high [of s a] high [of t b]
    by (simp_all del: le_word.simps)
  then show ?case using Cons by simp
qed simp

lemma crc_burst_state:
  assumes "length u = length v" and "length u \<le> 4"
    and "foldl crc_byte c (u @ s) = foldl crc_byte c (v @ s)"
  shows "u = v"
proof -
  have "foldl crc_byte c u = foldl crc_byte c v"
    using assms(3) crc_bytes_inj by (simp add: foldl_append)
  then have "c XOR le_word u = c XOR le_word v"
    using assms crc_bits_inj by (simp add: crc_bytes_le_word)
  then show ?thesis using assms xor_cancel_left le_word_inj by blast
qed

lemma CRC32_alt: "CRC32 s = foldl crc_byte 0xFFFFFFFF s XOR NOT 0"
proof -
  have "crc_update = crc_byte" by (intro ext crc_update_eq)
  then show ?thesis by (simp add: CRC32_def)
qed

lemma CRC32_burst:
  assumes "length u = length v" and "length u \<le> 4" and "CRC32 (p @ u @ s) = CRC32 (p @ v @ s)"
  shows "u = v"
proof -
  have "foldl crc_byte 0xFFFFFFFF (p @ u @ s) = foldl crc_byte 0xFFFFFFFF (p @ v @ s)"
    using assms(3) unfolding CRC32_alt by (rule xor_cancel_right)
  then show ?thesis
    using crc_burst_state [OF assms(1,2), of "foldl crc_byte 0xFFFFFFFF p" s] by simp
qed

section \<open>Properties\<close>

text \<open>C10. The table-driven \<open>CRC32\<close> equals the bit-serial CRC-32 with the
  reflected polynomial \<open>0xEDB88320\<close>, initial and final value \<open>0xFFFFFFFF\<close>, on
  every input: all 256 constants of the table are right.\<close>

theorem CRC32_is_reference: "CRC32 s = crc_reference s"
proof -
  have "(NOT 0 :: u32) = 0xFFFFFFFF" by simp
  then show ?thesis by (simp only: CRC32_alt crc_reference_def)
qed

text \<open>The checksum detects every corruption confined to four consecutive
  bytes: two inputs that agree outside a window of at most four bytes have the
  same \<open>CRC32\<close> only if they are equal.\<close>

theorem CRC32_detects_bursts:
  assumes "length u = length v" and "length u \<le> 4" and "u \<noteq> v"
  shows "CRC32 (p @ u @ s) \<noteq> CRC32 (p @ v @ s)"
  using CRC32_burst [OF assms(1,2)] assms(3) by blast

theorem CRC32_detects_bursts_witness:
  "CRC32 ([1, 2] @ [3, 4] @ [5]) \<noteq> CRC32 ([1, 2] @ [3, 5] @ [5])"
  by (rule CRC32_detects_bursts) simp_all

end
