(* ===== verification/Inet_Address.thy ===== *)
theory Inet_Address
  imports Net_Types
begin

text \<open>
  \<open>kernel/net/inet_address.{h,cc}\<close>: the union of \<open>sockaddr_in\<close> and
  \<open>sockaddr_in6\<close> as the 28 bytes it occupies. \<open>inet_pton\<close> and \<open>inet_ntop\<close> belong
  to the C library and are parameters: \<open>pton\<close> yields the address bytes it
  stores, \<open>None\<close> when it rejects the text.
\<close>

record InetAddress =
  raw :: "byte list"

definition AF_INET :: u16 where "AF_INET = 2"
definition AF_INET6 :: u16 where "AF_INET6 = 10"

definition sizeof_sockaddr_in :: u32 where "sizeof_sockaddr_in = 16"
definition sizeof_sockaddr_in6 :: u32 where "sizeof_sockaddr_in6 = 28"

definition addr_wf :: "InetAddress \<Rightarrow> bool" where
  "addr_wf a \<longleftrightarrow> length (raw a) = 28"

definition InetAddress_zero :: InetAddress where
  "InetAddress_zero = \<lparr>raw = replicate 28 0\<rparr>"

text \<open>
  The four members of the two structures that the code uses: family and port
  lie at the same offsets in both. The bytes of the union behind a
  \<open>sockaddr_in\<close> are those it held before, \<open>rest\<close>.
\<close>

definition mk_sockaddr_in :: "u16 \<Rightarrow> byte list \<Rightarrow> byte list \<Rightarrow> InetAddress" where
  "mk_sockaddr_in port addr rest =
     \<lparr>raw = mem16 AF_INET @ mem16 (HostToNetwork16 port) @ addr @ replicate 8 0 @ rest\<rparr>"

definition mk_sockaddr_in6 :: "u16 \<Rightarrow> byte list \<Rightarrow> InetAddress" where
  "mk_sockaddr_in6 port addr =
     \<lparr>raw = mem16 AF_INET6 @ mem16 (HostToNetwork16 port) @ replicate 4 0 @ addr @ replicate 4 0\<rparr>"

definition InetAddress_ip ::
  "(u16 \<Rightarrow> byte list \<Rightarrow> byte list option) \<Rightarrow> byte list \<Rightarrow> byte list \<Rightarrow> u16 \<Rightarrow> bool \<Rightarrow> InetAddress" where
  "InetAddress_ip pton rest ip port ipv6 =
     (if ipv6 \<or> 0x3A \<in> set ip
      then mk_sockaddr_in6 port (case pton AF_INET6 ip of None \<Rightarrow> replicate 16 0 | Some b \<Rightarrow> b)
      else mk_sockaddr_in port (case pton AF_INET ip of None \<Rightarrow> replicate 4 0 | Some b \<Rightarrow> b) rest)"

definition in6addr_any :: "byte list" where "in6addr_any = replicate 16 0"
definition in6addr_loopback :: "byte list" where "in6addr_loopback = replicate 15 0 @ [1]"
definition INADDR_ANY :: u32 where "INADDR_ANY = 0"
definition INADDR_LOOPBACK :: u32 where "INADDR_LOOPBACK = 0x7F000001"

definition InetAddress_port :: "byte list \<Rightarrow> u16 \<Rightarrow> bool \<Rightarrow> bool \<Rightarrow> InetAddress" where
  "InetAddress_port rest port loopback ipv6 =
     (if ipv6 then mk_sockaddr_in6 port (if loopback then in6addr_loopback else in6addr_any)
      else mk_sockaddr_in port
        (mem32 (HostToNetwork32 (if loopback then INADDR_LOOPBACK else INADDR_ANY))) rest)"

definition addr_family :: "InetAddress \<Rightarrow> u16" where
  "addr_family a = ucast (raw a ! 0) OR push_bit 8 (ucast (raw a ! 1))"

definition sin_port :: "InetAddress \<Rightarrow> byte list" where
  "sin_port a = sub (raw a) 2 2"

definition sin_addr :: "InetAddress \<Rightarrow> byte list" where
  "sin_addr a = sub (raw a) 4 4"

definition sin6_addr :: "InetAddress \<Rightarrow> byte list" where
  "sin6_addr a = sub (raw a) 8 16"

definition addr_port :: "InetAddress \<Rightarrow> u16" where
  "addr_port a = NetworkToHost16 (ucast (raw a ! 2) OR push_bit 8 (ucast (raw a ! 3)))"

definition socklen :: "InetAddress \<Rightarrow> u32" where
  "socklen a =
     (if addr_family a = AF_INET then sizeof_sockaddr_in
      else if addr_family a = AF_INET6 then sizeof_sockaddr_in6 else -1)"

definition addr_ip :: "(u16 \<Rightarrow> byte list \<Rightarrow> byte list) \<Rightarrow> InetAddress \<Rightarrow> byte list" where
  "addr_ip ntop a =
     (if addr_family a = AF_INET then ntop AF_INET (sin_addr a)
      else if addr_family a = AF_INET6 then ntop AF_INET6 (sin6_addr a) else [])"

text \<open>Decimal digits, as \<open>%u\<close> prints them.\<close>

definition addr_ip_port :: "(u16 \<Rightarrow> byte list \<Rightarrow> byte list) \<Rightarrow> InetAddress \<Rightarrow> byte list" where
  "addr_ip_port ntop a =
     take 63 (if addr_family a = AF_INET6 then
                str ''['' @ addr_ip ntop a @ str '']:'' @ decimal (unat (addr_port a))
              else if addr_family a = AF_INET then
                addr_ip ntop a @ str '':'' @ decimal (unat (addr_port a))
              else [])"

section \<open>Constructed addresses\<close>

lemma length_mem [simp]: "length (mem16 v) = 2" "length (mem32 w) = 4" "length (mem64 x) = 8"
  by (simp_all add: mem16_def mem32_def mem64_def)

lemma mem16_join [byte_simps]:
  "ucast (ucast v :: byte) OR push_bit 8 (ucast (ucast (drop_bit 8 v) :: byte)) = (v :: u16)"
  by (rule join_be16)

lemma swap16_involutive: "NetworkToHost16 (HostToNetwork16 v) = v"
  unfolding NetworkToHost16_def HostToNetwork16_def
proof (rule bit_word_eqI)
  fix n assume "n < LENGTH(16)"
  then show "bit (push_bit 8 (push_bit 8 v OR drop_bit 8 v) OR drop_bit 8 (push_bit 8 v OR drop_bit 8 v)) n = bit v n"
    by (cases "n < 8") (auto simp: bit_simps)
qed

lemma swap16_bytes:
  "NetworkToHost16 (ucast (ucast (drop_bit 8 v) :: byte) OR push_bit 8 (ucast (ucast v :: byte))) = v"
  using swap16_involutive [of v] join_be16 [of "HostToNetwork16 v"]
    mem16_HostToNetwork16 [of v, unfolded mem16_def be16_def] by simp

lemma sockaddr_in_members [simp]:
  assumes "length addr = 4" and "length rest = 12"
  shows "addr_wf (mk_sockaddr_in port addr rest)"
    and "addr_family (mk_sockaddr_in port addr rest) = AF_INET"
    and "sin_port (mk_sockaddr_in port addr rest) = be16 port"
    and "sin_addr (mk_sockaddr_in port addr rest) = addr"
    and "addr_port (mk_sockaddr_in port addr rest) = port"
  using assms swap16_bytes [of port] mem16_HostToNetwork16 [of port, unfolded mem16_def be16_def]
  by (simp_all add: addr_wf_def mk_sockaddr_in_def addr_family_def sin_port_def sin_addr_def addr_port_def
      mem16_def join_be16 sub_def be16_def)

lemma sockaddr_in6_members [simp]:
  assumes "length addr = 16"
  shows "addr_wf (mk_sockaddr_in6 port addr)"
    and "addr_family (mk_sockaddr_in6 port addr) = AF_INET6"
    and "sin_port (mk_sockaddr_in6 port addr) = be16 port"
    and "sin6_addr (mk_sockaddr_in6 port addr) = addr"
    and "addr_port (mk_sockaddr_in6 port addr) = port"
  using assms swap16_bytes [of port] mem16_HostToNetwork16 [of port, unfolded mem16_def be16_def]
  by (simp_all add: addr_wf_def mk_sockaddr_in6_def addr_family_def sin_port_def sin6_addr_def addr_port_def
      mem16_def join_be16 sub_def be16_def)

end
