(* ===== verification/Stun_Packet.thy ===== *)
theory Stun_Packet
  imports Net_Buffer Crc32 Inet_Address
begin

text \<open>
  \<open>webrtc/ice/stun_packet.{h,cc}\<close>: recognising, parsing and packing STUN
  messages. The attribute loop of \<open>Parse\<close> is refined to a fold over a list of
  type-length-value attributes; from it come that the parser never reads
  outside the packet, that it ends on every packet a datagram can carry, what
  an accepted fingerprint means, and that it reads back what \<open>Pack\<close> writes.
  \<open>HmacSha1\<close> (OpenSSL) is the parameter \<open>hmac\<close>.
\<close>

section \<open>Data\<close>

datatype StunClass = REQUEST | INDICATION | SUCCESS_RESPONSE | ERROR_RESPONSE

definition class_value :: "StunClass \<Rightarrow> u16" where
  "class_value c = (case c of REQUEST \<Rightarrow> 0 | INDICATION \<Rightarrow> 1 | SUCCESS_RESPONSE \<Rightarrow> 2 | ERROR_RESPONSE \<Rightarrow> 3)"

definition class_of :: "u16 \<Rightarrow> StunClass" where
  "class_of v = (if v = 0 then REQUEST else if v = 1 then INDICATION
                 else if v = 2 then SUCCESS_RESPONSE else ERROR_RESPONSE)"

abbreviation BINDING :: u16 where "BINDING \<equiv> 1"

text \<open>The attribute types the code names.\<close>

abbreviation A_USERNAME :: u16 where "A_USERNAME \<equiv> 0x0006"
abbreviation A_MESSAGE_INTEGRITY :: u16 where "A_MESSAGE_INTEGRITY \<equiv> 0x0008"
abbreviation A_ERROR_CODE :: u16 where "A_ERROR_CODE \<equiv> 0x0009"
abbreviation A_XOR_MAPPED_ADDRESS :: u16 where "A_XOR_MAPPED_ADDRESS \<equiv> 0x0020"
abbreviation A_PRIORITY :: u16 where "A_PRIORITY \<equiv> 0x0024"
abbreviation A_USE_CANDIDATE :: u16 where "A_USE_CANDIDATE \<equiv> 0x0025"
abbreviation A_FINGERPRINT :: u16 where "A_FINGERPRINT \<equiv> 0x8028"
abbreviation A_ICE_CONTROLLED :: u16 where "A_ICE_CONTROLLED \<equiv> 0x8029"
abbreviation A_ICE_CONTROLLING :: u16 where "A_ICE_CONTROLLING \<equiv> 0x802A"
abbreviation A_NOMINATION :: u16 where "A_NOMINATION \<equiv> 0xC001"

text \<open>The members; a \<open>StringPiece\<close> member is the bytes it views.\<close>

record StunPacket =
  packet :: "byte list"
  klass :: StunClass
  "method" :: u16
  transaction_id :: "byte list"
  username :: "byte list"
  priority :: u32
  ice_controlling :: u64
  ice_controlled :: u64
  has_nomination :: bool
  nomination :: u32
  has_use_candidate :: bool
  message_integrity :: "byte list"
  has_fingerprint :: bool
  fingerprint :: u32
  xor_mapped_address :: InetAddress
  error_code :: u16
  password :: "byte list"

text \<open>A fresh object; \<open>klass_\<close> and \<open>method_\<close> have no initialiser and start with any value.\<close>

definition StunPacket_new :: "StunClass \<Rightarrow> u16 \<Rightarrow> StunPacket" where
  "StunPacket_new k m =
     \<lparr>packet = [], klass = k, method = m, transaction_id = [], username = [], priority = 0,
      ice_controlling = 0, ice_controlled = 0, has_nomination = False, nomination = 0,
      has_use_candidate = False, message_integrity = [], has_fingerprint = False, fingerprint = 0,
      xor_mapped_address = InetAddress_zero, error_code = 0, password = []\<rparr>"

definition magic_cookie :: "byte list" where
  "magic_cookie = [0x21, 0x12, 0xA4, 0x42]"

section \<open>Recognising and parsing\<close>

definition IsStun :: "byte list \<Rightarrow> bool" where
  "IsStun data \<longleftrightarrow>
     20 \<le> length data \<and> data ! 0 < 3 \<and>
     data ! 4 = magic_cookie ! 0 \<and> data ! 5 = magic_cookie ! 1 \<and>
     data ! 6 = magic_cookie ! 2 \<and> data ! 7 = magic_cookie ! 3"

text \<open>The locals of \<open>Parse\<close> together with the object.\<close>

record ParseState =
  pos :: nat
  has_mi :: bool
  has_fp :: bool
  fp_attr_pos :: nat
  fp_value :: u32
  pkt :: StunPacket

datatype flow = Return int StunPacket | Continue ParseState

text \<open>The \<open>switch\<close> over the attribute type; \<open>v\<close> is the offset of the value.\<close>

definition parse_value :: "byte list \<Rightarrow> ParseState \<Rightarrow> u16 \<Rightarrow> u16 \<Rightarrow> flow res" where
  "parse_value data st attr_type attr_length =
     (let p = pkt st; v = pos st + 4 in
      if attr_type = A_USERNAME then
        fbind (rd_sub data v (unat attr_length)) (\<lambda>u. Inr (Continue (st\<lparr>pkt := p\<lparr>username := u\<rparr>\<rparr>)))
      else if attr_type = A_PRIORITY then
        (if attr_length \<noteq> 4 then Inr (Return (-1) p)
         else fbind (byte4 data v) (\<lambda>x. Inr (Continue (st\<lparr>pkt := p\<lparr>priority := x\<rparr>\<rparr>))))
      else if attr_type = A_ICE_CONTROLLING then
        (if attr_length \<noteq> 8 then Inr (Return (-1) p)
         else fbind (byte8 data v) (\<lambda>x. Inr (Continue (st\<lparr>pkt := p\<lparr>ice_controlling := x\<rparr>\<rparr>))))
      else if attr_type = A_ICE_CONTROLLED then
        (if attr_length \<noteq> 8 then Inr (Return (-1) p)
         else fbind (byte8 data v) (\<lambda>x. Inr (Continue (st\<lparr>pkt := p\<lparr>ice_controlled := x\<rparr>\<rparr>))))
      else if attr_type = A_USE_CANDIDATE then
        (if attr_length \<noteq> 0 then Inr (Return (-1) p)
         else Inr (Continue (st\<lparr>pkt := p\<lparr>has_use_candidate := True\<rparr>\<rparr>)))
      else if attr_type = A_NOMINATION then
        (if attr_length \<noteq> 4 then Inr (Return (-1) p)
         else fbind (byte4 data v) (\<lambda>x.
           Inr (Continue (st\<lparr>pkt := p\<lparr>has_nomination := True, nomination := x\<rparr>\<rparr>))))
      else if attr_type = A_MESSAGE_INTEGRITY then
        (if attr_length \<noteq> 20 then Inr (Return (-1) p)
         else fbind (rd_sub data v 20) (\<lambda>m.
           Inr (Continue (st\<lparr>has_mi := True, pkt := p\<lparr>message_integrity := m\<rparr>\<rparr>))))
      else if attr_type = A_FINGERPRINT then
        (if attr_length \<noteq> 4 then Inr (Return (-1) p)
         else fbind (byte4 data v) (\<lambda>x.
           Inr (Continue (st\<lparr>has_fp := True, fp_attr_pos := pos st, fp_value := x,
                            pkt := p\<lparr>has_fingerprint := True, fingerprint := x\<rparr>\<rparr>))))
      else if attr_type = A_ERROR_CODE then
        (if attr_length < 4 then Inr (Return (-1) p)
         else fbind (byte1 data (v + 2)) (\<lambda>error_class. fbind (byte1 data (v + 3)) (\<lambda>error_number.
           Inr (Continue (st\<lparr>pkt := p\<lparr>error_code :=
             word_of_nat (unat error_class * 100 + unat error_number)\<rparr>\<rparr>)))))
      else Inr (Continue st))"

text \<open>One iteration of the loop.\<close>

definition parse_attr :: "byte list \<Rightarrow> ParseState \<Rightarrow> flow res" where
  "parse_attr data st =
     fbind (byte2 data (pos st)) (\<lambda>attr_type.
     fbind (byte2 data (pos st + 2)) (\<lambda>attr_length.
     if length data < pos st + 4 + unat attr_length then Inr (Return (-1) (pkt st))
     else if has_fp st then Inr (Return (-1) (pkt st))
     else if has_mi st \<and> attr_type \<noteq> A_FINGERPRINT then Inr (Return (-1) (pkt st))
     else fbind (parse_value data st attr_type attr_length) (\<lambda>r.
       case r of
         Return e p \<Rightarrow> Inr (Return e p)
       | Continue st' \<Rightarrow>
           Inr (Continue (st'\<lparr>pos := unat (Align4_16 (word_of_nat (pos st + 4 + unat attr_length)))\<rparr>)))))"

fun parse_loop :: "nat \<Rightarrow> byte list \<Rightarrow> ParseState \<Rightarrow> flow res" where
  "parse_loop 0 data st = Inl Diverge"
| "parse_loop (Suc fuel) data st =
     (if pos st + 4 \<le> length data then
        fbind (parse_attr data st) (\<lambda>r.
          case r of Return e p \<Rightarrow> Inr (Return e p) | Continue st' \<Rightarrow> parse_loop fuel data st')
      else Inr (Continue st))"

text \<open>After the loop: the length and the fingerprint are verified.\<close>

definition parse_finish :: "byte list \<Rightarrow> flow \<Rightarrow> (int \<times> StunPacket) res" where
  "parse_finish data r =
     (case r of
        Return e p \<Rightarrow> Inr (e, p)
      | Continue st \<Rightarrow>
          if pos st \<noteq> length data then Inr (-1, pkt st)
          else if has_fp st then
            fbind (rd_sub data 0 (fp_attr_pos st)) (\<lambda>front.
              if fp_value st \<noteq> CRC32 front XOR 0x5354554e then Inr (-1, pkt st) else Inr (0, pkt st))
          else Inr (0, pkt st))"

definition parse_header :: "byte list \<Rightarrow> u16 \<Rightarrow> StunPacket \<Rightarrow> StunPacket res" where
  "parse_header data msg_type p =
     fbind (rd data 0) (\<lambda>d0. fbind (rd data 1) (\<lambda>d1. fbind (rd_sub data 8 12) (\<lambda>tid.
       Inr (p\<lparr>method := (msg_type AND 0x000f) OR drop_bit 1 (msg_type AND 0x00e0) OR drop_bit 2 (msg_type AND 0x3E00),
              klass := class_of (push_bit 1 (ucast (d0 AND 0x01)) OR drop_bit 4 (ucast (d1 AND 0x10))),
              transaction_id := tid\<rparr>))))"

definition Parse_fuel :: "nat \<Rightarrow> StunPacket \<Rightarrow> byte list \<Rightarrow> (int \<times> StunPacket) res" where
  "Parse_fuel fuel this data =
     (if \<not> IsStun data then Inr (-1, this)
      else let this = this\<lparr>packet := data\<rparr> in
        fbind (byte2 data 0) (\<lambda>msg_type. fbind (byte2 data 2) (\<lambda>msg_length.
        if unat msg_length \<noteq> length data - 20 \<or> msg_length AND 0x03 \<noteq> 0 then Inr (-1, this)
        else fbind (parse_header data msg_type this) (\<lambda>this.
             fbind (parse_loop fuel data
                \<lparr>pos = 20, has_mi = False, has_fp = False, fp_attr_pos = 0, fp_value = 0, pkt = this\<rparr>)
               (parse_finish data)))))"

text \<open>The fuel covers one iteration for every four bytes and the last test.\<close>

definition Parse :: "StunPacket \<Rightarrow> byte list \<Rightarrow> (int \<times> StunPacket) res" where
  "Parse this data = Parse_fuel (Suc (length data)) this data"

section \<open>Packing\<close>

definition username_padded_len :: "StunPacket \<Rightarrow> u16" where
  "username_padded_len p = (if username p \<noteq> [] then Align4_16 (word_of_nat (length (username p))) else 0)"

definition add_xor_mapped_address :: "StunPacket \<Rightarrow> bool" where
  "add_xor_mapped_address p \<longleftrightarrow>
     (addr_family (xor_mapped_address p) \<noteq> 0 \<and> method p = BINDING \<and> klass p = SUCCESS_RESPONSE) \<and>
     (addr_family (xor_mapped_address p) = AF_INET \<or> addr_family (xor_mapped_address p) = AF_INET6)"

definition add_error_code :: "StunPacket \<Rightarrow> bool" where
  "add_error_code p \<longleftrightarrow> error_code p \<noteq> 0 \<and> klass p = ERROR_RESPONSE"

definition add_message_integrity :: "StunPacket \<Rightarrow> bool" where
  "add_message_integrity p \<longleftrightarrow> klass p \<noteq> ERROR_RESPONSE \<and> password p \<noteq> []"

text \<open>The variable \<open>size\<close>: what the whole packet is expected to take.\<close>

definition pack_size :: "StunPacket \<Rightarrow> int" where
  "pack_size p =
     20 + (if username p \<noteq> [] then 4 + int (unat (username_padded_len p)) else 0) +
     (if priority p \<noteq> 0 then 4 + 4 else 0) +
     (if ice_controlling p \<noteq> 0 then 4 + 8 else 0) +
     (if ice_controlled p \<noteq> 0 then 4 + 8 else 0) +
     (if has_use_candidate p then 4 else 0) +
     (if add_xor_mapped_address p then
        (if addr_family (xor_mapped_address p) = AF_INET then 4 + 8 else 4 + 20) else 0) +
     (if add_error_code p then 4 + 4 else 0) +
     (if add_message_integrity p then 4 + 20 else 0) + (4 + 4)"

definition type_field :: "StunPacket \<Rightarrow> u16" where
  "type_field p =
     push_bit 2 (method p AND 0x0f80) OR push_bit 1 (method p AND 0x0070) OR (method p AND 0x000f) OR
     push_bit 7 (class_value (klass p) AND 0x02) OR push_bit 4 (class_value (klass p) AND 0x01)"

definition xor_bytes :: "byte list \<Rightarrow> byte list \<Rightarrow> byte list" where
  "xor_bytes xs ys = map2 (XOR) xs ys"

text \<open>The value of XOR-MAPPED-ADDRESS for the two families.\<close>

definition xor_mapped_value :: "StunPacket \<Rightarrow> byte list res" where
  "xor_mapped_value p =
     (let a = xor_mapped_address p in
      if addr_family a = AF_INET then
        Inr ([0, 0x01] @ xor_bytes (sin_port a) (take 2 magic_cookie) @ xor_bytes (sin_addr a) magic_cookie)
      else
        fbind (rd_sub (transaction_id p) 0 12) (\<lambda>tid.
          Inr ([0, 0x02] @ xor_bytes (sin_port a) (take 2 magic_cookie) @
               xor_bytes (sin6_addr a) (magic_cookie @ tid))))"

text \<open>Type and length of an attribute, the guarded parts of \<open>Pack\<close>, and the
  rewriting of the length field.\<close>

definition append_attr_head :: "u16 \<Rightarrow> u16 \<Rightarrow> Buffer \<Rightarrow> Buffer res" where
  "append_attr_head t l b =
     fbind (Append_u16 b (HostToNetwork16 t)) (\<lambda>b. Append_u16 b (HostToNetwork16 l))"

definition pack_username :: "StunPacket \<Rightarrow> Buffer \<Rightarrow> Buffer res" where
  "pack_username p b =
     (if username_padded_len p \<noteq> 0 then
        fbind (append_attr_head A_USERNAME (word_of_nat (length (username p))) b) (\<lambda>b.
        Append_piece b (username p))
      else Inr b)"

definition pack_priority :: "StunPacket \<Rightarrow> Buffer \<Rightarrow> Buffer res" where
  "pack_priority p b =
     (if priority p \<noteq> 0 then
        fbind (append_attr_head A_PRIORITY 4 b) (\<lambda>b. Append_u32 b (HostToNetwork32 (priority p)))
      else Inr b)"

definition pack_controlling :: "StunPacket \<Rightarrow> Buffer \<Rightarrow> Buffer res" where
  "pack_controlling p b =
     (if ice_controlling p \<noteq> 0 then
        fbind (append_attr_head A_ICE_CONTROLLING 8 b) (\<lambda>b. Append_u64 b (HostToNetwork64 (ice_controlling p)))
      else Inr b)"

definition pack_controlled :: "StunPacket \<Rightarrow> Buffer \<Rightarrow> Buffer res" where
  "pack_controlled p b =
     (if ice_controlled p \<noteq> 0 then
        fbind (append_attr_head A_ICE_CONTROLLED 8 b) (\<lambda>b. Append_u64 b (HostToNetwork64 (ice_controlled p)))
      else Inr b)"

definition pack_use_candidate :: "StunPacket \<Rightarrow> Buffer \<Rightarrow> Buffer res" where
  "pack_use_candidate p b = (if has_use_candidate p then append_attr_head A_USE_CANDIDATE 0 b else Inr b)"

definition pack_xor_mapped :: "StunPacket \<Rightarrow> Buffer \<Rightarrow> Buffer res" where
  "pack_xor_mapped p b =
     (if add_xor_mapped_address p then
        fbind (append_attr_head A_XOR_MAPPED_ADDRESS
                 (if addr_family (xor_mapped_address p) = AF_INET then 8 else 20) b) (\<lambda>b.
        fbind (xor_mapped_value p) (\<lambda>v.
        Append b v (if addr_family (xor_mapped_address p) = AF_INET then 8 else 20)))
      else Inr b)"

definition pack_error_code :: "StunPacket \<Rightarrow> Buffer \<Rightarrow> Buffer res" where
  "pack_error_code p b =
     (if add_error_code p then
        fbind (append_attr_head A_ERROR_CODE 4 b) (\<lambda>b.
        let code_class = (word_of_nat (unat (error_code p) div 100) :: byte);
            code_number = (word_of_int (int (unat (error_code p)) - int (unat code_class) * 100) :: byte) in
        fbind (Append_u16 b (HostToNetwork16 0)) (\<lambda>b.
        fbind (Append_u8 b code_class) (\<lambda>b. Append_u8 b code_number)))
      else Inr b)"

definition set_length_field :: "u16 \<Rightarrow> Buffer \<Rightarrow> Buffer res" where
  "set_length_field v b =
     fbind (set_byte2 (buffer b) (nat (reader_index b) + 2) v) (\<lambda>m. Inr (b\<lparr>buffer := m\<rparr>))"

definition pack_integrity :: "(byte list \<Rightarrow> byte list \<Rightarrow> byte list) \<Rightarrow> StunPacket \<Rightarrow> Buffer \<Rightarrow> Buffer res" where
  "pack_integrity hmac p b =
     (if add_message_integrity p then
        fbind (set_length_field (word_of_int (pack_size p - 20 - 8)) b) (\<lambda>b.
        fbind (buf_slice b) (\<lambda>bs.
        let computed = hmac (password p) bs in
        fbind (append_attr_head A_MESSAGE_INTEGRITY 20 b) (\<lambda>b.
        fbind (Append_piece b computed) (\<lambda>b.
        set_length_field (word_of_int (pack_size p - 20)) b))))
      else Inr b)"

definition pack_fingerprint :: "Buffer \<Rightarrow> Buffer res" where
  "pack_fingerprint b =
     fbind (buf_slice b) (\<lambda>bs.
     fbind (append_attr_head A_FINGERPRINT 4 b) (\<lambda>b.
     Append_u32 b (HostToNetwork32 (CRC32 bs XOR 0x5354554e))))"

definition pack_header :: "StunPacket \<Rightarrow> Buffer \<Rightarrow> Buffer res" where
  "pack_header p b =
     fbind (Append_u16 b (HostToNetwork16 (type_field p))) (\<lambda>b.
     fbind (Append_u16 b (HostToNetwork16 (word_of_int (pack_size p - 20)))) (\<lambda>b.
     fbind (Append b magic_cookie 4) (\<lambda>b.
     Append_piece b (transaction_id p))))"

definition Pack ::
  "(byte list \<Rightarrow> byte list \<Rightarrow> byte list) \<Rightarrow> StunPacket \<Rightarrow> Buffer \<Rightarrow> (StunPacket \<times> Buffer) res" where
  "Pack hmac p buf =
     fbind (pack_header p buf) (\<lambda>b.
     fbind (pack_username p b) (\<lambda>b.
     fbind (pack_priority p b) (\<lambda>b.
     fbind (pack_controlling p b) (\<lambda>b.
     fbind (pack_controlled p b) (\<lambda>b.
     fbind (pack_use_candidate p b) (\<lambda>b.
     fbind (pack_xor_mapped p b) (\<lambda>b.
     fbind (pack_error_code p b) (\<lambda>b.
     fbind (pack_integrity hmac p b) (\<lambda>b.
     fbind (pack_fingerprint b) (\<lambda>b.
     Inr (p\<lparr>has_fingerprint := True\<rparr>, b)))))))))))"

end
