(* ===== verification/Stun_Correct.thy ===== *)
theory Stun_Correct
  imports Stun_Packet
begin

text \<open>
  Correctness of the STUN codec: the attribute list as the abstract view of a
  packet, the refinement of the parser to it, and the round trip with \<open>Pack\<close>.
\<close>

section \<open>The attribute list\<close>

text \<open>An attribute: its type, its value and the padding to a multiple of four.\<close>

type_synonym attr = "u16 \<times> byte list \<times> byte list"

fun enc_attr :: "attr \<Rightarrow> byte list" where
  "enc_attr (t, v, q) = be16 t @ be16 (word_of_nat (length v)) @ v @ q"

fun attr_wf :: "attr \<Rightarrow> bool" where
  "attr_wf (t, v, q) \<longleftrightarrow> length v < 65536 \<and> length q = (4 - length v mod 4) mod 4"

definition enc_attrs :: "attr list \<Rightarrow> byte list" where
  "enc_attrs as = concat (map enc_attr as)"

definition val_of :: "'v res \<Rightarrow> 'v \<Rightarrow> 'v" where
  "val_of m d = (case m of Inr x \<Rightarrow> x | Inl _ \<Rightarrow> d)"

text \<open>What an attribute means for the object under construction, \<open>None\<close> when
  its length is not the one its type has.\<close>

definition attr_meaning :: "u16 \<Rightarrow> byte list \<Rightarrow> StunPacket \<Rightarrow> StunPacket option" where
  "attr_meaning t v p =
     (if t = A_USERNAME then Some (p\<lparr>username := v\<rparr>)
      else if t = A_PRIORITY then
        (if length v = 4 then Some (p\<lparr>priority := val_of (byte4 v 0) 0\<rparr>) else None)
      else if t = A_ICE_CONTROLLING then
        (if length v = 8 then Some (p\<lparr>ice_controlling := val_of (byte8 v 0) 0\<rparr>) else None)
      else if t = A_ICE_CONTROLLED then
        (if length v = 8 then Some (p\<lparr>ice_controlled := val_of (byte8 v 0) 0\<rparr>) else None)
      else if t = A_USE_CANDIDATE then
        (if length v = 0 then Some (p\<lparr>has_use_candidate := True\<rparr>) else None)
      else if t = A_NOMINATION then
        (if length v = 4 then Some (p\<lparr>has_nomination := True, nomination := val_of (byte4 v 0) 0\<rparr>) else None)
      else if t = A_MESSAGE_INTEGRITY then
        (if length v = 20 then Some (p\<lparr>message_integrity := v\<rparr>) else None)
      else if t = A_FINGERPRINT then
        (if length v = 4 then Some (p\<lparr>has_fingerprint := True, fingerprint := val_of (byte4 v 0) 0\<rparr>) else None)
      else if t = A_ERROR_CODE then
        (if 4 \<le> length v then
           Some (p\<lparr>error_code := word_of_nat (unat (v ! 2) * 100 + unat (v ! 3))\<rparr>) else None)
      else Some p)"

text \<open>The order rules: nothing after FINGERPRINT, only FINGERPRINT after MESSAGE-INTEGRITY.\<close>

definition attr_allowed :: "u16 \<Rightarrow> ParseState \<Rightarrow> bool" where
  "attr_allowed t st \<longleftrightarrow> \<not> has_fp st \<and> (has_mi st \<longrightarrow> t = A_FINGERPRINT)"

fun attr_effect :: "attr \<Rightarrow> ParseState \<Rightarrow> ParseState option" where
  "attr_effect (t, v, q) st =
     (if \<not> attr_allowed t st then None
      else case attr_meaning t v (pkt st) of
        None \<Rightarrow> None
      | Some p \<Rightarrow> Some (st\<lparr>
          has_mi := has_mi st \<or> t = A_MESSAGE_INTEGRITY,
          has_fp := t = A_FINGERPRINT,
          fp_attr_pos := (if t = A_FINGERPRINT then pos st else fp_attr_pos st),
          fp_value := (if t = A_FINGERPRINT then val_of (byte4 v 0) 0 else fp_value st),
          pkt := p, pos := pos st + 4 + length v + length q\<rparr>))"

fun attrs_effect :: "attr list \<Rightarrow> ParseState \<Rightarrow> ParseState option" where
  "attrs_effect [] st = Some st"
| "attrs_effect (a # as) st = (case attr_effect a st of None \<Rightarrow> None | Some st \<Rightarrow> attrs_effect as st)"

definition rejects :: "flow res \<Rightarrow> bool" where
  "rejects r \<longleftrightarrow> (\<exists>p. r = Inr (Return (-1) p))"

lemma length_enc_attr: "length (enc_attr (t, v, q)) = 4 + length v + length q"
  by simp

lemma parse_value_meaning:
  assumes "pos st + 4 + unat l \<le> length data" and "attr_allowed t st"
  defines "v \<equiv> sub data (pos st + 4) (unat l)"
  shows "parse_value data st t l =
    (case attr_meaning t v (pkt st) of
       None \<Rightarrow> Inr (Return (-1) (pkt st))
     | Some p \<Rightarrow> Inr (Continue (st\<lparr>has_mi := has_mi st \<or> t = A_MESSAGE_INTEGRITY,
          has_fp := t = A_FINGERPRINT,
          fp_attr_pos := (if t = A_FINGERPRINT then pos st else fp_attr_pos st),
          fp_value := (if t = A_FINGERPRINT then val_of (byte4 v 0) 0 else fp_value st), pkt := p\<rparr>)))"
proof -
  have len: "length v = unat l" unfolding v_def using assms(1) by simp
  have lw: "l = 4 \<longleftrightarrow> length v = 4" "l = 8 \<longleftrightarrow> length v = 8" "l = 0 \<longleftrightarrow> length v = 0"
    "l = 20 \<longleftrightarrow> length v = 20" "l < 4 \<longleftrightarrow> \<not> 4 \<le> length v"
    by (simp_all only: len word_unat_eq_iff word_less_nat_alt) auto
  have whole: "rd_sub data (pos st + 4) (unat l) = Inr v"
    using assms(1) by (simp add: v_def)
  have b4: "byte4 data (pos st + 4) = Inr (val_of (byte4 v 0) 0)" if l4: "length v = 4"
  proof -
    have "byte4 data (pos st + 4) = byte4 v 0"
      using b4.get_sub [of "pos st + 4" "unat l" data 0] assms(1) l4 len by (simp add: v_def)
    moreover obtain x where "byte4 v 0 = Inr x" using b4.get_total [of 0 v] l4 by auto
    ultimately show ?thesis by (simp add: val_of_def)
  qed
  have b8: "byte8 data (pos st + 4) = Inr (val_of (byte8 v 0) 0)" if l8: "length v = 8"
  proof -
    have "byte8 data (pos st + 4) = byte8 v 0"
      using b8.get_sub [of "pos st + 4" "unat l" data 0] assms(1) l8 len by (simp add: v_def)
    moreover obtain x where "byte8 v 0 = Inr x" using b8.get_total [of 0 v] l8 by auto
    ultimately show ?thesis by (simp add: val_of_def)
  qed
  have b1: "byte1 data (pos st + 4 + k) = Inr (v ! k)" if "k < length v" for k
    using that len assms(1) by (simp add: byte1_def v_def nth_sub)
  then have err: "byte1 data (6 + pos st) = Inr (v ! 2)" "byte1 data (7 + pos st) = Inr (v ! 3)" if "4 \<le> length v"
    using that b1 [of 2] b1 [of 3] by (simp_all add: add.commute)
  have mi: "rd_sub data (pos st + 4) 20 = Inr v" if "length v = 20"
    using whole len that by simp
  have order: "\<not> has_fp st" "has_mi st \<Longrightarrow> t = A_FINGERPRINT" using assms(2) by (auto simp: attr_allowed_def)
  show ?thesis
    unfolding parse_value_def attr_meaning_def Let_def
    using order by (simp add: lw whole b4 b8 err mi)
qed

lemma align_attr_end:
  assumes "n mod 4 = 0" and "attr_wf (t, v, q)" and "n + 4 + length v + length q < 65536"
  shows "unat (Align4_16 (word_of_nat (n + 4 + length v))) = n + 4 + length v + length q"
proof -
  have q: "length q = (4 - length v mod 4) mod 4" using assms(2) by simp
  have "unat (word_of_nat (n + 4 + length v) :: u16) = n + 4 + length v"
    using assms(3) by (intro unat_of_nat_u16) simp
  moreover have "4 * ((n + 4 + length v + 3) div 4) = n + 4 + length v + length q"
    using assms(1) q pad4_round [of "n + 4 + length v"] by (simp add: mod_add_left_eq [symmetric] mod_add_eq)
  ultimately show ?thesis using assms(3) by (simp add: Align4_16_unat)
qed

lemma enc_attr_at:
  assumes "data = pre @ enc_attr (t, v, q) @ post" and "length v < 65536"
  shows "byte2 data (length pre) = Inr t"
    and "byte2 data (length pre + 2) = Inr (word_of_nat (length v))"
    and "sub data (length pre + 4) (length v) = v"
proof -
  show "byte2 data (length pre) = Inr t"
    using b2.get_appended [where v = t and xs = pre] assms(1) by simp
  have "data = (pre @ be16 t) @ be16 (word_of_nat (length v)) @ (v @ q @ post)" using assms(1) by simp
  then show "byte2 data (length pre + 2) = Inr (word_of_nat (length v))"
    using b2.get_appended [where v = "word_of_nat (length v)" and xs = "pre @ be16 t" and ys = "v @ q @ post"] by simp
  show "sub data (length pre + 4) (length v) = v"
    using assms(1) by (simp add: sub_def be16_def)
qed

lemma parse_attr_refines:
  assumes "data = pre @ enc_attr a @ post" and "pos st = length pre" and "attr_wf a"
    and "length pre mod 4 = 0" and "length data < 65536"
  shows "parse_attr data st =
    (case attr_effect a st of None \<Rightarrow> Inr (Return (-1) (pkt st)) | Some st' \<Rightarrow> Inr (Continue st'))"
proof -
  obtain t v q where a: "a = (t, v, q)" by (cases a)
  note at = enc_attr_at [OF assms(1) [unfolded a]]
  have l: "length v < 65536" using assms(3) a by simp
  then have u: "unat (word_of_nat (length v) :: u16) = length v" by (intro unat_of_nat_u16) simp
  have fit: "pos st + 4 + length v + length q \<le> length data" using assms(1,2) a by simp
  have nxt: "unat (Align4_16 (word_of_nat (pos st + 4 + length v))) = pos st + 4 + length v + length q"
    using assms a fit by (intro align_attr_end) auto
  show ?thesis
  proof (cases "attr_allowed t st")
    case True
    have ok: "\<not> has_fp st" "\<not> (has_mi st \<and> t \<noteq> A_FINGERPRINT)" using True by (auto simp: attr_allowed_def)
    have v: "sub data (pos st + 4) (length v) = v" using at(3) l assms(2) by simp
    note val = parse_value_meaning [of st "word_of_nat (length v)" data t, unfolded u v, OF _ True]
    show ?thesis
      using at l fit ok u True
      by (simp only: parse_attr_def a attr_effect.simps assms(2) [symmetric] fbind_simps u if_False simp_thms)
        (auto simp: nxt [unfolded of_nat_add of_nat_numeral] val split: option.split)
  next
    case False
    then show ?thesis
      using at l fit u by (auto simp: parse_attr_def a assms(2) [symmetric] attr_allowed_def)
  qed
qed

lemma attr_effect_pos: "attr_effect a st = Some st' \<Longrightarrow> pos st' = pos st + length (enc_attr a)"
  by (cases a) (auto split: if_splits option.splits)

lemma enc_attr_length_mod: "attr_wf a \<Longrightarrow> length (enc_attr a) mod 4 = 0"
  using pad4_round by (cases a) (simp add: add.assoc)

lemma enc_attr_length_ge: "4 \<le> length (enc_attr a)"
  by (cases a) simp

lemma parse_loop_refines:
  assumes "data = pre @ enc_attrs as" and "pos st = length pre" and "\<forall>a \<in> set as. attr_wf a"
    and "length pre mod 4 = 0" and "length data < 65536" and "length as < fuel"
  shows "case attrs_effect as st of
      None \<Rightarrow> rejects (parse_loop fuel data st)
    | Some st' \<Rightarrow> parse_loop fuel data st = Inr (Continue st')"
  using assms
proof (induction as arbitrary: pre st fuel)
  case Nil
  then obtain f where "fuel = Suc f" by (cases fuel) auto
  with Nil show ?case by (simp add: enc_attrs_def)
next
  case (Cons a as)
  then obtain f where f: "fuel = Suc f" by (cases fuel) auto
  have d: "data = pre @ enc_attr a @ enc_attrs as" using Cons.prems(1) by (simp add: enc_attrs_def)
  have "pos st + 4 \<le> length data" using Cons.prems(2) d enc_attr_length_ge [of a] by simp
  moreover have "parse_attr data st =
      (case attr_effect a st of None \<Rightarrow> Inr (Return (-1) (pkt st)) | Some st' \<Rightarrow> Inr (Continue st'))"
    using d Cons.prems by (intro parse_attr_refines) auto
  ultimately show ?case
  proof (cases "attr_effect a st")
    case (Some st')
    have "data = (pre @ enc_attr a) @ enc_attrs as" using d by simp
    then have "case attrs_effect as st' of
        None \<Rightarrow> rejects (parse_loop f data st') | Some st'' \<Rightarrow> parse_loop f data st' = Inr (Continue st'')"
      using Cons.prems f attr_effect_pos [OF Some] enc_attr_length_mod [of a]
      by (intro Cons.IH [of "pre @ enc_attr a"]) (auto simp: mod_add_eq [symmetric])
    with Some \<open>parse_attr data st = _\<close> \<open>pos st + 4 \<le> length data\<close> show ?thesis
      by (cases "attrs_effect as st'") (simp_all add: f rejects_def)
  qed (simp add: f rejects_def)
qed

section \<open>Every packet is an attribute list or rejected\<close>

lemma attr_shape:
  assumes "byte2 data n = Inr t" and "byte2 data (n + 2) = Inr l" and "n + 4 + unat l \<le> length data"
    and "n mod 4 = 0" and "length data mod 4 = 0"
  obtains a post where "attr_wf a" and "data = take n data @ enc_attr a @ post"
proof -
  define v where "v = sub data (n + 4) (unat l)"
  define k where "k = (4 - unat l mod 4) mod 4"
  define q where "q = sub data (n + 4 + unat l) k"
  have l16: "unat l < 65536" by simp
  obtain c d where cd: "n = 4 * c" "length data = 4 * d" using assms(4,5) by (meson mod_0_imp_dvd dvdE)
  have "unat l + k = 4 * ((unat l + 3) div 4)" unfolding k_def by (rule pad4_round)
  moreover have "4 * c + 4 + x \<le> 4 * d \<Longrightarrow> 4 * c + 4 + 4 * ((x + 3) div 4) \<le> 4 * d" for x :: nat
    by presburger
  ultimately have fit: "n + 4 + unat l + k \<le> length data" using assms(3) cd by (simp add: add.assoc)
  have lv: "length v = unat l" unfolding v_def using assms(3) by simp
  have lq: "length q = k" unfolding q_def using fit by simp
  have "sub data n 2 = be16 t" "sub data (n + 2) 2 = be16 l"
    using b2.get_total [of n data] b2.get_total [of "n + 2" data] assms(1-3) by auto
  then have "enc_attr (t, v, q) = sub data n (2 + 2 + unat l + k)"
    by (simp only: enc_attr.simps lv sub_add) (simp add: v_def q_def add.commute add.left_commute)
  then have "data = take n data @ enc_attr (t, v, q) @ drop (n + (2 + 2 + unat l + k)) data"
    by (simp only: take_sub_drop)
  moreover have "attr_wf (t, v, q)" using lv lq l16 by (simp add: k_def)
  ultimately show thesis by (rule that [rotated])
qed

lemma parse_loop_total:
  assumes "pos st \<le> length data" and "pos st mod 4 = 0" and "length data mod 4 = 0"
    and "length data < 65536" and "length data - pos st < 4 * fuel"
  shows "(\<exists>as. data = take (pos st) data @ enc_attrs as \<and> (\<forall>a \<in> set as. attr_wf a) \<and> length as < fuel) \<or>
    rejects (parse_loop fuel data st)"
  using assms
proof (induction fuel arbitrary: st)
  case (Suc fuel)
  show ?case
  proof (cases "pos st + 4 \<le> length data")
    case False
    then have "pos st = length data" using Suc.prems by presburger
    then have "data = take (pos st) data @ enc_attrs []" by (simp add: enc_attrs_def)
    then show ?thesis by (intro disjI1 exI [of _ "[]"]) simp
  next
    case True
    obtain t l where tl: "byte2 data (pos st) = Inr t" "byte2 data (pos st + 2) = Inr l"
      using b2.get_total [of "pos st" data] b2.get_total [of "pos st + 2" data] True by auto
    show ?thesis
    proof (cases "pos st + 4 + unat l \<le> length data")
      case False
      then show ?thesis using tl True by (simp add: parse_attr_def rejects_def)
    next
      case fits: True
      obtain a post where a: "attr_wf a" "data = take (pos st) data @ enc_attr a @ post"
        using attr_shape [OF tl fits Suc.prems(2,3)] by metis
      have step: "parse_attr data st =
          (case attr_effect a st of None \<Rightarrow> Inr (Return (-1) (pkt st)) | Some st' \<Rightarrow> Inr (Continue st'))"
        using a Suc.prems by (intro parse_attr_refines [of data "take (pos st) data" a post]) auto
      show ?thesis
      proof (cases "attr_effect a st")
        case None
        then show ?thesis using step True by (simp add: rejects_def)
      next
        case (Some st')
        let ?n = "length (enc_attr a)"
        have p': "pos st' = pos st + ?n" by (rule attr_effect_pos [OF Some])
        have len: "pos st + ?n \<le> length data"
          using arg_cong [OF a(2), of length] Suc.prems(1) by simp
        have mod: "pos st' mod 4 = 0"
          using p' enc_attr_length_mod [OF a(1)] Suc.prems(2) by (simp add: mod_add_eq [symmetric])
        have tk: "take (pos st') data = take (pos st) data @ enc_attr a"
        proof -
          have e: "(take (pos st) data @ enc_attr a) @ post = data" using a(2) by simp
          have "take (pos st) data @ enc_attr a = take (length (take (pos st) data @ enc_attr a)) data"
            by (rule append_eq_conv_conj [THEN iffD1, OF e, THEN conjunct1])
          moreover have "length (take (pos st) data @ enc_attr a) = pos st'" using p' Suc.prems(1) by simp
          ultimately show ?thesis by (simp only:)
        qed
        have "(\<exists>as. data = take (pos st') data @ enc_attrs as \<and> (\<forall>a \<in> set as. attr_wf a) \<and> length as < fuel) \<or>
          rejects (parse_loop fuel data st')"
          using Suc.prems p' len mod enc_attr_length_ge [of a] by (intro Suc.IH) auto
        then show ?thesis
        proof
          assume "\<exists>as. data = take (pos st') data @ enc_attrs as \<and> (\<forall>a \<in> set as. attr_wf a) \<and> length as < fuel"
          then obtain as where "data = take (pos st) data @ enc_attr a @ enc_attrs as"
            "\<forall>a \<in> set as. attr_wf a" "length as < fuel" using tk by auto
          then show ?thesis using a(1) by (intro disjI1 exI [of _ "a # as"]) (simp add: enc_attrs_def)
        qed (use step Some True in \<open>simp add: rejects_def\<close>)
      qed
    qed
  qed
qed simp

section \<open>The packet as a whole\<close>

definition stun_header :: "u16 \<Rightarrow> u16 \<Rightarrow> byte list \<Rightarrow> byte list" where
  "stun_header ty len tid = be16 ty @ be16 len @ magic_cookie @ tid"

definition header_packet :: "StunPacket \<Rightarrow> byte list \<Rightarrow> u16 \<Rightarrow> byte list \<Rightarrow> StunPacket" where
  "header_packet this data ty tid =
     this\<lparr>packet := data,
          method := (ty AND 0x000f) OR drop_bit 1 (ty AND 0x00e0) OR drop_bit 2 (ty AND 0x3E00),
          klass := class_of (push_bit 1 (ucast ((ucast (drop_bit 8 ty) :: byte) AND 0x01)) OR
                             drop_bit 4 (ucast ((ucast ty :: byte) AND 0x10))),
          transaction_id := tid\<rparr>"

definition start_state :: "StunPacket \<Rightarrow> ParseState" where
  "start_state p = \<lparr>pos = 20, has_mi = False, has_fp = False, fp_attr_pos = 0, fp_value = 0, pkt = p\<rparr>"

lemma stun_header_length: "length tid = 12 \<Longrightarrow> length (stun_header ty len tid) = 20"
  by (simp add: stun_header_def magic_cookie_def)

lemma header_shape:
  assumes "IsStun data"
  obtains ty len tid where "length tid = 12" and "data = stun_header ty len tid @ drop 20 data"
    and "byte2 data 0 = Inr ty" and "byte2 data 2 = Inr len"
proof -
  have l: "20 \<le> length data" using assms by (simp add: IsStun_def)
  obtain ty len where tl: "byte2 data 0 = Inr ty" "be16 ty = sub data 0 2"
    "byte2 data 2 = Inr len" "be16 len = sub data 2 2"
    using b2.get_total [of 0 data] b2.get_total [of 2 data] l by auto
  have "magic_cookie = sub data 4 4"
    using assms sub_four [of 4 data] by (simp add: IsStun_def magic_cookie_def)
  moreover have "sub data 0 (2 + (2 + (4 + 12))) =
      sub data 0 2 @ sub data (0 + 2) 2 @ sub data (0 + 2 + 2) 4 @ sub data (0 + 2 + 2 + 4) 12"
    by (simp only: sub_add)
  ultimately have "stun_header ty len (sub data 8 12) = sub data 0 20"
    using tl by (simp only: stun_header_def add_0_left arith_simps)
  then have "data = stun_header ty len (sub data 8 12) @ drop 20 data"
    by (simp add: sub_def)
  then show thesis using tl l by (intro that [of "sub data 8 12"]) simp_all
qed

lemma header_reads:
  assumes "data = stun_header ty len tid @ rest" and "length tid = 12"
  shows "byte2 data 0 = Inr ty" and "byte2 data 2 = Inr len" and "rd data 0 = Inr (ucast (drop_bit 8 ty))"
    and "rd data 1 = Inr (ucast ty)" and "rd_sub data 8 12 = Inr tid"
  using assms b2.get_appended [where v = ty and xs = "[]" and ys = "be16 len @ magic_cookie @ tid @ rest"]
    b2.get_appended [where v = len and xs = "be16 ty" and ys = "magic_cookie @ tid @ rest"]
  by (simp_all add: stun_header_def rd_sub_def sub_def magic_cookie_def) (simp_all add: be16_def)

text \<open>
  \<open>Parse\<close> of a packet with a header and an attribute list, up to the size of a
  datagram: it ends, and it accepts exactly when the lengths agree, every
  attribute is allowed where it stands, and the fingerprint, if there is one,
  is that of the bytes before it.
\<close>

definition fingerprint_ok :: "byte list \<Rightarrow> ParseState \<Rightarrow> bool" where
  "fingerprint_ok data st \<longleftrightarrow> (has_fp st \<longrightarrow> fp_value st = CRC32 (take (fp_attr_pos st) data) XOR 0x5354554e)"

lemma attr_effect_fp_pos:
  "attr_effect a st = Some st' \<Longrightarrow> (has_fp st \<longrightarrow> fp_attr_pos st \<le> pos st) \<Longrightarrow> (has_fp st' \<longrightarrow> fp_attr_pos st' \<le> pos st')"
  by (cases a) (auto split: if_splits option.splits)

lemma attrs_effect_fp_pos:
  "attrs_effect as st = Some st' \<Longrightarrow> (has_fp st \<longrightarrow> fp_attr_pos st \<le> pos st) \<Longrightarrow>
    (has_fp st' \<longrightarrow> fp_attr_pos st' \<le> pos st') \<and> pos st' = pos st + length (enc_attrs as)"
proof (induction as arbitrary: st)
  case (Cons a as)
  then obtain st1 where "attr_effect a st = Some st1" "attrs_effect as st1 = Some st'"
    by (auto split: option.splits)
  then show ?case
    using Cons.IH [of st1] Cons.prems(2) attr_effect_fp_pos [of a st st1] attr_effect_pos [of a st st1]
    by (auto simp: enc_attrs_def)
qed (simp add: enc_attrs_def)

lemma Parse_fuel_attrs:
  assumes "data = stun_header ty len tid @ enc_attrs as" and "length tid = 12"
    and "\<forall>a \<in> set as. attr_wf a" and "length data < 65536" and "length as < fuel" and "IsStun data"
    and "unat len = length data - 20" and "len AND 0x03 = 0"
  shows "case attrs_effect as (start_state (header_packet this data ty tid)) of
      None \<Rightarrow> \<exists>p. Parse_fuel fuel this data = Inr (-1, p)
    | Some st \<Rightarrow> Parse_fuel fuel this data = Inr (if fingerprint_ok data st then 0 else -1, pkt st)"
proof -
  let ?st = "start_state (header_packet this data ty tid)"
  note hr = header_reads [OF assms(1,2)]
  have len20: "length (stun_header ty len tid) = 20" by (rule stun_header_length [OF assms(2)])
  have hd: "parse_header data ty (this\<lparr>packet := data\<rparr>) = Inr (header_packet this data ty tid)"
    using hr by (simp add: parse_header_def header_packet_def)
  have run: "Parse_fuel fuel this data = fbind (parse_loop fuel data ?st) (parse_finish data)"
    using assms(4-8) hr(1,2) hd
    by (simp add: Parse_fuel_def start_state_def Let_def)
  have loop: "case attrs_effect as ?st of None \<Rightarrow> rejects (parse_loop fuel data ?st)
      | Some st' \<Rightarrow> parse_loop fuel data ?st = Inr (Continue st')"
    using assms len20 by (intro parse_loop_refines [OF assms(1)]) (simp_all add: start_state_def)
  show ?thesis
  proof (cases "attrs_effect as ?st")
    case None
    then show ?thesis using loop run by (auto simp: rejects_def parse_finish_def)
  next
    case (Some st')
    have "has_fp st' \<longrightarrow> fp_attr_pos st' \<le> length data" "pos st' = length data"
      using attrs_effect_fp_pos [OF Some] len20 assms(1) by (auto simp: start_state_def)
    then show ?thesis using loop run Some
      by (simp add: parse_finish_def fingerprint_ok_def sub_def)
  qed
qed

text \<open>The packet the parser accepts, seen as header and attributes.\<close>

definition accepted_as :: "StunPacket \<Rightarrow> byte list \<Rightarrow> u16 \<Rightarrow> byte list \<Rightarrow> attr list \<Rightarrow> ParseState \<Rightarrow> bool" where
  "accepted_as this data ty tid as st \<longleftrightarrow>
     IsStun data \<and> length tid = 12 \<and> (\<forall>a \<in> set as. attr_wf a) \<and>
     data = stun_header ty (word_of_nat (length data - 20)) tid @ enc_attrs as \<and>
     attrs_effect as (start_state (header_packet this data ty tid)) = Some st \<and> fingerprint_ok data st"

lemma Parse_cases:
  assumes "length data < 65536"
  shows "(\<exists>p. Parse this data = Inr (-1, p)) \<or>
    (\<exists>ty tid as st. accepted_as this data ty tid as st \<and> Parse this data = Inr (0, pkt st))"
proof (cases "IsStun data")
  case False
  then show ?thesis by (simp add: Parse_def Parse_fuel_def)
next
  case True
  then have l20: "20 \<le> length data" by (simp add: IsStun_def)
  obtain ty len tid where h: "length tid = 12" "data = stun_header ty len tid @ drop 20 data"
    "byte2 data 0 = Inr ty" "byte2 data 2 = Inr len" using header_shape [OF True] by metis
  show ?thesis
  proof (cases "unat len = length data - 20 \<and> len AND 0x03 = 0")
    case False
    then show ?thesis using True h(3,4) by (auto simp: Parse_def Parse_fuel_def Let_def)
  next
    case ok: True
    have mod4: "length data mod 4 = 0"
      using ok l20 and_3_mod [of len] by (simp add: mod_diff_eq) presburger
    let ?st = "start_state (header_packet this data ty tid)"
    let ?fuel = "Suc (length data)"
    have run: "Parse this data = fbind (parse_loop ?fuel data ?st) (parse_finish data)"
      using True ok h(3,4) header_reads [OF h(2,1)]
      by (simp add: Parse_def Parse_fuel_def start_state_def Let_def parse_header_def header_packet_def)
    have "(\<exists>as. data = take (pos ?st) data @ enc_attrs as \<and> (\<forall>a \<in> set as. attr_wf a) \<and> length as < ?fuel) \<or>
        rejects (parse_loop ?fuel data ?st)"
      using l20 mod4 assms by (intro parse_loop_total) (simp_all add: start_state_def)
    then show ?thesis
    proof
      assume "rejects (parse_loop ?fuel data ?st)"
      then show ?thesis using run by (auto simp: rejects_def parse_finish_def)
    next
      assume "\<exists>as. data = take (pos ?st) data @ enc_attrs as \<and> (\<forall>a \<in> set as. attr_wf a) \<and> length as < ?fuel"
      then obtain as where as: "drop 20 data = enc_attrs as" "\<forall>a \<in> set as. attr_wf a" "length as < ?fuel"
        by (auto simp: start_state_def) (metis append_eq_conv_conj append_take_drop_id)
      have d: "data = stun_header ty len tid @ enc_attrs as" using h(2) as(1) by simp
      have "word_of_nat (length data - 20) = (word_of_nat (unat len) :: u16)" using ok by (simp only:)
      then have lw: "len = word_of_nat (length data - 20)" by simp
      note P = Parse_fuel_attrs [OF d h(1) as(2) assms as(3) True, of this, folded Parse_def]
      show ?thesis
      proof (cases "attrs_effect as ?st")
        case None
        then show ?thesis using P ok by simp
      next
        case (Some st)
        then have r: "Parse this data = Inr (if fingerprint_ok data st then 0 else -1, pkt st)"
          using P ok by simp
        have "accepted_as this data ty tid as st" if "fingerprint_ok data st"
          unfolding accepted_as_def using True h(1) as(2) d [unfolded lw] Some that by blast
        then show ?thesis using r by (cases "fingerprint_ok data st") auto
      qed
    qed
  qed
qed

lemma Parse_accepted:
  assumes "length data < 65536" and "Parse this data = Inr (0, p)"
  obtains ty tid as st where "accepted_as this data ty tid as st" and "p = pkt st"
  using Parse_cases [OF assms(1), of this] assms(2) by auto

lemma enc_attrs_count: "length as \<le> length (enc_attrs as)"
proof (induction as)
  case (Cons a as)
  then show ?case using enc_attr_length_ge [of a] by (simp add: enc_attrs_def)
qed (simp add: enc_attrs_def)

lemma accepted_Parse:
  assumes "length data < 65536" and "accepted_as this data ty tid as st"
  shows "Parse this data = Inr (0, pkt st)"
proof -
  let ?len = "word_of_nat (length data - 20) :: u16"
  have a: "IsStun data" "length tid = 12" "\<forall>a \<in> set as. attr_wf a"
    "data = stun_header ty ?len tid @ enc_attrs as" using assms(2) by (auto simp: accepted_as_def)
  have u: "unat ?len = length data - 20" using assms(1) by (intro unat_of_nat_u16) simp
  have "length (enc_attrs as) mod 4 = 0"
    using a(3)
  proof (induction as)
    case (Cons b as)
    then show ?case using enc_attr_length_mod [of b] by (simp add: enc_attrs_def mod_add_eq [symmetric])
  qed (simp add: enc_attrs_def)
  moreover have "length data = 20 + length (enc_attrs as)"
    using arg_cong [OF a(4), of length] stun_header_length [OF a(2)] by simp
  ultimately have "?len AND 0x03 = 0" using u and_3_mod [of ?len] by (simp add: unat_eq_zero)
  moreover have "length as < Suc (length data)"
    using enc_attrs_count [of as] \<open>length data = 20 + length (enc_attrs as)\<close> by simp
  ultimately show ?thesis
    using Parse_fuel_attrs [OF a(4,2,3) assms(1) _ a(1) u, of "Suc (length data)" this] assms(2)
    by (simp add: Parse_def accepted_as_def)
qed

section \<open>Reads stay inside the packet\<close>

lemma parse_attr_returns:
  assumes "pos st + 4 \<le> length data"
  obtains r where "parse_attr data st = Inr r"
    and "\<And>st'. r = Continue st' \<Longrightarrow> has_fp st' \<Longrightarrow> \<not> has_fp st \<and> fp_attr_pos st' \<le> length data"
proof -
  obtain t l where tl: "byte2 data (pos st) = Inr t" "byte2 data (pos st + 2) = Inr l"
    using b2.get_total [of "pos st" data] b2.get_total [of "pos st + 2" data] assms by auto
  show thesis
  proof (cases "length data < pos st + 4 + unat l \<or> \<not> attr_allowed t st")
    case True
    then have "parse_attr data st = Inr (Return (-1) (pkt st))"
      using tl by (auto simp: parse_attr_def attr_allowed_def)
    then show thesis by (rule that) simp
  next
    case False
    then have ok: "\<not> length data < pos st + 4 + unat l" "attr_allowed t st" "\<not> has_fp st"
      "\<not> (has_mi st \<and> t \<noteq> A_FINGERPRINT)" by (auto simp: attr_allowed_def)
    then have "parse_value data st t l =
      (case attr_meaning t (sub data (pos st + 4) (unat l)) (pkt st) of
         None \<Rightarrow> Inr (Return (-1) (pkt st))
       | Some p \<Rightarrow> Inr (Continue (st\<lparr>has_mi := has_mi st \<or> t = A_MESSAGE_INTEGRITY,
            has_fp := t = A_FINGERPRINT,
            fp_attr_pos := (if t = A_FINGERPRINT then pos st else fp_attr_pos st),
            fp_value := (if t = A_FINGERPRINT then val_of (byte4 (sub data (pos st + 4) (unat l)) 0) 0 else fp_value st),
            pkt := p\<rparr>)))"
      by (intro parse_value_meaning) simp_all
    then show thesis using tl ok assms
      by (cases "attr_meaning t (sub data (pos st + 4) (unat l)) (pkt st)")
        (auto simp: parse_attr_def intro: that)
  qed
qed

lemma parse_loop_only_diverges:
  assumes "has_fp st \<longrightarrow> fp_attr_pos st \<le> length data"
  shows "parse_loop fuel data st = Inl Diverge \<or> (\<exists>e p. parse_loop fuel data st = Inr (Return e p)) \<or>
    (\<exists>st'. parse_loop fuel data st = Inr (Continue st') \<and> (has_fp st' \<longrightarrow> fp_attr_pos st' \<le> length data))"
  using assms
proof (induction fuel arbitrary: st)
  case (Suc fuel)
  show ?case
  proof (cases "pos st + 4 \<le> length data")
    case True
    then obtain r where r: "parse_attr data st = Inr r"
      "\<And>st'. r = Continue st' \<Longrightarrow> has_fp st' \<Longrightarrow> \<not> has_fp st \<and> fp_attr_pos st' \<le> length data"
      using parse_attr_returns [OF True] by metis
    then show ?thesis using True Suc.IH by (cases r) simp_all
  qed (use Suc.prems in auto)
qed simp

section \<open>The fingerprint attribute\<close>

lemma attrs_effect_last:
  assumes "attrs_effect as st = Some st'" and "\<not> has_fp st" and "has_fp st'" and "\<forall>a \<in> set as. attr_wf a"
  shows "\<exists>bs v. as = bs @ [(A_FINGERPRINT, v, [])] \<and> length v = 4 \<and>
    fp_attr_pos st' = pos st + length (enc_attrs bs) \<and> fp_value st' = val_of (byte4 v 0) 0"
  using assms
proof (induction as arbitrary: st)
  case (Cons a as)
  obtain t v q where a: "a = (t, v, q)" by (cases a)
  obtain st1 where st1: "attr_effect a st = Some st1" "attrs_effect as st1 = Some st'"
    using Cons.prems(1) by (auto split: option.splits)
  show ?case
  proof (cases "has_fp st1")
    case True
    then have "as = []"
      using st1(2) by (cases as) (auto simp: attr_allowed_def split: prod.splits)
    moreover have "t = A_FINGERPRINT" using st1(1) True by (auto simp: a split: if_splits option.splits)
    ultimately show ?thesis using st1 Cons.prems(4)
      by (intro exI [of _ "[]"] exI [of _ v]) (auto simp: a attr_meaning_def enc_attrs_def split: if_splits)
  next
    case False
    then obtain bs w where "as = bs @ [(A_FINGERPRINT, w, [])]" "length w = 4"
      "fp_attr_pos st' = pos st1 + length (enc_attrs bs)" "fp_value st' = val_of (byte4 w 0) 0"
      using Cons.IH [OF st1(2)] Cons.prems(3,4) by auto
    then show ?thesis using attr_effect_pos [OF st1(1)]
      by (intro exI [of _ "a # bs"] exI [of _ w]) (simp add: enc_attrs_def)
  qed
qed simp

lemma attr_effect_flag:
  "attr_effect a st = Some st' \<Longrightarrow> has_fingerprint (pkt st) = has_fp st \<Longrightarrow> has_fingerprint (pkt st') = has_fp st'"
  by (cases a) (auto simp: attr_meaning_def attr_allowed_def split: if_splits)

lemma attrs_effect_flag:
  "attrs_effect as st = Some st' \<Longrightarrow> has_fingerprint (pkt st) = has_fp st \<Longrightarrow> has_fingerprint (pkt st') = has_fp st'"
  by (induction as arbitrary: st) (auto split: option.splits dest: attr_effect_flag)

lemma val_be32: "length v = 4 \<Longrightarrow> be32 (val_of (byte4 v 0) 0) = v"
  using b4.get_total [of 0 v] by (auto simp: val_of_def sub_def)

lemma accepted_fingerprint:
  assumes "accepted_as this data ty tid as st" and "has_fingerprint (pkt st)" and "\<not> has_fingerprint this"
  obtains front where "data = front @ be16 A_FINGERPRINT @ be16 4 @ be32 (CRC32 front XOR 0x5354554e)"
proof -
  let ?h = "stun_header ty (word_of_nat (length data - 20)) tid"
  let ?st = "start_state (header_packet this data ty tid)"
  have a: "length tid = 12" "\<forall>a \<in> set as. attr_wf a" "data = ?h @ enc_attrs as"
    "attrs_effect as ?st = Some st" "fingerprint_ok data st" using assms(1) by (auto simp: accepted_as_def)
  have fp: "has_fp st"
    using attrs_effect_flag [OF a(4)] assms(2,3) by (simp add: start_state_def header_packet_def)
  then obtain bs v where b: "as = bs @ [(A_FINGERPRINT, v, [])]" "length v = 4"
    "fp_attr_pos st = 20 + length (enc_attrs bs)" "fp_value st = val_of (byte4 v 0) 0"
    using attrs_effect_last [OF a(4) _ fp a(2)] by (auto simp: start_state_def)
  let ?front = "?h @ enc_attrs bs"
  have d: "data = ?front @ be16 A_FINGERPRINT @ be16 4 @ v"
    using a(3) b(1,2) by (simp add: enc_attrs_def)
  have "take (fp_attr_pos st) data = ?front"
    using d stun_header_length [OF a(1)] b(3) by (metis append_eq_conv_conj length_append)
  then have "be32 (CRC32 ?front XOR 0x5354554e) = v"
    using a(5) fp b(4) val_be32 [OF b(2)] by (simp add: fingerprint_ok_def)
  then show thesis using d by (intro that [of ?front]) simp
qed

section \<open>A packet too long for the 16-bit position\<close>

text \<open>
  65552 bytes: the first attribute carries the position to 65536, which the
  16-bit alignment turns into 0; there the header reads as an attribute that
  leads to 0 again.
\<close>

definition stun_trap :: "byte list" where
  "stun_trap = be16 1 @ be16 65532 @ magic_cookie @ replicate 12 0 @ be16 1 @ be16 65512 @ replicate 65528 0"

lemma stun_trap_length: "length stun_trap = 65552"
  by (simp add: stun_trap_def magic_cookie_def)

lemma stun_trap_reads:
  "byte2 stun_trap 0 = Inr 1" "byte2 stun_trap 2 = Inr 65532"
  "byte2 stun_trap 20 = Inr 1" "byte2 stun_trap 22 = Inr 65512"
proof -
  show "byte2 stun_trap 0 = Inr 1"
    using b2.get_appended [where v = 1 and xs = "[]"] by (simp add: stun_trap_def)
  show "byte2 stun_trap 2 = Inr 65532"
    using b2.get_appended [where v = 65532 and xs = "be16 1"] by (simp add: stun_trap_def)
  have "length (be16 1 @ be16 65532 @ magic_cookie @ replicate 12 0) = 20" by (simp add: magic_cookie_def)
  then show "byte2 stun_trap 20 = Inr 1"
    using b2.get_appended [where v = 1 and xs = "be16 1 @ be16 65532 @ magic_cookie @ replicate 12 0"]
    by (simp add: stun_trap_def)
  have "length (be16 1 @ be16 65532 @ magic_cookie @ replicate 12 0 @ be16 1) = 22" by (simp add: magic_cookie_def)
  then show "byte2 stun_trap 22 = Inr 65512"
    using b2.get_appended [where v = 65512 and xs = "be16 1 @ be16 65532 @ magic_cookie @ replicate 12 0 @ be16 1"]
    by (simp add: stun_trap_def)
qed

lemma stun_trap_IsStun: "IsStun stun_trap"
  by (simp add: IsStun_def stun_trap_def be16_def magic_cookie_def)

lemma stun_trap_step:
  assumes "pos st = 0 \<or> pos st = 20" and "\<not> has_fp st" and "\<not> has_mi st"
  shows "parse_attr stun_trap st = Inr (Continue (st\<lparr>pos := 0\<rparr>))"
  using assms stun_trap_reads stun_trap_reads(2) [unfolded numeral_2_eq_2] stun_trap_length
  by (auto simp: parse_attr_def parse_value_def Align4_16_def)

lemma stun_trap_loops:
  "pos st = 0 \<or> pos st = 20 \<Longrightarrow> \<not> has_fp st \<Longrightarrow> \<not> has_mi st \<Longrightarrow> parse_loop fuel stun_trap st = Inl Diverge"
proof (induction fuel arbitrary: st)
  case (Suc fuel)
  then show ?case using stun_trap_length stun_trap_step [OF Suc.prems] by auto
qed simp

section \<open>Fingerprints\<close>

lemma Parse_fingerprint_shape:
  assumes "length data < 65536" and "Parse (StunPacket_new k m) data = Inr (0, p)" and "has_fingerprint p"
  obtains front where "data = front @ be16 A_FINGERPRINT @ be16 4 @ be32 (CRC32 front XOR 0x5354554e)"
proof -
  obtain ty tid as st where "accepted_as (StunPacket_new k m) data ty tid as st" "p = pkt st"
    using Parse_accepted [OF assms(1,2)] by metis
  then show thesis using accepted_fingerprint [of "StunPacket_new k m" data ty tid as st] assms(3) that
    by (simp add: StunPacket_new_def) blast
qed

lemma fingerprint_before:
  assumes "p @ u @ s = front @ be16 A_FINGERPRINT @ be16 4 @ be32 c" and "8 \<le> length s"
  obtains s' where "front = p @ u @ s'" and "s = s' @ be16 A_FINGERPRINT @ be16 4 @ be32 c"
proof -
  let ?t = "be16 A_FINGERPRINT @ be16 4 @ be32 c"
  let ?n = "length s - 8"
  have "(p @ u @ take ?n s) @ drop ?n s = front @ ?t" using assms(1) by simp
  moreover have "length (drop ?n s) = length ?t" using assms(2) by simp
  ultimately have "p @ u @ take ?n s = front \<and> drop ?n s = ?t"
    by (metis append_eq_append_conv)
  then show thesis by (intro that [of "take ?n s"]) (metis append_take_drop_id)+
qed

text \<open>A Binding Request that carries nothing but its fingerprint.\<close>

definition sample_header :: "byte list" where
  "sample_header = stun_header 1 8 (replicate 12 0)"

definition sample_attrs :: "attr list" where
  "sample_attrs = [(A_FINGERPRINT, be32 (CRC32 sample_header XOR 0x5354554e), [])]"

definition sample_packet :: "byte list" where
  "sample_packet = sample_header @ enc_attrs sample_attrs"

lemma sample_length: "length sample_packet = 28"
  by (simp add: sample_packet_def sample_header_def stun_header_def sample_attrs_def enc_attrs_def magic_cookie_def)

lemma sample_accepted:
  "\<exists>st. accepted_as this sample_packet 1 (replicate 12 0) sample_attrs st \<and> has_fingerprint (pkt st)"
proof -
  have val: "val_of (byte4 (be32 w) 0) 0 = w" for w
    using b4.get_appended [where v = w and xs = "[]" and ys = "[]"] by (simp add: val_of_def)
  have "length sample_header = 20" by (simp add: sample_header_def stun_header_length)
  then have front: "take 20 sample_packet = sample_header" by (simp add: sample_packet_def)
  have "IsStun sample_packet"
    by (simp add: IsStun_def sample_packet_def sample_header_def stun_header_def be16_def magic_cookie_def)
  moreover have "sample_packet = stun_header 1 (word_of_nat (length sample_packet - 20)) (replicate 12 0) @ enc_attrs sample_attrs"
    unfolding sample_length by (simp add: sample_packet_def sample_header_def)
  ultimately show ?thesis
    by (simp add: accepted_as_def sample_attrs_def attr_allowed_def attr_meaning_def start_state_def
        fingerprint_ok_def front val)
qed

lemma sample_Parse: "\<exists>p. Parse this sample_packet = Inr (0, p) \<and> has_fingerprint p"
  using sample_accepted [of this] accepted_Parse [of sample_packet this] by (auto simp: sample_length)

section \<open>Properties\<close>

text \<open>C26. \<open>Parse\<close> returns, with 0 or -1, on every packet below 64 KiB, whatever
  its bytes: its loop ends and no read leaves the packet.\<close>

theorem Parse_returns:
  assumes "length data < 65536"
  shows "\<exists>p. Parse this data = Inr (0, p) \<or> Parse this data = Inr (-1, p)"
  using Parse_cases [OF assms, of this] by blast

theorem Parse_returns_witness:
  "\<exists>p. Parse (StunPacket_new REQUEST 0) [0, 1] = Inr (0, p) \<or> Parse (StunPacket_new REQUEST 0) [0, 1] = Inr (-1, p)"
  by (rule Parse_returns) simp

text \<open>C27. For packets of any length, the only way \<open>Parse\<close> can fail to return is
  its loop running on: it never reads outside the packet.\<close>

theorem Parse_reads_inside:
  "returns (Parse_fuel fuel this data) \<or> Parse_fuel fuel this data = Inl Diverge"
proof (cases "IsStun data")
  case True
  then obtain ty len tid where h: "length tid = 12" "data = stun_header ty len tid @ drop 20 data"
    "byte2 data 0 = Inr ty" "byte2 data 2 = Inr len" using header_shape by metis
  let ?st = "start_state (header_packet this data ty tid)"
  have "returns (fbind (parse_loop fuel data ?st) (parse_finish data)) \<or>
      fbind (parse_loop fuel data ?st) (parse_finish data) = Inl Diverge"
    using parse_loop_only_diverges [of ?st data fuel] by (auto simp: parse_finish_def start_state_def)
  then show ?thesis using True h(3,4) header_reads [OF h(2,1)]
    by (simp add: Parse_fuel_def start_state_def Let_def parse_header_def header_packet_def)
qed (simp add: Parse_fuel_def)

text \<open>The bound of 64 KiB is needed: \<open>Align4\<close> is applied to the position cut to
  16 bits, so on a 65552-byte packet the loop comes back to position 0 for ever,
  however long it runs.\<close>

theorem Parse_diverges_when_position_wraps: "Parse_fuel fuel this stun_trap = Inl Diverge"
proof -
  obtain ty len tid where h: "length tid = 12" "stun_trap = stun_header ty len tid @ drop 20 stun_trap"
    "byte2 stun_trap 0 = Inr ty" "byte2 stun_trap 2 = Inr len" using header_shape [OF stun_trap_IsStun] by metis
  let ?st = "start_state (header_packet this stun_trap ty tid)"
  have "parse_loop fuel stun_trap ?st = Inl Diverge"
    by (rule stun_trap_loops) (simp_all add: start_state_def)
  then show ?thesis
    using h(3,4) header_reads [OF h(2,1)] stun_trap_reads(2) stun_trap_IsStun stun_trap_length
    by (simp add: Parse_fuel_def start_state_def Let_def parse_header_def header_packet_def)
qed

text \<open>C28. A packet accepted with a FINGERPRINT ends in that attribute, and its value
  is the CRC-32 of all bytes before it, XORed with \<open>0x5354554e\<close>.\<close>

theorem Parse_fingerprint_sound:
  assumes "length data < 65536" and "Parse (StunPacket_new k m) data = Inr (0, p)" and "has_fingerprint p"
  shows "\<exists>front. data = front @ be16 A_FINGERPRINT @ be16 4 @ be32 (CRC32 front XOR 0x5354554e)"
  using Parse_fingerprint_shape [OF assms] by metis

theorem Parse_fingerprint_sound_witness:
  "\<exists>front. sample_packet = front @ be16 A_FINGERPRINT @ be16 4 @ be32 (CRC32 front XOR 0x5354554e)"
proof -
  obtain p where "Parse (StunPacket_new REQUEST 0) sample_packet = Inr (0, p)" "has_fingerprint p"
    using sample_Parse by blast
  then show ?thesis by (intro Parse_fingerprint_sound [of sample_packet REQUEST 0 p]) (simp_all add: sample_length)
qed

text \<open>A packet whose bytes before the FINGERPRINT were corrupted within a window
  of four bytes is never accepted with a fingerprint.\<close>

theorem Parse_detects_corruption:
  assumes "length (p @ u @ s) < 65536" and "length u = length v" and "length u \<le> 4" and "u \<noteq> v" and "8 \<le> length s"
    and "Parse (StunPacket_new k m) (p @ u @ s) = Inr (0, q)" and "has_fingerprint q"
  shows "\<not> (\<exists>q'. Parse (StunPacket_new k' m') (p @ v @ s) = Inr (0, q') \<and> has_fingerprint q')"
proof
  assume "\<exists>q'. Parse (StunPacket_new k' m') (p @ v @ s) = Inr (0, q') \<and> has_fingerprint q'"
  then obtain q' where q': "Parse (StunPacket_new k' m') (p @ v @ s) = Inr (0, q')" "has_fingerprint q'" by blast
  have l: "length (p @ v @ s) < 65536" using assms(1,2) by simp
  obtain f where f: "p @ u @ s = f @ be16 A_FINGERPRINT @ be16 4 @ be32 (CRC32 f XOR 0x5354554e)"
    using Parse_fingerprint_shape [OF assms(1,6,7)] by metis
  obtain g where g: "p @ v @ s = g @ be16 A_FINGERPRINT @ be16 4 @ be32 (CRC32 g XOR 0x5354554e)"
    using Parse_fingerprint_shape [OF l q'] by metis
  obtain x where x: "f = p @ u @ x" "s = x @ be16 A_FINGERPRINT @ be16 4 @ be32 (CRC32 f XOR 0x5354554e)"
    using fingerprint_before [OF f assms(5)] by metis
  obtain y where y: "g = p @ v @ y" "s = y @ be16 A_FINGERPRINT @ be16 4 @ be32 (CRC32 g XOR 0x5354554e)"
    using fingerprint_before [OF g assms(5)] by metis
  have "x = y" "be32 (CRC32 f XOR 0x5354554e) = be32 (CRC32 g XOR 0x5354554e)"
    using x(2) y(2) by (auto simp: append_eq_append_conv)
  then have "CRC32 (p @ u @ x) = CRC32 (p @ v @ x)"
    using b4.enc_inject xor_cancel_right x(1) y(1) by blast
  then show False using CRC32_burst [OF assms(2,3)] assms(4) by blast
qed

theorem Parse_detects_corruption_witness:
  "\<not> (\<exists>q'. Parse (StunPacket_new REQUEST 0) ([] @ [1] @ tl sample_packet) = Inr (0, q') \<and> has_fingerprint q')"
proof -
  have split: "[] @ [0] @ tl sample_packet = sample_packet"
    by (simp add: sample_packet_def sample_header_def stun_header_def be16_def)
  obtain p where "Parse (StunPacket_new REQUEST 0) ([] @ [0] @ tl sample_packet) = Inr (0, p)" "has_fingerprint p"
    using sample_Parse [of "StunPacket_new REQUEST 0"] unfolding split by blast
  then show ?thesis
    by (intro Parse_detects_corruption [of "[]" "[0]" "tl sample_packet" "[1]" REQUEST 0 p]) (simp_all add: sample_length)
qed

end
