(* ===== verification/Stun_Roundtrip.thy ===== *)
theory Stun_Roundtrip
  imports Stun_Correct
begin

text \<open>
  What \<open>StunPacket::Pack\<close> writes, and that \<open>StunPacket::Parse\<close> reads it back.
  The packed bytes are a header followed by an attribute list; a USERNAME whose
  length is not a multiple of four is packed without its padding.
\<close>

section \<open>The attributes of a packed message\<close>

definition xor_mapped_bytes :: "StunPacket \<Rightarrow> byte list" where
  "xor_mapped_bytes p =
     (let a = xor_mapped_address p in
      if addr_family a = AF_INET then
        [0, 0x01] @ xor_bytes (sin_port a) (take 2 magic_cookie) @ xor_bytes (sin_addr a) magic_cookie
      else [0, 0x02] @ xor_bytes (sin_port a) (take 2 magic_cookie) @
           xor_bytes (sin6_addr a) (magic_cookie @ take 12 (transaction_id p)))"

definition error_bytes :: "StunPacket \<Rightarrow> byte list" where
  "error_bytes p =
     (let code_class = (word_of_nat (unat (error_code p) div 100) :: byte);
          code_number = (word_of_int (int (unat (error_code p)) - int (unat code_class) * 100) :: byte) in
      [0, 0, code_class, code_number])"

definition opt :: "bool \<Rightarrow> 'a \<Rightarrow> 'a list" where
  "opt c x = (if c then [x] else [])"

definition pack_attrs :: "StunPacket \<Rightarrow> attr list" where
  "pack_attrs p =
     opt (username_padded_len p \<noteq> 0) (A_USERNAME, username p, []) @
     opt (priority p \<noteq> 0) (A_PRIORITY, be32 (priority p), []) @
     opt (ice_controlling p \<noteq> 0) (A_ICE_CONTROLLING, be64 (ice_controlling p), []) @
     opt (ice_controlled p \<noteq> 0) (A_ICE_CONTROLLED, be64 (ice_controlled p), []) @
     opt (has_use_candidate p) (A_USE_CANDIDATE, [], []) @
     opt (add_xor_mapped_address p) (A_XOR_MAPPED_ADDRESS, xor_mapped_bytes p, []) @
     opt (add_error_code p) (A_ERROR_CODE, error_bytes p, [])"

text \<open>The bytes MESSAGE-INTEGRITY covers, with the length field as it stands then.\<close>

definition integrity_input :: "StunPacket \<Rightarrow> byte list" where
  "integrity_input p =
     stun_header (type_field p) (word_of_int (pack_size p - 20 - 8)) (transaction_id p) @ enc_attrs (pack_attrs p)"

definition integrity_attrs :: "(byte list \<Rightarrow> byte list \<Rightarrow> byte list) \<Rightarrow> StunPacket \<Rightarrow> attr list" where
  "integrity_attrs hmac p =
     opt (add_message_integrity p) (A_MESSAGE_INTEGRITY, hmac (password p) (integrity_input p), [])"

definition before_fingerprint :: "(byte list \<Rightarrow> byte list \<Rightarrow> byte list) \<Rightarrow> StunPacket \<Rightarrow> byte list" where
  "before_fingerprint hmac p =
     stun_header (type_field p) (word_of_int (pack_size p - 20)) (transaction_id p) @
     enc_attrs (pack_attrs p @ integrity_attrs hmac p)"

definition packed_attrs :: "(byte list \<Rightarrow> byte list \<Rightarrow> byte list) \<Rightarrow> StunPacket \<Rightarrow> attr list" where
  "packed_attrs hmac p = pack_attrs p @ integrity_attrs hmac p @
     [(A_FINGERPRINT, be32 (CRC32 (before_fingerprint hmac p) XOR 0x5354554e), [])]"

definition packed :: "(byte list \<Rightarrow> byte list \<Rightarrow> byte list) \<Rightarrow> StunPacket \<Rightarrow> byte list" where
  "packed hmac p =
     stun_header (type_field p) (word_of_int (pack_size p - 20)) (transaction_id p) @ enc_attrs (packed_attrs hmac p)"

lemma enc_attrs_append [simp]: "enc_attrs (xs @ ys) = enc_attrs xs @ enc_attrs ys"
  by (simp add: enc_attrs_def)

lemma enc_attrs_opt: "enc_attrs (opt c a) = (if c then enc_attr a else [])"
  by (simp add: enc_attrs_def opt_def)

section \<open>What the parts of \<open>Pack\<close> append\<close>

lemma adds_head: "adds (append_attr_head t l) (be16 t @ be16 l)"
  unfolding append_attr_head_def by (intro build_intros)

lemma length_xor_bytes [simp]: "length (xor_bytes xs ys) = min (length xs) (length ys)"
  by (simp add: xor_bytes_def)

lemma length_xor_mapped:
  assumes "addr_wf (xor_mapped_address p)" and "length (transaction_id p) = 12"
  shows "length (xor_mapped_bytes p) = (if addr_family (xor_mapped_address p) = AF_INET then 8 else 20)"
  using assms by (simp add: xor_mapped_bytes_def Let_def addr_wf_def sin_port_def sin_addr_def sin6_addr_def magic_cookie_def)

lemma adds_attr:
  assumes "adds f v" and "l = word_of_nat (length v)"
  shows "adds (\<lambda>b. fbind (append_attr_head t l b) f) (enc_attr (t, v, []))"
  using adds_bind [OF adds_head assms(1), of t l] assms(2) by simp

lemma adds_opt_attr:
  assumes "c \<Longrightarrow> adds f v" and "c \<Longrightarrow> l = word_of_nat (length v)"
  shows "adds (\<lambda>b. if c then fbind (append_attr_head t l b) f else Inr b) (enc_attrs (opt c (t, v, [])))"
  unfolding enc_attrs_opt using adds_attr assms by (intro adds_if) blast

lemma pack_parts_add:
  "adds (pack_username p) (enc_attrs (opt (username_padded_len p \<noteq> 0) (A_USERNAME, username p, [])))"
  "adds (pack_priority p) (enc_attrs (opt (priority p \<noteq> 0) (A_PRIORITY, be32 (priority p), [])))"
  "adds (pack_controlling p) (enc_attrs (opt (ice_controlling p \<noteq> 0) (A_ICE_CONTROLLING, be64 (ice_controlling p), [])))"
  "adds (pack_controlled p) (enc_attrs (opt (ice_controlled p \<noteq> 0) (A_ICE_CONTROLLED, be64 (ice_controlled p), [])))"
  unfolding pack_username_def [abs_def] pack_priority_def [abs_def] pack_controlling_def [abs_def] pack_controlled_def [abs_def]
  by (rule adds_opt_attr; (intro build_intros)?; simp)+

lemma pack_use_candidate_adds:
  "adds (pack_use_candidate p) (enc_attrs (opt (has_use_candidate p) (A_USE_CANDIDATE, [], [])))"
  unfolding pack_use_candidate_def [abs_def] enc_attrs_opt
  using adds_head [of A_USE_CANDIDATE 0] by (intro adds_if) simp

lemma pack_error_code_adds:
  "adds (pack_error_code p) (enc_attrs (opt (add_error_code p) (A_ERROR_CODE, error_bytes p, [])))"
proof -
  have z: "be16 0 = [0, 0]" by (simp add: be16_def)
  have "adds (\<lambda>b. fbind (Append_u16 b (HostToNetwork16 0)) (\<lambda>b. fbind (Append_u8 b c) (\<lambda>b. Append_u8 b n)))
      (be16 0 @ [c] @ [n])" for c n :: byte
    by (intro build_intros)
  then show ?thesis
    unfolding pack_error_code_def [abs_def] Let_def
    by (intro adds_opt_attr) (simp_all add: error_bytes_def Let_def z)
qed

lemma pack_xor_mapped_adds:
  assumes "addr_wf (xor_mapped_address p)" and "length (transaction_id p) = 12"
  shows "adds (pack_xor_mapped p) (enc_attrs (opt (add_xor_mapped_address p) (A_XOR_MAPPED_ADDRESS, xor_mapped_bytes p, [])))"
proof -
  let ?n = "if addr_family (xor_mapped_address p) = AF_INET then 8 else 20 :: nat"
  have v: "xor_mapped_value p = Inr (xor_mapped_bytes p)"
    using assms(2) by (simp add: xor_mapped_value_def xor_mapped_bytes_def Let_def rd_sub_def sub_def)
  have l: "length (xor_mapped_bytes p) = ?n" by (rule length_xor_mapped [OF assms])
  have "adds (\<lambda>b. Append b (xor_mapped_bytes p) (if addr_family (xor_mapped_address p) = AF_INET then 8 else 20)) (xor_mapped_bytes p)"
    by (rule adds_bytes) (simp add: l)
  then show ?thesis
    unfolding pack_xor_mapped_def [abs_def] v fbind_simps
    by (intro adds_opt_attr) (simp_all add: l)
qed

lemma pack_header_adds:
  "adds (pack_header p) (stun_header (type_field p) (word_of_int (pack_size p - 20)) (transaction_id p))"
proof -
  have "adds (\<lambda>b. Append b magic_cookie 4) magic_cookie" by (rule adds_bytes) (simp add: magic_cookie_def)
  then show ?thesis
    unfolding pack_header_def [abs_def] stun_header_def by (intro build_intros)
qed

lemma set_length_field_holds:
  assumes "buf_inv b" and "content b = be16 t @ be16 l @ rest"
  shows "holds (set_length_field v b) (be16 t @ be16 v @ rest)"
proof -
  from assms(1) obtain m r w where
    b: "b = \<lparr>buffer = m, reader_index = int r, writer_index = int w\<rparr>"
    and r: "8 \<le> r" "r \<le> w" "w \<le> length m" by (rule buf_invE)
  have c: "sub m r (w - r) = be16 t @ be16 l @ rest" using assms(2) b r by simp
  then have "length (sub m r (w - r)) = 4 + length rest" by (simp only:) simp
  then have n: "w - r = 4 + length rest" using r by simp
  let ?m = "window m (r + 2) (be16 v)"
  have "set_byte2 m (r + 2) v = Inr ?m"
    using b2.put_inside [of "r + 2" m v] r n by (simp add: window_def)
  then have s: "set_length_field v b = Inr \<lparr>buffer = ?m, reader_index = int r, writer_index = int w\<rparr>"
    by (simp add: set_length_field_def b)
  have wr: "w - r = 2 + (2 + length rest)" using n by simp
  have e: "sub m r 2 @ sub m (r + 2) 2 @ sub m (r + 2 + 2) (length rest) = be16 t @ be16 l @ rest"
    using c unfolding wr by (simp only: sub_add)
  have "length (sub m r 2) = length (be16 t)" "length (sub m (r + 2) 2) = length (be16 l)"
    using r n by simp_all
  then have parts: "sub m r 2 = be16 t" "sub m (r + 2 + 2) (length rest) = rest"
    using e append_eq_append_conv by blast+
  have "sub ?m r (2 + (2 + length rest)) = sub ?m r 2 @ sub ?m (r + 2) 2 @ sub ?m (r + 2 + 2) (length rest)"
    by (simp only: sub_add)
  moreover have "sub ?m (r + 2 + 2) (length rest) = sub m (r + 2 + 2) (length rest)"
    using r n by (simp add: window_def sub_def)
  moreover have "sub ?m r 2 = sub m r 2" by (rule sub_window_before) (use r n in simp_all)
  moreover have "sub ?m (r + 2) 2 = be16 v" by (rule sub_window_same) (use r n in simp_all)
  ultimately have "sub ?m r (w - r) = be16 t @ be16 v @ rest"
    using parts unfolding wr by (simp only:)
  then show ?thesis using s r n by (simp add: holds_def)
qed

lemma pack_integrity_holds:
  assumes "buf_inv b" and "content b = stun_header (type_field p) (word_of_int (pack_size p - 20)) (transaction_id p) @ enc_attrs (pack_attrs p)"
    and "\<And>k d. length (hmac k d) = 20"
  shows "holds (pack_integrity hmac p b) (before_fingerprint hmac p)"
proof (cases "add_message_integrity p")
  case False
  then show ?thesis using assms
    by (simp add: pack_integrity_def before_fingerprint_def integrity_attrs_def opt_def holds_def)
next
  case True
  let ?rest = "magic_cookie @ transaction_id p @ enc_attrs (pack_attrs p)"
  let ?l8 = "word_of_int (pack_size p - 20 - 8) :: u16"
  let ?l = "word_of_int (pack_size p - 20) :: u16"
  let ?mac = "hmac (password p) (integrity_input p)"
  have "holds (set_length_field ?l8 b) (be16 (type_field p) @ be16 ?l8 @ ?rest)"
    by (rule set_length_field_holds [OF assms(1)]) (simp add: assms(2) stun_header_def)
  then obtain b1 where b1: "set_length_field ?l8 b = Inr b1" "buf_inv b1" "content b1 = integrity_input p"
    by (auto simp: holds_def integrity_input_def stun_header_def)
  have "adds (\<lambda>b. fbind (append_attr_head A_MESSAGE_INTEGRITY 20 b) (\<lambda>b. Append_piece b ?mac))
      (enc_attr (A_MESSAGE_INTEGRITY, ?mac, []))"
    by (rule adds_attr) (simp_all add: adds_piece assms(3))
  then obtain b2 where b2: "fbind (append_attr_head A_MESSAGE_INTEGRITY 20 b1) (\<lambda>b. Append_piece b ?mac) = Inr b2"
    "buf_inv b2" "content b2 = integrity_input p @ enc_attr (A_MESSAGE_INTEGRITY, ?mac, [])"
    using b1 by (auto simp: adds_def holds_def)
  have "holds (set_length_field ?l b2) (be16 (type_field p) @ be16 ?l @ ?rest @ enc_attr (A_MESSAGE_INTEGRITY, ?mac, []))"
    by (rule set_length_field_holds [OF b2(2)]) (simp add: b2(3) integrity_input_def stun_header_def)
  moreover have "pack_integrity hmac p b = set_length_field ?l b2"
    using True b1 b2(1) by (simp add: pack_integrity_def buf_slice_content Let_def fbind_assoc [symmetric])
  ultimately show ?thesis
    using True by (simp add: before_fingerprint_def integrity_attrs_def enc_attrs_opt stun_header_def)
qed

lemma pack_fingerprint_holds:
  assumes "buf_inv b" and "content b = front"
  shows "holds (pack_fingerprint b) (front @ enc_attr (A_FINGERPRINT, be32 (CRC32 front XOR 0x5354554e), []))"
proof -
  have "adds (\<lambda>b. fbind (append_attr_head A_FINGERPRINT 4 b) (\<lambda>b. Append_u32 b (HostToNetwork32 (CRC32 front XOR 0x5354554e))))
      (enc_attr (A_FINGERPRINT, be32 (CRC32 front XOR 0x5354554e), []))"
    by (rule adds_attr) (simp_all add: adds_u32)
  then have "holds (fbind (append_attr_head A_FINGERPRINT 4 b) (\<lambda>b. Append_u32 b (HostToNetwork32 (CRC32 front XOR 0x5354554e))))
      (content b @ enc_attr (A_FINGERPRINT, be32 (CRC32 front XOR 0x5354554e), []))"
    using assms(1) unfolding adds_def by blast
  then show ?thesis using assms by (simp add: pack_fingerprint_def buf_slice_content)
qed

lemma Pack_packed:
  assumes "buf_inv b" and "content b = []" and "length (transaction_id p) = 12"
    and "addr_wf (xor_mapped_address p)" and "\<And>k d. length (hmac k d) = 20"
  shows "\<exists>b'. Pack hmac p b = Inr (p\<lparr>has_fingerprint := True\<rparr>, b') \<and> buf_inv b' \<and> content b' = packed hmac p"
proof -
  let ?build = "\<lambda>b. fbind (pack_header p b) (\<lambda>b. fbind (pack_username p b) (\<lambda>b. fbind (pack_priority p b) (\<lambda>b.
    fbind (pack_controlling p b) (\<lambda>b. fbind (pack_controlled p b) (\<lambda>b. fbind (pack_use_candidate p b) (\<lambda>b.
    fbind (pack_xor_mapped p b) (pack_error_code p)))))))"
  have "adds ?build (stun_header (type_field p) (word_of_int (pack_size p - 20)) (transaction_id p) @ enc_attrs (pack_attrs p))"
    unfolding pack_attrs_def enc_attrs_append
    by (intro adds_bind pack_header_adds pack_parts_add pack_use_candidate_adds pack_error_code_adds
        pack_xor_mapped_adds assms)
  then obtain b1 where b1: "?build b = Inr b1" "buf_inv b1"
    "content b1 = stun_header (type_field p) (word_of_int (pack_size p - 20)) (transaction_id p) @ enc_attrs (pack_attrs p)"
    using assms(1,2) by (auto simp: adds_def holds_def)
  obtain b2 where b2: "pack_integrity hmac p b1 = Inr b2" "buf_inv b2" "content b2 = before_fingerprint hmac p"
    using pack_integrity_holds [OF b1(2,3), of hmac] assms(5) by (auto simp: holds_def)
  obtain b3 where b3: "pack_fingerprint b2 = Inr b3" "buf_inv b3" "content b3 = packed hmac p"
    using pack_fingerprint_holds [OF b2(2,3)]
    by (auto simp: holds_def packed_def packed_attrs_def before_fingerprint_def enc_attrs_def)
  have "Pack hmac p b = fbind (?build b) (\<lambda>b. fbind (pack_integrity hmac p b) (\<lambda>b.
      fbind (pack_fingerprint b) (\<lambda>b. Inr (p\<lparr>has_fingerprint := True\<rparr>, b))))"
    by (simp add: Pack_def fbind_assoc)
  then show ?thesis using b1(1) b2(1) b3 by simp
qed

section \<open>Sizes\<close>

definition missing_padding :: "StunPacket \<Rightarrow> nat" where
  "missing_padding p = (4 - length (username p) mod 4) mod 4"

lemma username_padded:
  assumes "length (username p) \<le> 65000" and "username p \<noteq> []"
  shows "unat (username_padded_len p) = length (username p) + missing_padding p"
    and "username_padded_len p \<noteq> 0"
proof -
  have u: "unat (word_of_nat (length (username p)) :: u16) = length (username p)"
    using assms(1) by (intro unat_of_nat_u16) simp
  have "4 * ((length (username p) + 3) div 4) < 65536" using assms(1) by linarith
  then show e: "unat (username_padded_len p) = length (username p) + missing_padding p"
    using assms u pad4_round [of "length (username p)"]
    by (simp add: username_padded_len_def Align4_16_unat missing_padding_def)
  show "username_padded_len p \<noteq> 0" using e assms(2) by auto
qed

lemma username_padded_iff:
  "length (username p) \<le> 65000 \<Longrightarrow> username_padded_len p \<noteq> 0 \<longleftrightarrow> username p \<noteq> []"
  using username_padded(2) [of p] by (auto simp: username_padded_len_def)

lemma length_error_bytes [simp]: "length (error_bytes p) = 4"
  by (simp add: error_bytes_def Let_def)

lemma length_packed:
  assumes "length (username p) \<le> 65000" and "length (transaction_id p) = 12"
    and "addr_wf (xor_mapped_address p)" and "\<And>k d. length (hmac k d) = 20"
  shows "pack_size p = int (length (packed hmac p)) + (if username p \<noteq> [] then int (missing_padding p) else 0)"
    and "length (packed hmac p) \<le> 65200"
proof -
  note sizes = stun_header_length [OF assms(2)] username_padded_iff [OF assms(1)] username_padded(1) [OF assms(1)]
    length_xor_mapped [OF assms(3,2)] assms(4)
  show "pack_size p = int (length (packed hmac p)) + (if username p \<noteq> [] then int (missing_padding p) else 0)"
    by (simp add: packed_def packed_attrs_def pack_attrs_def integrity_attrs_def enc_attrs_opt sizes pack_size_def)
      (simp add: enc_attrs_def)
  show "length (packed hmac p) \<le> 65200"
    using assms(1) by (simp add: packed_def packed_attrs_def pack_attrs_def integrity_attrs_def enc_attrs_opt sizes)
      (simp add: enc_attrs_def)
qed

section \<open>Reading the attributes back\<close>

lemma attrs_effect_append:
  "attrs_effect (xs @ ys) st = (case attrs_effect xs st of None \<Rightarrow> None | Some st' \<Rightarrow> attrs_effect ys st')"
  by (induction xs arbitrary: st) (auto split: option.split)

lemma attrs_effect_opt: "attrs_effect (opt c a) st = (if c then attr_effect a st else Some st)"
  by (simp add: opt_def split: option.split)

lemma val_of_be [simp]: "val_of (byte4 (be32 w) 0) d = w" "val_of (byte8 (be64 x) 0) e = x"
  using b4.get_appended [where v = w and xs = "[]" and ys = "[]"]
    b8.get_appended [where v = x and xs = "[]" and ys = "[]"] by (simp_all add: val_of_def)

text \<open>A state before any MESSAGE-INTEGRITY or FINGERPRINT.\<close>

definition at :: "nat \<Rightarrow> StunPacket \<Rightarrow> ParseState" where
  "at n p = \<lparr>pos = n, has_mi = False, has_fp = False, fp_attr_pos = 0, fp_value = 0, pkt = p\<rparr>"

lemma effect_steps:
  "username q = [] \<Longrightarrow> username_padded_len p \<noteq> 0 \<longleftrightarrow> username p \<noteq> [] \<Longrightarrow>
    attrs_effect (opt (username_padded_len p \<noteq> 0) (A_USERNAME, username p, [])) (at n q) =
    Some (at (n + length (enc_attrs (opt (username_padded_len p \<noteq> 0) (A_USERNAME, username p, [])))) (q\<lparr>username := username p\<rparr>))"
  "priority q = 0 \<Longrightarrow>
    attrs_effect (opt (priority p \<noteq> 0) (A_PRIORITY, be32 (priority p), [])) (at n q) =
    Some (at (n + length (enc_attrs (opt (priority p \<noteq> 0) (A_PRIORITY, be32 (priority p), [])))) (q\<lparr>priority := priority p\<rparr>))"
  "ice_controlling q = 0 \<Longrightarrow>
    attrs_effect (opt (ice_controlling p \<noteq> 0) (A_ICE_CONTROLLING, be64 (ice_controlling p), [])) (at n q) =
    Some (at (n + length (enc_attrs (opt (ice_controlling p \<noteq> 0) (A_ICE_CONTROLLING, be64 (ice_controlling p), [])))) (q\<lparr>ice_controlling := ice_controlling p\<rparr>))"
  "ice_controlled q = 0 \<Longrightarrow>
    attrs_effect (opt (ice_controlled p \<noteq> 0) (A_ICE_CONTROLLED, be64 (ice_controlled p), [])) (at n q) =
    Some (at (n + length (enc_attrs (opt (ice_controlled p \<noteq> 0) (A_ICE_CONTROLLED, be64 (ice_controlled p), [])))) (q\<lparr>ice_controlled := ice_controlled p\<rparr>))"
  "\<not> has_use_candidate q \<Longrightarrow>
    attrs_effect (opt (has_use_candidate p) (A_USE_CANDIDATE, [], [])) (at n q) =
    Some (at (n + length (enc_attrs (opt (has_use_candidate p) (A_USE_CANDIDATE, [], [])))) (q\<lparr>has_use_candidate := has_use_candidate p\<rparr>))"
  "attrs_effect (opt c (A_XOR_MAPPED_ADDRESS, v, [])) (at n q) =
    Some (at (n + length (enc_attrs (opt c (A_XOR_MAPPED_ADDRESS, v, [])))) q)"
  by (auto simp: attrs_effect_opt enc_attrs_opt at_def attr_allowed_def attr_meaning_def)

lemma error_code_back:
  assumes "unat (error_code p) < 25600"
  shows "word_of_nat (unat (error_bytes p ! 2) * 100 + unat (error_bytes p ! 3)) = error_code p"
proof -
  let ?e = "unat (error_code p)"
  have c: "unat (word_of_nat (?e div 100) :: byte) = ?e div 100"
    using assms by (intro unat_of_nat_byte) linarith
  have "int ?e - int (?e div 100) * 100 = int (?e mod 100)"
    by (metis add_diff_cancel_left' div_mult_mod_eq of_nat_add of_nat_mult of_nat_numeral)
  then have n: "unat (word_of_int (int ?e - int (?e div 100) * 100) :: byte) = ?e mod 100"
    by (simp only: of_int_of_nat_eq) (simp del: of_nat_mod)
  have "error_bytes p ! 2 = word_of_nat (?e div 100)"
    "error_bytes p ! 3 = word_of_int (int ?e - int (unat (word_of_nat (?e div 100) :: byte)) * 100)"
    unfolding error_bytes_def Let_def by simp_all
  then have "unat (error_bytes p ! 2) = ?e div 100" "unat (error_bytes p ! 3) = ?e mod 100"
    by (simp_all only: c n)
  then have "word_of_nat (unat (error_bytes p ! 2) * 100 + unat (error_bytes p ! 3)) = (word_of_nat ?e :: u16)"
    by (simp only: div_mult_mod_eq)
  then show ?thesis by simp
qed

lemma effect_error:
  assumes "error_code q = 0" and "unat (error_code p) < 25600"
  shows "attrs_effect (opt (add_error_code p) (A_ERROR_CODE, error_bytes p, [])) (at n q) =
    Some (at (n + length (enc_attrs (opt (add_error_code p) (A_ERROR_CODE, error_bytes p, []))))
      (q\<lparr>error_code := if add_error_code p then error_code p else 0\<rparr>))"
  using assms error_code_back [OF assms(2)]
  by (auto simp: attrs_effect_opt enc_attrs_opt at_def attr_allowed_def attr_meaning_def simp del: of_nat_add of_nat_mult)

text \<open>The object \<open>Parse\<close> ends with.\<close>

definition read_back :: "(byte list \<Rightarrow> byte list \<Rightarrow> byte list) \<Rightarrow> StunPacket \<Rightarrow> StunPacket \<Rightarrow> StunPacket" where
  "read_back hmac p q =
     q\<lparr>username := username p, priority := priority p, ice_controlling := ice_controlling p,
       ice_controlled := ice_controlled p, has_use_candidate := has_use_candidate p,
       error_code := (if add_error_code p then error_code p else 0),
       message_integrity := (if add_message_integrity p then hmac (password p) (integrity_input p) else []),
       has_fingerprint := True, fingerprint := CRC32 (before_fingerprint hmac p) XOR 0x5354554e\<rparr>"

definition blank :: "StunPacket \<Rightarrow> bool" where
  "blank q \<longleftrightarrow> username q = [] \<and> priority q = 0 \<and> ice_controlling q = 0 \<and> ice_controlled q = 0 \<and>
     \<not> has_use_candidate q \<and> error_code q = 0 \<and> message_integrity q = []"

lemma packed_attrs_effect:
  assumes "blank q" and "length (username p) \<le> 65000" and "unat (error_code p) < 25600"
    and "\<And>k d. length (hmac k d) = 20"
  shows "\<exists>st. attrs_effect (packed_attrs hmac p) (at 20 q) = Some st \<and> pkt st = read_back hmac p q \<and> has_fp st \<and>
    fp_attr_pos st = 20 + length (enc_attrs (pack_attrs p @ integrity_attrs hmac p)) \<and>
    fp_value st = CRC32 (before_fingerprint hmac p) XOR 0x5354554e"
proof -
  note b = assms(1) [unfolded blank_def]
  define q1 where "q1 = q\<lparr>username := username p, priority := priority p, ice_controlling := ice_controlling p,
       ice_controlled := ice_controlled p, has_use_candidate := has_use_candidate p,
       error_code := (if add_error_code p then error_code p else 0)\<rparr>"
  have first: "attrs_effect (pack_attrs p) (at 20 q) = Some (at (20 + length (enc_attrs (pack_attrs p))) q1)"
    using b by (simp add: pack_attrs_def attrs_effect_append effect_steps(2-) effect_error assms(3)
        effect_steps(1) [OF _ username_padded_iff [OF assms(2)]] q1_def add.assoc)
  let ?mac = "hmac (password p) (integrity_input p)"
  let ?n = "20 + length (enc_attrs (pack_attrs p))"
  have "message_integrity q1 = []" using b by (simp add: q1_def)
  then have second: "attrs_effect (integrity_attrs hmac p) (at ?n q1) =
      Some ((at (?n + length (enc_attrs (integrity_attrs hmac p)))
        (q1\<lparr>message_integrity := if add_message_integrity p then ?mac else []\<rparr>))\<lparr>has_mi := add_message_integrity p\<rparr>)"
    using assms(4) by (simp add: integrity_attrs_def attrs_effect_opt enc_attrs_opt at_def attr_allowed_def attr_meaning_def)
  show ?thesis
    unfolding packed_attrs_def attrs_effect_append first second option.case
    by (simp add: at_def attr_allowed_def attr_meaning_def read_back_def q1_def)
qed

section \<open>The round trip\<close>

lemma header_bits:
  assumes "method p = BINDING"
  shows "(type_field p AND 0x000f) OR drop_bit 1 (type_field p AND 0x00e0) OR drop_bit 2 (type_field p AND 0x3E00) = BINDING"
    and "class_of (push_bit 1 (ucast ((ucast (drop_bit 8 (type_field p)) :: byte) AND 0x01)) OR
           drop_bit 4 (ucast ((ucast (type_field p) :: byte) AND 0x10))) = klass p"
    and "(ucast (drop_bit 8 (type_field p)) :: byte) < 3"
  by (cases "klass p"; simp add: type_field_def class_value_def class_of_def assms)+

lemma packed_IsStun:
  assumes "method p = BINDING" and "length (transaction_id p) = 12"
  shows "IsStun (packed hmac p)"
proof -
  let ?d = "packed hmac p"
  have d: "?d = stun_header (type_field p) (word_of_int (pack_size p - 20)) (transaction_id p) @ enc_attrs (packed_attrs hmac p)"
    by (simp add: packed_def)
  have "20 \<le> length ?d" using stun_header_length [OF assms(2)] by (simp add: packed_def)
  moreover have "?d ! 0 = ucast (drop_bit 8 (type_field p))" by (simp add: packed_def stun_header_def be16_def)
  moreover have "sub ?d 4 4 = magic_cookie" by (simp add: packed_def stun_header_def be16_def sub_def magic_cookie_def)
  ultimately show ?thesis
    using header_bits(3) [OF assms(1)] sub_four [of 4 ?d] by (simp add: IsStun_def) (metis list.sel nth_Cons_0 nth_Cons_Suc numeral_2_eq_2 numeral_3_eq_3)
qed

lemma packed_wf:
  assumes "length (username p) \<le> 65000" and "length (username p) mod 4 = 0" and "length (transaction_id p) = 12"
    and "addr_wf (xor_mapped_address p)" and "\<And>k d. length (hmac k d) = 20"
  shows "\<forall>a \<in> set (packed_attrs hmac p). attr_wf a"
  using assms length_xor_mapped [OF assms(4,3)]
  by (auto simp: packed_attrs_def pack_attrs_def integrity_attrs_def opt_def split: if_splits)

lemma packed_accepted:
  assumes "length (transaction_id p) = 12" and "addr_wf (xor_mapped_address p)" and "\<And>k d. length (hmac k d) = 20"
    and "method p = BINDING" and "length (username p) \<le> 65000" and "length (username p) mod 4 = 0"
    and "unat (error_code p) < 25600" and "blank this"
  defines "q \<equiv> header_packet this (packed hmac p) (type_field p) (transaction_id p)"
  shows "Parse this (packed hmac p) = Inr (0, read_back hmac p q)"
proof -
  let ?d = "packed hmac p"
  have size: "pack_size p = int (length ?d)" "length ?d \<le> 65200"
    using length_packed [OF assms(5,1,2), of hmac] assms(3,6) by (simp_all add: missing_padding_def)
  have "20 \<le> length ?d" using stun_header_length [OF assms(1)] by (simp add: packed_def)
  then have len: "word_of_int (pack_size p - 20) = (word_of_nat (length ?d - 20) :: u16)"
    by (simp add: size of_nat_diff)
  have "blank q" using assms(8) by (simp add: q_def blank_def header_packet_def)
  then obtain st where st: "attrs_effect (packed_attrs hmac p) (at 20 q) = Some st" "pkt st = read_back hmac p q" "has_fp st"
    "fp_attr_pos st = 20 + length (enc_attrs (pack_attrs p @ integrity_attrs hmac p))"
    "fp_value st = CRC32 (before_fingerprint hmac p) XOR 0x5354554e"
    using packed_attrs_effect [of q p hmac] assms(3,5,7) by blast
  have front: "take (fp_attr_pos st) ?d = before_fingerprint hmac p"
    using stun_header_length [OF assms(1)]
    by (simp add: st(4) packed_def packed_attrs_def before_fingerprint_def)
  have "accepted_as this ?d (type_field p) (transaction_id p) (packed_attrs hmac p) st"
    unfolding accepted_as_def
  proof (intro conjI)
    show "IsStun ?d" by (rule packed_IsStun [OF assms(4,1)])
    show "\<forall>a \<in> set (packed_attrs hmac p). attr_wf a" by (intro packed_wf assms)
    show "?d = stun_header (type_field p) (word_of_nat (length ?d - 20)) (transaction_id p) @ enc_attrs (packed_attrs hmac p)"
      unfolding len [symmetric] by (rule packed_def)
    show "attrs_effect (packed_attrs hmac p) (start_state (header_packet this ?d (type_field p) (transaction_id p))) = Some st"
      using st(1) by (simp add: q_def at_def start_state_def)
    show "fingerprint_ok ?d st" by (simp add: fingerprint_ok_def front st(5))
  qed (rule assms(1))
  then show ?thesis using accepted_Parse [of ?d] size(2) st(2) by simp
qed

section \<open>Properties\<close>

text \<open>C1. Packing and parsing are inverse: a Binding message whose USERNAME length is
  a multiple of four is packed into exactly \<open>pack_size\<close> bytes, which \<open>Parse\<close>
  accepts, with the same class, method, transaction id, USERNAME, PRIORITY, ICE
  role attributes and USE-CANDIDATE, the error code of an error response, the
  MESSAGE-INTEGRITY that \<open>HmacSha1\<close> computed, and a verified FINGERPRINT. Of
  \<open>HmacSha1\<close> only the length of its result, 20 bytes, is used.\<close>

theorem Parse_Pack:
  assumes "buf_inv b" and "content b = []" and "length (transaction_id p) = 12"
    and "addr_wf (xor_mapped_address p)" and "\<forall>k d. length (hmac k d) = 20"
    and "method p = BINDING" and "length (username p) \<le> 65000" and "length (username p) mod 4 = 0"
    and "unat (error_code p) < 25600"
  shows "\<exists>b' q. Pack hmac p b = Inr (p\<lparr>has_fingerprint := True\<rparr>, b') \<and> buf_inv b' \<and>
    readable_bytes b' = pack_size p \<and> Parse (StunPacket_new k m) (content b') = Inr (0, q) \<and>
    klass q = klass p \<and> method q = method p \<and> transaction_id q = transaction_id p \<and>
    username q = username p \<and> priority q = priority p \<and> ice_controlling q = ice_controlling p \<and>
    ice_controlled q = ice_controlled p \<and> has_use_candidate q = has_use_candidate p \<and> has_fingerprint q \<and>
    error_code q = (if add_error_code p then error_code p else 0) \<and>
    message_integrity q = (if add_message_integrity p then hmac (password p) (integrity_input p) else [])"
proof -
  have h: "\<And>k d. length (hmac k d) = 20" using assms(5) by blast
  obtain b' where b': "Pack hmac p b = Inr (p\<lparr>has_fingerprint := True\<rparr>, b')" "buf_inv b'" "content b' = packed hmac p"
    using Pack_packed [OF assms(1-4), of hmac] h by blast
  have "readable_bytes b' = pack_size p"
    using length_packed(1) [OF assms(7,3,4), of hmac] h length_content [OF b'(2)] b'(3) assms(8)
    by (simp add: missing_padding_def)
  moreover have "Parse (StunPacket_new k m) (content b') =
      Inr (0, read_back hmac p (header_packet (StunPacket_new k m) (packed hmac p) (type_field p) (transaction_id p)))"
    unfolding b'(3) by (rule packed_accepted) (use assms h in \<open>auto simp: blank_def StunPacket_new_def\<close>)
  ultimately show ?thesis using b'(1,2) header_bits(1,2) [OF assms(6)] assms(6)
    by (simp add: read_back_def header_packet_def)
qed

definition sample_message :: StunPacket where
  "sample_message = (StunPacket_new REQUEST BINDING)\<lparr>transaction_id := replicate 12 7, username := [1, 2, 3, 4],
     priority := 9, has_use_candidate := True, password := [5]\<rparr>"

definition fresh_buffer :: Buffer where
  "fresh_buffer = \<lparr>buffer = replicate 8 0, reader_index = 8, writer_index = 8\<rparr>"

lemma fresh_buffer_ok: "buf_inv fresh_buffer" "content fresh_buffer = []"
  by (simp_all add: fresh_buffer_def buf_inv_def buf_consts buf_getters content_def sub_def)

theorem Parse_Pack_witness:
  "\<exists>b' q. Pack (\<lambda>_ _. replicate 20 0) sample_message fresh_buffer = Inr (sample_message\<lparr>has_fingerprint := True\<rparr>, b') \<and>
     readable_bytes b' = pack_size sample_message \<and> Parse (StunPacket_new REQUEST 0) (content b') = Inr (0, q) \<and>
     username q = [1, 2, 3, 4] \<and> priority q = 9 \<and> has_use_candidate q \<and> message_integrity q = replicate 20 0"
proof -
  have "add_message_integrity sample_message"
    by (simp add: sample_message_def StunPacket_new_def add_message_integrity_def)
  moreover have "username sample_message = [1, 2, 3, 4]" "priority sample_message = 9" "has_use_candidate sample_message"
    "length (transaction_id sample_message) = 12" "addr_wf (xor_mapped_address sample_message)"
    "method sample_message = BINDING" "unat (error_code sample_message) < 25600"
    by (simp_all add: sample_message_def StunPacket_new_def addr_wf_def InetAddress_zero_def)
  ultimately show ?thesis
    using Parse_Pack [of fresh_buffer sample_message "\<lambda>_ _. replicate 20 0" REQUEST 0] fresh_buffer_ok by auto
qed

text \<open>\<open>Pack\<close> does not write the padding of USERNAME that it counts in the length
  field: when the length of a USERNAME is not a multiple of four, the packet is
  shorter than \<open>pack_size\<close> and \<open>Parse\<close> rejects it.\<close>

theorem Pack_unpadded_username_rejected:
  assumes "buf_inv b" and "content b = []" and "length (transaction_id p) = 12"
    and "addr_wf (xor_mapped_address p)" and "\<forall>k d. length (hmac k d) = 20"
    and "method p = BINDING" and "length (username p) \<le> 65000" and "length (username p) mod 4 \<noteq> 0"
  shows "\<exists>b' q. Pack hmac p b = Inr (p\<lparr>has_fingerprint := True\<rparr>, b') \<and>
    readable_bytes b' < pack_size p \<and> Parse this (content b') = Inr (-1, q)"
proof -
  have h: "\<And>k d. length (hmac k d) = 20" using assms(5) by blast
  let ?d = "packed hmac p"
  obtain b' where b': "Pack hmac p b = Inr (p\<lparr>has_fingerprint := True\<rparr>, b')" "buf_inv b'" "content b' = ?d"
    using Pack_packed [OF assms(1-4), of hmac] h by blast
  have pad: "missing_padding p \<noteq> 0" "missing_padding p < 4" "username p \<noteq> []"
    using assms(8) by (auto simp: missing_padding_def)
  have size: "pack_size p = int (length ?d) + int (missing_padding p)" "length ?d \<le> 65200"
    using length_packed [OF assms(7,3,4), of hmac] h pad(3) by simp_all
  have l20: "20 \<le> length ?d" using stun_header_length [OF assms(3)] by (simp add: packed_def)
  have "word_of_int (pack_size p - 20) = (word_of_nat (length ?d + missing_padding p - 20) :: u16)"
    using l20 by (simp add: size of_nat_diff)
  then have len: "unat (word_of_int (pack_size p - 20) :: u16) = length ?d + missing_padding p - 20"
    using size(2) pad(2) by (simp only: unat_of_nat_u16)
  then have ne: "unat (word_of_int (pack_size p - 20) :: u16) \<noteq> length ?d - 20" using pad(1) l20 by simp
  have "byte2 ?d 0 = Inr (type_field p)" "byte2 ?d 2 = Inr (word_of_int (pack_size p - 20))"
    using header_reads [OF packed_def assms(3)] by simp_all
  then have "Parse this ?d = Inr (-1, this\<lparr>packet := ?d\<rparr>)"
    using packed_IsStun [OF assms(6,3), of hmac] ne by (simp add: Parse_def Parse_fuel_def Let_def)
  moreover have "readable_bytes b' < pack_size p"
    using size(1) pad(1) length_content [OF b'(2)] b'(3) by simp
  ultimately show ?thesis using b'(1,3) by auto
qed

theorem Pack_unpadded_username_rejected_witness:
  "\<exists>b' q. Pack (\<lambda>_ _. replicate 20 0) (sample_message\<lparr>username := [1]\<rparr>) fresh_buffer =
      Inr (sample_message\<lparr>username := [1], has_fingerprint := True\<rparr>, b') \<and>
     readable_bytes b' < pack_size (sample_message\<lparr>username := [1]\<rparr>) \<and>
     Parse (StunPacket_new REQUEST 0) (content b') = Inr (-1, q)"
  using Pack_unpadded_username_rejected [of fresh_buffer "sample_message\<lparr>username := [1]\<rparr>"
      "\<lambda>_ _. replicate 20 0" "StunPacket_new REQUEST 0"] fresh_buffer_ok
  by (simp add: sample_message_def StunPacket_new_def addr_wf_def InetAddress_zero_def)

end
