(* ===== verification/Ice_Server.thy ===== *)
theory Ice_Server
  imports Stun_Roundtrip
begin

text \<open>
  \<open>webrtc/ice/ice_server.{h,cc}\<close>: the ICE-lite responder of a peer connection.
  It answers valid Binding Requests and becomes connected by a nomination. The
  address of the peer (\<open>pc_->addr()\<close>) is an argument; what \<open>pc_->AsyncSend\<close>
  sends is returned as a list of datagrams.
\<close>

datatype IceState = ICE_NEW | ICE_CONNECTED

record IceServer =
  ice_state :: IceState
  ice_password :: "byte list"
  ice_send_buf :: Buffer

definition IceServer_new :: "byte list \<Rightarrow> IceServer res" where
  "IceServer_new pw = fbind (Buffer_new kInitialSize) (\<lambda>b.
     Inr \<lparr>ice_state = ICE_NEW, ice_password = pw, ice_send_buf = b\<rparr>)"

definition is_connected :: "IceServer \<Rightarrow> bool" where
  "is_connected s \<longleftrightarrow> ice_state s = ICE_CONNECTED"

text \<open>\<open>k\<close> and \<open>m\<close> are the indeterminate \<open>klass_\<close> and \<open>method_\<close> of the local \<open>packet\<close>.\<close>

definition ProcessStunPacket ::
  "(byte list \<Rightarrow> byte list \<Rightarrow> byte list) \<Rightarrow> InetAddress \<Rightarrow> StunClass \<Rightarrow> u16 \<Rightarrow> IceServer \<Rightarrow> byte list \<Rightarrow>
     (IceServer \<times> byte list list) res" where
  "ProcessStunPacket hmac pc_addr k m s stun_packet =
     fbind (Parse (StunPacket_new k m) stun_packet) (\<lambda>(err, packet).
     if err \<noteq> 0 then Inr (s, [])
     else if method packet \<noteq> BINDING then Inr (s, [])
     else if \<not> has_fingerprint packet \<and> klass packet \<noteq> INDICATION then Inr (s, [])
     else case klass packet of
       REQUEST \<Rightarrow>
         if message_integrity packet = [] \<or> priority packet = 0 \<or> username packet = [] then Inr (s, [])
         else if ice_controlled packet \<noteq> 0 then Inr (s, [])
         else
           let rsp = (StunPacket_new SUCCESS_RESPONSE BINDING)\<lparr>
                       transaction_id := transaction_id packet,
                       xor_mapped_address := pc_addr,
                       password := ice_password s\<rparr> in
           fbind (Pack hmac rsp (TakeAll (ice_send_buf s))) (\<lambda>(_, buf).
           fbind (buf_slice buf) (\<lambda>out.
           Inr (s\<lparr>ice_send_buf := buf,
                  ice_state := (if has_use_candidate packet then ICE_CONNECTED else ice_state s)\<rparr>,
                [out])))
     | INDICATION \<Rightarrow> Inr (s, [])
     | SUCCESS_RESPONSE \<Rightarrow> Inr (s, [])
     | ERROR_RESPONSE \<Rightarrow> Inr (s, []))"

fun process_packets ::
  "(byte list \<Rightarrow> byte list \<Rightarrow> byte list) \<Rightarrow> InetAddress \<Rightarrow> StunClass \<Rightarrow> u16 \<Rightarrow> IceServer \<Rightarrow> byte list list \<Rightarrow>
     (IceServer \<times> byte list list) res" where
  "process_packets hmac a k m s [] = Inr (s, [])"
| "process_packets hmac a k m s (d # ds) =
     fbind (ProcessStunPacket hmac a k m s d) (\<lambda>(s, out).
     fbind (process_packets hmac a k m s ds) (\<lambda>(s, out'). Inr (s, out @ out')))"

section \<open>What the responder accepts\<close>

text \<open>A Binding Request as the comments of \<open>ProcessStunPacket\<close> ask for.\<close>

definition valid_request :: "StunPacket \<Rightarrow> bool" where
  "valid_request q \<longleftrightarrow>
     method q = BINDING \<and> klass q = REQUEST \<and> has_fingerprint q \<and> message_integrity q \<noteq> [] \<and>
     priority q \<noteq> 0 \<and> username q \<noteq> [] \<and> ice_controlled q = 0"

definition parsed :: "StunClass \<Rightarrow> u16 \<Rightarrow> byte list \<Rightarrow> StunPacket \<Rightarrow> bool" where
  "parsed k m data q \<longleftrightarrow> Parse (StunPacket_new k m) data = Inr (0, q)"

definition ice_inv :: "IceServer \<Rightarrow> bool" where
  "ice_inv s \<longleftrightarrow> buf_inv (ice_send_buf s)"

lemma attr_effect_tid: "attr_effect a st = Some st' \<Longrightarrow> transaction_id (pkt st') = transaction_id (pkt st)"
  by (cases a) (auto simp: attr_meaning_def split: if_splits)

lemma attrs_effect_tid: "attrs_effect as st = Some st' \<Longrightarrow> transaction_id (pkt st') = transaction_id (pkt st)"
  by (induction as arbitrary: st) (auto split: option.splits dest: attr_effect_tid)

lemma parsed_tid:
  assumes "length data < 65536" and "parsed k m data q"
  shows "length (transaction_id q) = 12"
proof -
  obtain ty tid as st where a: "accepted_as (StunPacket_new k m) data ty tid as st" "q = pkt st"
    using Parse_accepted assms unfolding parsed_def by metis
  then have "transaction_id q = tid" "length tid = 12"
    using attrs_effect_tid [of as _ st] by (auto simp: accepted_as_def start_state_def header_packet_def)
  then show ?thesis by simp
qed

definition response :: "InetAddress \<Rightarrow> byte list \<Rightarrow> byte list \<Rightarrow> StunPacket" where
  "response a pw tid = (StunPacket_new SUCCESS_RESPONSE BINDING)\<lparr>
     transaction_id := tid, xor_mapped_address := a, password := pw\<rparr>"

lemma response_Pack:
  assumes "ice_inv s" and "length tid = 12" and "addr_wf a" and "\<And>k d. length (hmac k d) = 20"
  obtains p buf where "Pack hmac (response a (ice_password s) tid) (TakeAll (ice_send_buf s)) = Inr (p, buf)"
    and "buf_inv buf" and "content buf = packed hmac (response a (ice_password s) tid)"
  using Pack_packed [of "TakeAll (ice_send_buf s)" "response a (ice_password s) tid" hmac] assms
  by (auto simp: ice_inv_def response_def)

lemma ProcessStunPacket_ignores:
  assumes "length data < 65536" and "\<not> (\<exists>q. parsed k m data q \<and> valid_request q)"
  shows "ProcessStunPacket hmac a k m s data = Inr (s, [])"
proof -
  obtain e p where p: "Parse (StunPacket_new k m) data = Inr (e, p)" "e = 0 \<or> e = -1"
    using Parse_cases [OF assms(1), of "StunPacket_new k m"] by auto
  have "\<not> valid_request p" if "e = 0" using that p(1) assms(2) by (simp add: parsed_def)
  then show ?thesis using p
    by (auto simp: ProcessStunPacket_def valid_request_def split: StunClass.split)
qed

lemma ProcessStunPacket_answers:
  assumes "length data < 65536" and "parsed k m data q" and "valid_request q" and "ice_inv s"
    and "addr_wf a" and "\<And>k d. length (hmac k d) = 20"
  obtains s' where "ProcessStunPacket hmac a k m s data =
      Inr (s', [packed hmac (response a (ice_password s) (transaction_id q))])"
    and "ice_inv s'" and "ice_password s' = ice_password s"
    and "ice_state s' = (if has_use_candidate q then ICE_CONNECTED else ice_state s)"
proof -
  have tid: "length (transaction_id q) = 12" by (rule parsed_tid [OF assms(1,2)])
  obtain p buf where pb: "Pack hmac (response a (ice_password s) (transaction_id q)) (TakeAll (ice_send_buf s)) = Inr (p, buf)"
    "buf_inv buf" "content buf = packed hmac (response a (ice_password s) (transaction_id q))"
    using response_Pack [OF assms(4) tid assms(5), of hmac] assms(6) by metis
  then have "ProcessStunPacket hmac a k m s data =
      Inr (s\<lparr>ice_send_buf := buf, ice_state := (if has_use_candidate q then ICE_CONNECTED else ice_state s)\<rparr>,
        [packed hmac (response a (ice_password s) (transaction_id q))])"
    using assms(2,3) pb(1) [unfolded response_def] buf_slice_content [OF pb(2)]
    by (simp add: ProcessStunPacket_def parsed_def valid_request_def Let_def)
  then show thesis by (rule that) (use pb(2) in \<open>auto simp: ice_inv_def\<close>)
qed

lemma response_fields:
  assumes "length tid = 12" and "addr_wf a" and "\<And>k d. length (hmac k d) = 20"
  shows "\<exists>q. Parse (StunPacket_new k m) (packed hmac (response a pw tid)) = Inr (0, q) \<and>
    klass q = SUCCESS_RESPONSE \<and> method q = BINDING \<and> transaction_id q = tid \<and> has_fingerprint q \<and>
    message_integrity q = (if pw \<noteq> [] then hmac pw (integrity_input (response a pw tid)) else [])"
proof -
  let ?p = "response a pw tid"
  have f: "length (transaction_id ?p) = 12" "addr_wf (xor_mapped_address ?p)" "method ?p = BINDING"
    "klass ?p = SUCCESS_RESPONSE" "length (username ?p) = 0" "error_code ?p = 0" "password ?p = pw"
    using assms by (simp_all add: response_def StunPacket_new_def)
  have "Parse (StunPacket_new k m) (packed hmac ?p) =
      Inr (0, read_back hmac ?p (header_packet (StunPacket_new k m) (packed hmac ?p) (type_field ?p) (transaction_id ?p)))"
    by (rule packed_accepted) (use f assms(3) in \<open>simp_all add: blank_def StunPacket_new_def\<close>)
  then show ?thesis using header_bits(1,2) [OF f(3)] f
    by (simp add: read_back_def header_packet_def add_message_integrity_def response_def)
qed

lemma xor_bytes_twice: "length c = length xs \<Longrightarrow> xor_bytes (xor_bytes xs c) c = xs"
proof (induction xs arbitrary: c)
  case (Cons x xs)
  then show ?case by (cases c) (auto simp: xor_bytes_def xor.assoc)
qed (simp add: xor_bytes_def)

lemma ice_step_connected:
  assumes "length d < 65536" and "ice_inv s" and "addr_wf a" and "\<And>k d. length (hmac k d) = 20"
  shows "\<exists>s1 out. ProcessStunPacket hmac a k m s d = Inr (s1, out) \<and> ice_inv s1 \<and>
    (is_connected s1 \<longleftrightarrow> is_connected s \<or> (\<exists>q. parsed k m d q \<and> valid_request q \<and> has_use_candidate q))"
proof (cases "\<exists>q. parsed k m d q \<and> valid_request q")
  case False
  then show ?thesis using ProcessStunPacket_ignores [OF assms(1), of k m hmac a s] assms(2) by auto
next
  case True
  then obtain q where q: "parsed k m d q" "valid_request q" by blast
  then have only: "parsed k m d q' \<longleftrightarrow> q' = q" for q' by (auto simp: parsed_def)
  obtain s1 where "ProcessStunPacket hmac a k m s d =
      Inr (s1, [packed hmac (response a (ice_password s) (transaction_id q))])" "ice_inv s1"
    "ice_state s1 = (if has_use_candidate q then ICE_CONNECTED else ice_state s)"
    using ProcessStunPacket_answers [OF assms(1) q assms(2,3), of hmac] assms(4) by metis
  then show ?thesis using q(2) by (auto simp: only is_connected_def)
qed

text \<open>A request that a browser could send, and the responder it reaches.\<close>

abbreviation sample_hmac :: "byte list \<Rightarrow> byte list \<Rightarrow> byte list" where
  "sample_hmac \<equiv> \<lambda>_ _. replicate 20 0"

definition sample_request :: "byte list" where
  "sample_request = packed sample_hmac sample_message"

definition sample_ice :: IceServer where
  "sample_ice = \<lparr>ice_state = ICE_NEW, ice_password = [7], ice_send_buf = fresh_buffer\<rparr>"

lemma sample_message_fields:
  "length (transaction_id sample_message) = 12" "addr_wf (xor_mapped_address sample_message)"
  "method sample_message = BINDING" "klass sample_message = REQUEST" "username sample_message = [1, 2, 3, 4]"
  "unat (error_code sample_message) < 25600" "priority sample_message = 9" "ice_controlled sample_message = 0"
  "has_use_candidate sample_message" "password sample_message = [5]"
  by (simp_all add: sample_message_def StunPacket_new_def addr_wf_def InetAddress_zero_def)

lemma sample_request_length: "length sample_request < 65536"
  using length_packed(2) [of sample_message sample_hmac] sample_message_fields by (simp add: sample_request_def)

lemma sample_request_valid: "\<exists>q. parsed REQUEST 0 sample_request q \<and> valid_request q \<and> has_use_candidate q"
proof -
  have "Parse (StunPacket_new REQUEST 0) sample_request =
      Inr (0, read_back sample_hmac sample_message (header_packet (StunPacket_new REQUEST 0) sample_request
        (type_field sample_message) (transaction_id sample_message)))"
    unfolding sample_request_def
    by (rule packed_accepted) (simp_all add: sample_message_fields blank_def StunPacket_new_def)
  then show ?thesis using header_bits(1,2) [OF sample_message_fields(3)]
    by (simp add: parsed_def valid_request_def read_back_def header_packet_def sample_message_fields add_message_integrity_def)
qed

lemma sample_ice_inv: "ice_inv sample_ice" "addr_wf InetAddress_zero"
  by (simp_all add: ice_inv_def sample_ice_def fresh_buffer_ok addr_wf_def InetAddress_zero_def)

section \<open>Properties\<close>

text \<open>C12. On every datagram the responder returns, and it answers exactly the valid
  Binding Requests. The answer is one Success Response that \<open>Parse\<close> accepts, with
  the transaction id of the request, a verified FINGERPRINT and, when a password
  is set, the MESSAGE-INTEGRITY computed with it; anything else is ignored and
  changes nothing.\<close>

theorem ice_answers_valid_requests:
  assumes "length data < 65536" and "ice_inv s" and "addr_wf a" and "\<forall>k d. length (hmac k d) = 20"
  shows "\<exists>s' out. ProcessStunPacket hmac a k m s data = Inr (s', out) \<and> ice_inv s' \<and>
    (if \<exists>q. parsed k m data q \<and> valid_request q
     then \<exists>q rsp r. parsed k m data q \<and> out = [rsp] \<and> Parse (StunPacket_new k' m') rsp = Inr (0, r) \<and>
       klass r = SUCCESS_RESPONSE \<and> method r = BINDING \<and> transaction_id r = transaction_id q \<and>
       has_fingerprint r \<and> (ice_password s \<noteq> [] \<longrightarrow> message_integrity r =
         hmac (ice_password s) (integrity_input (response a (ice_password s) (transaction_id q))))
     else s' = s \<and> out = [])"
proof (cases "\<exists>q. parsed k m data q \<and> valid_request q")
  case False
  then show ?thesis using ProcessStunPacket_ignores [OF assms(1), of k m hmac a s] assms(2) by simp
next
  case True
  then obtain q where q: "parsed k m data q" "valid_request q" by blast
  have h: "\<And>k d. length (hmac k d) = 20" using assms(4) by blast
  obtain s' where "ProcessStunPacket hmac a k m s data =
      Inr (s', [packed hmac (response a (ice_password s) (transaction_id q))])" "ice_inv s'"
    using ProcessStunPacket_answers [OF assms(1) q assms(2,3), of hmac] h by metis
  then show ?thesis using True q(1)
      response_fields [OF parsed_tid [OF assms(1) q(1)] assms(3), of hmac k' m' "ice_password s"] h by auto
qed

theorem ice_answers_valid_requests_witness:
  "\<exists>s' rsp r. ProcessStunPacket sample_hmac InetAddress_zero REQUEST 0 sample_ice sample_request = Inr (s', [rsp]) \<and>
     Parse (StunPacket_new REQUEST 0) rsp = Inr (0, r) \<and> klass r = SUCCESS_RESPONSE \<and> message_integrity r = replicate 20 0"
proof -
  have "\<exists>q. parsed REQUEST 0 sample_request q \<and> valid_request q" using sample_request_valid by blast
  moreover have "ice_password sample_ice \<noteq> []" by (simp add: sample_ice_def)
  ultimately show ?thesis
    using ice_answers_valid_requests [of sample_request sample_ice InetAddress_zero sample_hmac REQUEST 0 REQUEST 0]
      sample_request_length sample_ice_inv by auto
qed

text \<open>C11. Over any sequence of datagrams, a new responder is connected at the end
  exactly when one of them was a valid Binding Request with USE-CANDIDATE; once
  connected it stays so.\<close>

theorem ice_connected_iff_nominated:
  assumes "\<forall>d \<in> set ds. length d < 65536" and "ice_inv s" and "addr_wf a" and "\<forall>k d. length (hmac k d) = 20"
  shows "\<exists>s' out. process_packets hmac a k m s ds = Inr (s', out) \<and> ice_inv s' \<and>
    (is_connected s' \<longleftrightarrow>
       is_connected s \<or> (\<exists>d \<in> set ds. \<exists>q. parsed k m d q \<and> valid_request q \<and> has_use_candidate q))"
  using assms(1,2)
proof (induction ds arbitrary: s)
  case (Cons d ds)
  have h: "\<And>k d. length (hmac k d) = 20" using assms(4) by blast
  have d: "length d < 65536" using Cons.prems(1) by simp
  have "\<exists>s1 out. ProcessStunPacket hmac a k m s d = Inr (s1, out) \<and> ice_inv s1 \<and>
      (is_connected s1 \<longleftrightarrow> is_connected s \<or> (\<exists>q. parsed k m d q \<and> valid_request q \<and> has_use_candidate q))"
    by (rule ice_step_connected [OF d Cons.prems(2) assms(3) h])
  then obtain s1 out where s1: "ProcessStunPacket hmac a k m s d = Inr (s1, out)" "ice_inv s1"
    "is_connected s1 \<longleftrightarrow> is_connected s \<or> (\<exists>q. parsed k m d q \<and> valid_request q \<and> has_use_candidate q)" by blast
  then show ?case using Cons.IH [OF _ s1(2)] Cons.prems(1) by auto
qed simp

theorem ice_connected_iff_nominated_witness:
  "\<exists>s' out. process_packets sample_hmac InetAddress_zero REQUEST 0 sample_ice [[1, 2], sample_request] = Inr (s', out) \<and>
     is_connected s'"
  using ice_connected_iff_nominated [of "[[1, 2], sample_request]" sample_ice InetAddress_zero sample_hmac REQUEST 0]
    sample_request_length sample_request_valid sample_ice_inv by auto

end
