(* ===== verification/String_Piece.thy ===== *)
theory String_Piece
  imports Baize_Prelude "HOL-Library.List_Lexorder"
begin

text \<open>
  \<open>kernel/util/string_piece.{h,cc}\<close>: the view of a range of characters. A view
  is the object it points into, the offset of its first character and its
  length; a \<open>const char*\<close> into the same object is an offset. The views that lie
  inside their object are those of the form \<open>vw pre bs post\<close>: the bytes \<open>bs\<close>
  between \<open>pre\<close> and \<open>post\<close>; on them every operation is computed by a list
  function.
\<close>

section \<open>The code\<close>

record StringPiece =
  sp_obj :: "byte list"
  sp_ptr :: int
  sp_length :: int

definition SP_empty :: StringPiece where
  "SP_empty = \<lparr>sp_obj = [], sp_ptr = 0, sp_length = 0\<rparr>"

text \<open>\<open>StringPiece(const string&)\<close>: a view of the whole string.\<close>

definition SP_string :: "byte list \<Rightarrow> StringPiece" where
  "SP_string s = \<lparr>sp_obj = s, sp_ptr = 0, sp_length = int (length s)\<rparr>"

text \<open>\<open>StringPiece(const char*)\<close>: up to the first null character, which the object must contain.\<close>

definition SP_cstr :: "byte list \<Rightarrow> StringPiece res" where
  "SP_cstr m =
     (if 0 \<in> set m then Inr \<lparr>sp_obj = m, sp_ptr = 0, sp_length = int (length (takeWhile (\<lambda>c. c \<noteq> 0) m))\<rparr>
      else Inl OutOfBounds)"

text \<open>A string literal converted to a view.\<close>

definition lit :: "byte list \<Rightarrow> StringPiece" where
  "lit s = \<lparr>sp_obj = s @ [0], sp_ptr = 0, sp_length = int (length s)\<rparr>"

definition SP_range :: "byte list \<Rightarrow> int \<Rightarrow> int \<Rightarrow> StringPiece" where
  "SP_range m offset len = \<lparr>sp_obj = m, sp_ptr = offset, sp_length = len\<rparr>"

definition SP_between :: "byte list \<Rightarrow> int \<Rightarrow> int \<Rightarrow> StringPiece res" where
  "SP_between m b e =
     fbind (assert_that (0 \<le> e - b)) (\<lambda>_. Inr \<lparr>sp_obj = m, sp_ptr = b, sp_length = e - b\<rparr>)"

definition sp_empty :: "StringPiece \<Rightarrow> bool" where
  "sp_empty s \<longleftrightarrow> sp_length s = 0"

definition sp_begin :: "StringPiece \<Rightarrow> int" where
  "sp_begin s = sp_ptr s"

definition sp_end :: "StringPiece \<Rightarrow> int" where
  "sp_end s = sp_ptr s + sp_length s"

text \<open>The characters of the view, as an algorithm over \<open>[begin(), end())\<close> reads them.\<close>

definition AsString :: "StringPiece \<Rightarrow> byte list res" where
  "AsString s = mem_get (sp_obj s) (sp_begin s) (sp_end s)"

definition sp_at :: "StringPiece \<Rightarrow> int \<Rightarrow> byte res" where
  "sp_at s i = (if 0 \<le> sp_ptr s + i then rd (sp_obj s) (nat (sp_ptr s + i)) else Inl OutOfBounds)"

text \<open>\<open>std::search\<close>: the offset of the first occurrence, the length when there is none.\<close>

fun search_index :: "'a list \<Rightarrow> 'a list \<Rightarrow> nat" where
  "search_index p [] = 0"
| "search_index p (x # xs) = (if prefix p (x # xs) then 0 else Suc (search_index p xs))"

definition Find_char :: "StringPiece \<Rightarrow> byte \<Rightarrow> int res" where
  "Find_char s ch =
     fbind (AsString s) (\<lambda>bs. Inr (sp_begin s + int (length (takeWhile (\<lambda>c. c \<noteq> ch) bs))))"

definition Find_slice :: "StringPiece \<Rightarrow> StringPiece \<Rightarrow> int res" where
  "Find_slice s sep =
     fbind (AsString s) (\<lambda>bs. fbind (AsString sep) (\<lambda>p. Inr (sp_begin s + int (search_index p bs))))"

definition RemoveSuffix :: "StringPiece \<Rightarrow> int \<Rightarrow> StringPiece" where
  "RemoveSuffix s n = s\<lparr>sp_length := sp_length s - n\<rparr>"

definition RemovePrefix :: "StringPiece \<Rightarrow> int \<Rightarrow> StringPiece" where
  "RemovePrefix s n = s\<lparr>sp_ptr := sp_ptr s + n, sp_length := sp_length s - n\<rparr>"

definition RemovePrefixUntil :: "StringPiece \<Rightarrow> int \<Rightarrow> StringPiece res" where
  "RemovePrefixUntil s pos =
     fbind (assert_that (sp_begin s \<le> pos)) (\<lambda>_. fbind (assert_that (pos \<le> sp_end s)) (\<lambda>_.
       Inr (RemovePrefix s (pos - sp_begin s))))"

definition RemoveSuffixUntil :: "StringPiece \<Rightarrow> int \<Rightarrow> StringPiece res" where
  "RemoveSuffixUntil s pos =
     fbind (assert_that (sp_begin s \<le> pos)) (\<lambda>_. fbind (assert_that (pos \<le> sp_end s)) (\<lambda>_.
       Inr (RemoveSuffix s (sp_end s - pos))))"

text \<open>\<open>isspace\<close> and \<open>isdigit\<close> of the C locale.\<close>

definition isspace :: "byte \<Rightarrow> bool" where
  "isspace c \<longleftrightarrow> c = 0x20 \<or> (0x09 \<le> c \<and> c \<le> 0x0D)"

definition isdigit :: "byte \<Rightarrow> bool" where
  "isdigit c \<longleftrightarrow> 0x30 \<le> c \<and> c \<le> 0x39"

text \<open>The two loops of \<open>TrimSpace\<close>; \<open>pos\<close> follows \<open>begin()\<close> in the first and \<open>end() - 1\<close> in the second.\<close>

function trim_front :: "StringPiece \<Rightarrow> StringPiece res" where
  "trim_front s =
     (if 0 < sp_length s then
        fbind (sp_at s 0) (\<lambda>c. if isspace c then trim_front (RemovePrefix s 1) else Inr s)
      else Inr s)"
  by pat_completeness auto
termination
  by (relation "measure (\<lambda>s. nat (sp_length s))") (auto simp: RemovePrefix_def)

function trim_back :: "StringPiece \<Rightarrow> StringPiece res" where
  "trim_back s =
     (if 0 < sp_length s then
        fbind (sp_at s (sp_length s - 1)) (\<lambda>c. if isspace c then trim_back (RemoveSuffix s 1) else Inr s)
      else Inr s)"
  by pat_completeness auto
termination
  by (relation "measure (\<lambda>s. nat (sp_length s))") (auto simp: RemoveSuffix_def)

definition TrimSpace :: "StringPiece \<Rightarrow> StringPiece res" where
  "TrimSpace s = fbind (trim_front s) trim_back"

text \<open>
  The loop of the two \<open>Split\<close> functions: \<open>fnd\<close> locates the separator in \<open>tmp\<close>,
  \<open>n\<close> is its length and \<open>e\<close> the end of the whole view. With an empty separator
  the loop does not advance, hence the fuel.
\<close>

fun split_loop :: "nat \<Rightarrow> (StringPiece \<Rightarrow> int res) \<Rightarrow> int \<Rightarrow> int \<Rightarrow> StringPiece \<Rightarrow> StringPiece list res" where
  "split_loop 0 fnd n e tmp = Inl Diverge"
| "split_loop (Suc fuel) fnd n e tmp =
     (if sp_empty tmp then Inr []
      else fbind (fnd tmp) (\<lambda>pos.
           fbind (SP_between (sp_obj tmp) (sp_begin tmp) pos) (\<lambda>piece.
           let tmp' = RemovePrefix tmp (if pos = e then pos - sp_begin tmp else pos - sp_begin tmp + n) in
           fbind (split_loop fuel fnd n e tmp') (\<lambda>rest.
           Inr (if sp_empty piece then rest else piece # rest)))))"

definition Split_char :: "StringPiece \<Rightarrow> byte \<Rightarrow> StringPiece list res" where
  "Split_char s ch =
     fbind (SP_between (sp_obj s) (sp_begin s) (sp_end s)) (\<lambda>tmp.
       split_loop (Suc (nat (sp_length s))) (\<lambda>t. Find_char t ch) 1 (sp_end s) tmp)"

definition Split_slice_fuel :: "nat \<Rightarrow> StringPiece \<Rightarrow> StringPiece \<Rightarrow> StringPiece list res" where
  "Split_slice_fuel fuel s sep =
     fbind (SP_between (sp_obj s) (sp_begin s) (sp_end s)) (\<lambda>tmp.
       split_loop fuel (\<lambda>t. Find_slice t sep) (sp_length sep) (sp_end s) tmp)"

definition Split_slice :: "StringPiece \<Rightarrow> StringPiece \<Rightarrow> StringPiece list res" where
  "Split_slice s sep = Split_slice_fuel (Suc (nat (sp_length s))) s sep"

definition SliceFragment :: "StringPiece \<Rightarrow> StringPiece \<Rightarrow> StringPiece \<Rightarrow> StringPiece res" where
  "SliceFragment s first lst =
     fbind (Find_slice s first) (\<lambda>pos_begin.
     if pos_begin = sp_end s then Inr SP_empty
     else fbind (SP_between (sp_obj s) (pos_begin + sp_length first) (sp_end s)) (\<lambda>fragment.
          fbind (Find_slice fragment lst) (\<lambda>pos_end.
          if pos_end = sp_end fragment then Inr SP_empty
          else RemoveSuffixUntil fragment pos_end)))"

text \<open>The loop of \<open>ParseInt\<close> over the characters left; \<open>int\<close> overflow has no value.\<close>

fun parse_digits :: "byte list \<Rightarrow> int \<Rightarrow> nat \<Rightarrow> (int \<times> nat) res" where
  "parse_digits [] number n = Inr (number, n)"
| "parse_digits (c # cs) number n =
     (if isdigit c then
        let number' = number * 10 + (int (unat c) - 0x30) in
        if number' \<le> INT_MAX then parse_digits cs number' (Suc n) else Inl SignedOverflow
      else Inr (number, n))"

text \<open>Result: the returned position and the value of the reference argument afterwards.\<close>

definition ParseInt :: "StringPiece \<Rightarrow> int \<Rightarrow> (int \<times> int) res" where
  "ParseInt s num =
     fbind (AsString s) (\<lambda>bs. fbind (parse_digits bs 0 0) (\<lambda>(number, n).
       Inr (if n = 0 then (sp_begin s, num) else (sp_begin s + int n, number))))"

text \<open>\<open>memcmp\<close> compares as unsigned characters; the sign of its result is what matters.\<close>

fun memcmp :: "byte list \<Rightarrow> byte list \<Rightarrow> int" where
  "memcmp (x # xs) (y # ys) = (if x < y then -1 else if y < x then 1 else memcmp xs ys)"
| "memcmp _ _ = 0"

definition mem_first :: "StringPiece \<Rightarrow> int \<Rightarrow> byte list res" where
  "mem_first s n = mem_get (sp_obj s) (sp_ptr s) (sp_ptr s + n)"

definition StartsWith :: "StringPiece \<Rightarrow> StringPiece \<Rightarrow> bool res" where
  "StartsWith s x =
     (if sp_length x \<le> sp_length s then
        fbind (mem_first s (sp_length x)) (\<lambda>a. fbind (mem_first x (sp_length x)) (\<lambda>b. Inr (memcmp a b = 0)))
      else Inr False)"

definition sp_eq :: "StringPiece \<Rightarrow> StringPiece \<Rightarrow> bool res" where
  "sp_eq s x =
     (if sp_length s = sp_length x then
        fbind (mem_first s (sp_length s)) (\<lambda>a. fbind (mem_first x (sp_length s)) (\<lambda>b. Inr (memcmp a b = 0)))
      else Inr False)"

text \<open>The comparison macro, with the comparison of the result of \<open>memcmp\<close> and that of the lengths.\<close>

definition sp_compare :: "(int \<Rightarrow> int \<Rightarrow> bool) \<Rightarrow> (int \<Rightarrow> int \<Rightarrow> bool) \<Rightarrow> StringPiece \<Rightarrow> StringPiece \<Rightarrow> bool res" where
  "sp_compare auxcmp cmp s x =
     (let n = (if sp_length s < sp_length x then sp_length s else sp_length x) in
      fbind (mem_first s n) (\<lambda>a. fbind (mem_first x n) (\<lambda>b.
        let r = memcmp a b in Inr (auxcmp r 0 \<or> (r = 0 \<and> cmp (sp_length s) (sp_length x))))))"

definition sp_less :: "StringPiece \<Rightarrow> StringPiece \<Rightarrow> bool res" where
  "sp_less = sp_compare (<) (<)"

definition sp_less_eq :: "StringPiece \<Rightarrow> StringPiece \<Rightarrow> bool res" where
  "sp_less_eq = sp_compare (<) (\<le>)"

definition sp_greater_eq :: "StringPiece \<Rightarrow> StringPiece \<Rightarrow> bool res" where
  "sp_greater_eq = sp_compare (>) (\<ge>)"

definition sp_greater :: "StringPiece \<Rightarrow> StringPiece \<Rightarrow> bool res" where
  "sp_greater = sp_compare (>) (>)"

definition sp_swap :: "StringPiece \<times> StringPiece \<Rightarrow> StringPiece \<times> StringPiece" where
  "sp_swap = (\<lambda>(l, r). (r, l))"

section \<open>Views inside their object\<close>

definition vw :: "byte list \<Rightarrow> byte list \<Rightarrow> byte list \<Rightarrow> StringPiece" where
  "vw pre bs post = \<lparr>sp_obj = pre @ bs @ post, sp_ptr = int (length pre), sp_length = int (length bs)\<rparr>"

definition sp_shows :: "StringPiece \<Rightarrow> byte list \<Rightarrow> bool" where
  "sp_shows s bs \<longleftrightarrow> (\<exists>pre post. s = vw pre bs post)"

text \<open>The pieces between separators, by the position of the first one.\<close>

function split_on :: "'a list \<Rightarrow> 'a list \<Rightarrow> 'a list list" where
  "split_on p xs =
     (if xs = [] \<or> p = [] then []
      else let n = search_index p xs; rest = split_on p (drop (n + length p) xs) in
           if n = 0 then rest else take n xs # rest)"
  by pat_completeness auto
termination
  by (relation "measure (\<lambda>(p, xs). length xs)") auto

declare split_on.simps [simp del]

text \<open>All the fields of a list, empty ones included, by structural recursion.\<close>

fun flds :: "'a \<Rightarrow> 'a list \<Rightarrow> 'a list list" where
  "flds ch [] = [[]]"
| "flds ch (c # cs) =
     (if c = ch then [] # flds ch cs else (c # hd (flds ch cs)) # tl (flds ch cs))"

definition fragment :: "'a list \<Rightarrow> 'a list \<Rightarrow> 'a list \<Rightarrow> 'a list" where
  "fragment first lst xs =
     (let n = search_index first xs; ys = drop (n + length first) xs; k = search_index lst ys in
      if n = length xs \<or> k = length ys then [] else take k ys)"

definition trim :: "byte list \<Rightarrow> byte list" where
  "trim bs = rev (dropWhile isspace (rev (dropWhile isspace bs)))"

subsection \<open>Searching\<close>

lemma search_index_le: "search_index p xs \<le> length xs"
  by (induction xs) auto

lemma search_index_found: "search_index p xs < length xs \<Longrightarrow> prefix p (drop (search_index p xs) xs)"
  by (induction xs) (auto split: if_splits)

lemma search_index_first: "i < search_index p xs \<Longrightarrow> \<not> prefix p (drop i xs)"
proof (induction xs arbitrary: i)
  case (Cons x xs)
  then show ?case by (cases i) (auto split: if_splits)
qed simp

lemma search_index_eqI:
  assumes "\<And>i. i < n \<Longrightarrow> \<not> prefix p (drop i xs)" "prefix p (drop n xs)" "n < length xs"
  shows "search_index p xs = n"
proof (rule ccontr)
  assume ne: "search_index p xs \<noteq> n"
  show False
  proof (cases "search_index p xs < n")
    case True
    then show False using assms search_index_found [of p xs] by simp
  next
    case False
    then show False using ne assms search_index_first [of n p xs] by simp
  qed
qed

lemma search_index_none_iff:
  "p \<noteq> [] \<Longrightarrow> search_index p xs = length xs \<longleftrightarrow> \<not> sublist p xs"
  by (induction xs) (auto simp: sublist_Cons_right)

lemma search_index_fits: "search_index p xs < length xs \<Longrightarrow> search_index p xs + length p \<le> length xs"
  using search_index_found [of p xs] by (auto dest: prefix_length_le)

lemma search_index_split:
  "search_index p xs < length xs \<Longrightarrow>
     xs = take (search_index p xs) xs @ p @ drop (search_index p xs + length p) xs"
  using search_index_found [of p xs]
  by (auto simp: prefix_def) (metis append_eq_conv_conj append_take_drop_id drop_drop add.commute)

lemma search_index_head: "p \<noteq> [] \<Longrightarrow> hd p \<notin> set a \<Longrightarrow> search_index p (a @ p @ b) = length a"
proof (induction a)
  case Nil
  then show ?case by (cases p) auto
next
  case (Cons x a)
  then show ?case by (cases p) auto
qed

lemma search_index_absent: "p \<noteq> [] \<Longrightarrow> hd p \<notin> set a \<Longrightarrow> search_index p a = length a"
  by (induction a) (cases p; auto)+

lemma search_index_single: "search_index [c] xs = length (takeWhile (\<lambda>x. x \<noteq> c) xs)"
  by (induction xs) auto

lemma search_index_prefix:
  assumes "prefix a xs" "q \<noteq> []" "length a < search_index q xs + length q"
  shows "search_index q a = length a"
proof (rule ccontr)
  assume "search_index q a \<noteq> length a"
  then have i: "search_index q a < length a" using search_index_le [of q a] by simp
  obtain z where z: "xs = a @ z" using assms(1) by (auto simp: prefix_def)
  have "prefix q (drop (search_index q a) xs)"
    using search_index_found [OF i] i by (simp add: z prefix_prefix)
  then have "\<not> search_index q a < search_index q xs" using search_index_first by blast
  with search_index_fits [OF i] assms(3) show False by linarith
qed

lemma strict_prefix_append_split:
  assumes "strict_prefix xs (h @ b)" "\<not> length xs < length h"
  shows "\<exists>c. xs = h @ c \<and> strict_prefix c b"
proof -
  obtain z zs where z: "h @ b = xs @ z # zs" using assms(1) by (rule strict_prefixE')
  have "xs = h @ drop (length h) xs"
    using z assms(2) by (metis append_eq_append_conv_if append_take_drop_id not_less)
  moreover from this z have "b = drop (length h) xs @ z # zs"
    by (metis append_assoc same_append_eq)
  ultimately show ?thesis by (metis strict_prefixI')
qed

lemma prefix_sep: "c \<notin> set p \<Longrightarrow> prefix p (a @ c # b) \<longleftrightarrow> prefix p a"
  by (auto simp: prefix_append prefix_Cons)

lemma search_index_sep:
  assumes "c \<notin> set p" "p \<noteq> []"
  shows "search_index p (a @ c # b) =
    (if search_index p a = length a then Suc (length a) + search_index p b else search_index p a)"
proof (induction a)
  case Nil
  then show ?case using assms prefix_sep [of c p "[]" b] by simp
next
  case (Cons x a)
  then show ?case using prefix_sep [OF assms(1), of "x # a" b] by simp
qed

lemma sublist_sep:
  assumes "c \<notin> set p"
  shows "sublist p (a @ c # b) \<longleftrightarrow> sublist p a \<or> sublist p b"
proof -
  have "sublist p (c # b) \<longleftrightarrow> p = [] \<or> sublist p b"
    using assms by (auto simp: sublist_Cons_right prefix_Cons)
  then show ?thesis
    using assms by (auto simp: sublist_append prefix_Cons)
qed

subsection \<open>The operations on such views\<close>

named_theorems vw_simps \<open>the operations of a view computed on the bytes it shows\<close>

lemma vw_sel [vw_simps]:
  "sp_obj (vw pre bs post) = pre @ bs @ post"
  "sp_ptr (vw pre bs post) = int (length pre)"
  "sp_length (vw pre bs post) = int (length bs)"
  "sp_begin (vw pre bs post) = int (length pre)"
  "sp_end (vw pre bs post) = int (length pre + length bs)"
  "sp_empty (vw pre bs post) \<longleftrightarrow> bs = []"
  by (simp_all add: vw_def sp_begin_def sp_end_def sp_empty_def)

lemma mem_get_inside:
  "m = a @ b @ c \<Longrightarrow> i = int (length a) \<Longrightarrow> j = int (length a + length b) \<Longrightarrow> mem_get m i j = Inr b"
  by (simp add: mem_get_def sub_def nat_add_distrib)

lemma AsString_vw [vw_simps]: "AsString (vw pre bs post) = Inr bs"
  unfolding AsString_def by (rule mem_get_inside) (simp_all add: vw_simps)

lemma SP_string_vw: "SP_string bs = vw [] bs []"
  by (simp add: SP_string_def vw_def)

lemma SP_cstr_vw: "0 \<notin> set bs \<Longrightarrow> SP_cstr (bs @ [0]) = Inr (vw [] bs [0])"
  by (simp add: SP_cstr_def vw_def) (metis (mono_tags, lifting) takeWhile_append2 takeWhile.simps append_Nil2)

lemma lit_vw: "lit bs = vw [] bs [0]"
  by (simp add: lit_def vw_def)

lemma lit_SP_cstr: "0 \<notin> set bs \<Longrightarrow> SP_cstr (bs @ [0]) = Inr (lit bs)"
  by (simp add: SP_cstr_vw lit_vw)

lemma shows_lit [simp]: "sp_shows (lit bs) bs"
  unfolding lit_vw sp_shows_def by blast

lemma shows_vw [simp]: "sp_shows (vw pre bs post) bs"
  unfolding sp_shows_def by blast

lemma Find_slice_vw [vw_simps]:
  "Find_slice (vw pre bs post) (vw a p b) = Inr (int (length pre + search_index p bs))"
  by (simp add: Find_slice_def vw_simps)

lemma Find_lit_vw [vw_simps]:
  "Find_slice (vw pre bs post) (lit p) = Inr (int (length pre + search_index p bs))"
  by (simp add: lit_vw Find_slice_vw)

lemma Find_char_vw [vw_simps]:
  "Find_char (vw pre bs post) ch = Inr (int (length pre + search_index [ch] bs))"
  by (simp add: Find_char_def vw_simps search_index_single)

lemma RemovePrefix_vw:
  "n = int (length a) \<Longrightarrow> RemovePrefix (vw pre (a @ b) post) n = vw (pre @ a) b post"
  by (simp add: RemovePrefix_def vw_def)

lemma RemoveSuffix_vw:
  "n = int (length b) \<Longrightarrow> RemoveSuffix (vw pre (a @ b) post) n = vw pre a (b @ post)"
  by (simp add: RemoveSuffix_def vw_def)

lemma RemovePrefix_drop:
  "k \<le> length bs \<Longrightarrow> RemovePrefix (vw pre bs post) (int k) = vw (pre @ take k bs) (drop k bs) post"
  using RemovePrefix_vw [of "int k" "take k bs" pre "drop k bs" post] by simp

lemma RemovePrefixUntil_vw:
  "k \<le> length bs \<Longrightarrow>
     RemovePrefixUntil (vw pre bs post) (int (length pre + k)) = Inr (vw (pre @ take k bs) (drop k bs) post)"
  by (simp add: RemovePrefixUntil_def vw_simps assert_that_def RemovePrefix_drop)

lemma RemoveSuffixUntil_vw:
  assumes "k \<le> length bs"
  shows "RemoveSuffixUntil (vw pre bs post) (int (length pre + k)) = Inr (vw pre (take k bs) (drop k bs @ post))"
proof -
  have "RemoveSuffix (vw pre (take k bs @ drop k bs) post) (int (length bs) - int k) = vw pre (take k bs) (drop k bs @ post)"
    using assms by (intro RemoveSuffix_vw) simp
  with assms show ?thesis
    by (simp add: RemoveSuffixUntil_def vw_simps assert_that_def)
qed

lemma SP_between_vw:
  assumes "i \<le> j" "j \<le> length bs"
  shows "SP_between (pre @ bs @ post) (int (length pre + i)) (int (length pre + j)) =
    Inr (vw (pre @ take i bs) (take (j - i) (drop i bs)) (drop j bs @ post))"
proof -
  have "bs = take i bs @ take (j - i) (drop i bs) @ drop j bs"
    using assms by (metis append_take_drop_id drop_drop le_add_diff_inverse2)
  with assms show ?thesis
    by (simp add: SP_between_def assert_that_def vw_def)
qed

lemma SP_between_whole:
  "SP_between (pre @ bs @ post) (int (length pre)) (int (length pre + length bs)) = Inr (vw pre bs post)"
  using SP_between_vw [of 0 "length bs" bs pre post] by simp

lemma SP_between_eq:
  "m = a @ b @ c \<Longrightarrow> i = int (length a) \<Longrightarrow> j = int (length a + length b) \<Longrightarrow> SP_between m i j = Inr (vw a b c)"
  using SP_between_whole [of a b c] by simp

lemma RemovePrefixUntil_eq:
  "bs = a @ b \<Longrightarrow> i = int (length pre + length a) \<Longrightarrow> RemovePrefixUntil (vw pre bs post) i = Inr (vw (pre @ a) b post)"
  using RemovePrefixUntil_vw [of "length a" bs pre post] by simp

lemma RemoveSuffixUntil_eq:
  "bs = a @ b \<Longrightarrow> i = int (length pre + length a) \<Longrightarrow> RemoveSuffixUntil (vw pre bs post) i = Inr (vw pre a (b @ post))"
  using RemoveSuffixUntil_vw [of "length a" bs pre post] by simp

lemma sp_at_vw: "i < length bs \<Longrightarrow> sp_at (vw pre bs post) (int i) = Inr (bs ! i)"
  by (simp add: sp_at_def vw_simps rd_def nth_append nat_add_distrib)

lemma Find_slice_bounds:
  "Find_slice s x = Inr p \<Longrightarrow> sp_begin s \<le> p \<and> 0 \<le> sp_length s"
  by (auto simp: Find_slice_def AsString_def mem_get_def sp_begin_def sp_end_def fbind_Inr_iff split: if_splits)

lemma RemovePrefixUntil_bounds:
  "RemovePrefixUntil s p = Inr s' \<Longrightarrow> sp_length s' = sp_length s - (p - sp_begin s) \<and> 0 \<le> sp_length s'"
  by (auto simp: RemovePrefixUntil_def RemovePrefix_def assert_that_def sp_begin_def sp_end_def fbind_Inr_iff split: if_splits)

subsection \<open>Trimming\<close>

declare trim_front.simps [simp del] trim_back.simps [simp del]

lemma trim_front_vw:
  "trim_front (vw pre bs post) = Inr (vw (pre @ takeWhile isspace bs) (dropWhile isspace bs) post)"
proof (induction bs arbitrary: pre)
  case Nil
  then show ?case by (subst trim_front.simps) (simp add: vw_simps)
next
  case (Cons b bs)
  have "sp_at (vw pre (b # bs) post) 0 = Inr b"
    using sp_at_vw [of 0 "b # bs" pre post] by simp
  moreover have "RemovePrefix (vw pre (b # bs) post) 1 = vw (pre @ [b]) bs post"
    using RemovePrefix_vw [of 1 "[b]" pre bs post] by simp
  ultimately show ?case
    using Cons.IH [of "pre @ [b]"] by (subst trim_front.simps) (simp add: vw_simps)
qed

lemma trim_back_vw:
  "trim_back (vw pre bs post) =
     Inr (vw pre (rev (dropWhile isspace (rev bs))) (rev (takeWhile isspace (rev bs)) @ post))"
proof (induction bs arbitrary: post rule: rev_induct)
  case Nil
  then show ?case by (subst trim_back.simps) (simp add: vw_simps)
next
  case (snoc b bs)
  have "sp_at (vw pre (bs @ [b]) post) (int (length bs)) = Inr b"
    using sp_at_vw [of "length bs" "bs @ [b]" pre post] by simp
  moreover have "RemoveSuffix (vw pre (bs @ [b]) post) 1 = vw pre bs ([b] @ post)"
    by (rule RemoveSuffix_vw) simp
  ultimately show ?case
    using snoc.IH [of "[b] @ post"] by (subst trim_back.simps) (simp add: vw_simps)
qed

lemma TrimSpace_shows: "sp_shows s bs \<Longrightarrow> \<exists>s'. TrimSpace s = Inr s' \<and> sp_shows s' (trim bs)"
  by (auto simp: sp_shows_def TrimSpace_def trim_front_vw trim_back_vw trim_def) blast

lemma TrimSpace_vw:
  "\<exists>pre' post'. TrimSpace (vw pre bs post) = Inr (vw pre' (trim bs) post')"
  by (simp add: TrimSpace_def trim_front_vw trim_back_vw trim_def) blast

text \<open>What trimming means: white space is removed at both ends, and nothing else is.\<close>

lemma trim_decomposes:
  "\<exists>a b. bs = a @ trim bs @ b \<and> (\<forall>c \<in> set a \<union> set b. isspace c)"
proof -
  have "dropWhile isspace bs = trim bs @ rev (takeWhile isspace (rev (dropWhile isspace bs)))"
    unfolding trim_def by (metis rev_append rev_rev_ident takeWhile_dropWhile_id)
  then have "bs = takeWhile isspace bs @ trim bs @ rev (takeWhile isspace (rev (dropWhile isspace bs)))"
    by (metis takeWhile_dropWhile_id)
  then show ?thesis by (fastforce dest: set_takeWhileD)
qed

lemma trim_ends: "trim bs \<noteq> [] \<Longrightarrow> \<not> isspace (hd (trim bs)) \<and> \<not> isspace (last (trim bs))"
proof -
  assume ne: "trim bs \<noteq> []"
  then have l: "\<not> isspace (last (trim bs))"
    unfolding trim_def by (simp add: last_rev hd_dropWhile)
  obtain z where z: "dropWhile isspace bs = trim bs @ z"
    unfolding trim_def by (metis rev_append rev_rev_ident takeWhile_dropWhile_id)
  then have "hd (dropWhile isspace bs) = hd (trim bs)" "dropWhile isspace bs \<noteq> []" using ne by auto
  then show ?thesis using l hd_dropWhile by metis
qed

lemma trim_id: "bs = [] \<or> (\<not> isspace (hd bs) \<and> \<not> isspace (last bs)) \<Longrightarrow> trim bs = bs"
proof (cases "bs = []")
  case False
  assume "bs = [] \<or> (\<not> isspace (hd bs) \<and> \<not> isspace (last bs))"
  with False have "dropWhile isspace bs = bs" "dropWhile isspace (rev bs) = rev bs"
    by (simp_all add: dropWhile_eq_self_iff hd_rev)
  then show ?thesis by (simp add: trim_def)
qed (simp add: trim_def)

subsection \<open>Splitting\<close>

lemma split_loop_vw:
  assumes "p \<noteq> []" "length bs < fuel" "e = int (length pre + length bs)"
    and "\<And>pre' bs'. fnd (vw pre' bs' post) = Inr (int (length pre' + search_index p bs'))"
  shows "\<exists>ps. split_loop fuel fnd (int (length p)) e (vw pre bs post) = Inr ps \<and> list_all2 sp_shows ps (split_on p bs)"
  using assms(2,3)
proof (induction fuel arbitrary: pre bs)
  case (Suc fuel)
  show ?case
  proof (cases "bs = []")
    case True
    then show ?thesis by (simp add: vw_simps split_on.simps)
  next
    case False
    define n where "n = search_index p bs"
    define k where "k = (if n = length bs then n else n + length p)"
    have le: "n \<le> length bs" "k \<le> length bs"
      using search_index_le [of p bs] search_index_fits [of p bs] unfolding n_def k_def by auto
    have pos: "0 < k" using False assms(1) unfolding k_def by auto
    have d: "drop k bs = drop (n + length p) bs" unfolding k_def by simp
    obtain ps where ps: "split_loop fuel fnd (int (length p)) e (vw (pre @ take k bs) (drop k bs) post) = Inr ps"
        "list_all2 sp_shows ps (split_on p (drop k bs))"
    proof -
      have "length (drop k bs) < fuel" "e = int (length (pre @ take k bs) + length (drop k bs))"
        using Suc.prems le pos by simp_all
      then show ?thesis using Suc.IH that by blast
    qed
    define pos where "pos = int (length pre + n)"
    have b: "SP_between (pre @ bs @ post) (int (length pre)) pos = Inr (vw pre (take n bs) (drop n bs @ post))"
      using SP_between_vw [of 0 n bs pre post] le by (simp add: pos_def)
    have r: "RemovePrefix (vw pre bs post)
        (if pos = e then pos - int (length pre) else pos - int (length pre) + int (length p)) =
        vw (pre @ take k bs) (drop k bs) post"
      using RemovePrefix_drop [OF le(2), of pre post] Suc.prems(2)
      unfolding k_def pos_def by (auto simp: algebra_simps)
    have f: "fnd (vw pre bs post) = Inr pos"
      by (simp add: assms(4) pos_def n_def)
    have "split_loop (Suc fuel) fnd (int (length p)) e (vw pre bs post) =
        Inr (if take n bs = [] then ps else vw pre (take n bs) (drop n bs @ post) # ps)"
      using False f r b ps(1) by (cases "pos = e") (simp_all add: vw_simps Let_def)
    moreover have "sp_shows (vw pre (take n bs) (drop n bs @ post)) (take n bs)"
      unfolding sp_shows_def by blast
    moreover have "split_on p bs =
        (if take n bs = [] then split_on p (drop k bs) else take n bs # split_on p (drop k bs))"
      using False assms(1) unfolding d
      by (subst split_on.simps) (simp add: Let_def n_def)
    ultimately show ?thesis using ps(2) by simp
  qed
qed simp

lemma Split_slice_shows:
  assumes "sp_shows s bs" "sp_shows sep p" "p \<noteq> []"
  shows "\<exists>ps. Split_slice s sep = Inr ps \<and> list_all2 sp_shows ps (split_on p bs)"
proof -
  obtain pre post a b where [simp]: "s = vw pre bs post" "sep = vw a p b"
    using assms unfolding sp_shows_def by blast
  show ?thesis
    using split_loop_vw [of p bs "Suc (length bs)" _ pre "\<lambda>t. Find_slice t (vw a p b)" post] assms(3)
    by (simp add: Split_slice_def Split_slice_fuel_def vw_simps SP_between_whole [simplified])
qed

lemma Split_char_shows:
  assumes "sp_shows s bs"
  shows "\<exists>ps. Split_char s ch = Inr ps \<and> list_all2 sp_shows ps (split_on [ch] bs)"
proof -
  obtain pre post where [simp]: "s = vw pre bs post"
    using assms unfolding sp_shows_def by blast
  show ?thesis
    using split_loop_vw [of "[ch]" bs "Suc (length bs)" _ pre "\<lambda>t. Find_char t ch" post]
    by (simp add: Split_char_def vw_simps SP_between_whole [simplified])
qed

lemma flds_unfold:
  "flds ch xs = (let n = search_index [ch] xs in
     if n = length xs then [xs] else take n xs # flds ch (drop (Suc n) xs))"
  by (induction xs) (auto simp: Let_def)

lemma split_on_single: "split_on [ch] xs = filter (\<lambda>f. f \<noteq> []) (flds ch xs)"
proof (induction "length xs" arbitrary: xs rule: less_induct)
  case less
  show ?case
  proof (cases "xs = []")
    case False
    have "split_on [ch] (drop (Suc (search_index [ch] xs)) xs) =
        filter (\<lambda>f. f \<noteq> []) (flds ch (drop (Suc (search_index [ch] xs)) xs))"
      using less [of "drop (Suc (search_index [ch] xs)) xs"] False by simp
    then show ?thesis
      using False by (subst split_on.simps, subst flds_unfold) (auto simp: Let_def)
  qed (simp add: split_on.simps)
qed


lemma split_on_last: "c \<notin> set x \<Longrightarrow> x \<noteq> [] \<Longrightarrow> split_on [c] x = [x]"
  using search_index_absent [of "[c]" x] by (subst split_on.simps) (simp add: Let_def split_on.simps)

lemma split_on_sep: "c \<notin> set x \<Longrightarrow> x \<noteq> [] \<Longrightarrow> split_on [c] (x @ c # ys) = x # split_on [c] ys"
  using search_index_head [of "[c]" x ys] by (subst split_on.simps) (simp add: Let_def)

fun join :: "'a \<Rightarrow> 'a list list \<Rightarrow> 'a list" where
  "join c [] = []"
| "join c [x] = x"
| "join c (x # y # xs) = x @ c # join c (y # xs)"

lemma split_on_join: "\<forall>x \<in> set xs. c \<notin> set x \<and> x \<noteq> [] \<Longrightarrow> split_on [c] (join c xs) = xs"
  by (induction c xs rule: join.induct) (auto simp: split_on_last split_on_sep, simp add: split_on.simps)

lemma split_on_pieces: "f \<in> set (split_on p xs) \<Longrightarrow> f \<noteq> [] \<and> \<not> sublist p f \<and> sublist f xs"
proof (induction p xs rule: split_on.induct)
  case (1 p xs)
  define n where "n = search_index p xs"
  have f: "f \<in> set (split_on p (drop (n + length p) xs)) \<or> (n \<noteq> 0 \<and> f = take n xs)" and ne: "xs \<noteq> []" "p \<noteq> []"
    using "1.prems" by (subst (asm) split_on.simps, auto simp: Let_def n_def split: if_splits)+
  from f show ?case
  proof
    assume "f \<in> set (split_on p (drop (n + length p) xs))"
    then show ?thesis using "1.IH" [of n] ne sublist_order.order.trans sublist_drop
      unfolding n_def by blast
  next
    assume t: "n \<noteq> 0 \<and> f = take n xs"
    have "\<not> sublist p (take n xs)"
    proof
      assume "sublist p (take n xs)"
      then obtain a b where ab: "take n xs = a @ p @ b" by (auto simp: sublist_def)
      then have "prefix p (drop (length a) xs)"
        by (metis append_assoc append_eq_conv_conj append_take_drop_id prefix_def)
      moreover have "length a < n" using ab ne by (metis append_eq_conv_conj length_append length_take less_add_same_cancel1 min_less_iff_conj length_greater_0_conv add_gr_0 trans_less_add1)
      ultimately show False using search_index_first n_def by blast
    qed
    then show ?thesis using t ne by (auto simp: take_eq_Nil)
  qed
qed

subsection \<open>Fragments\<close>

lemma SliceFragment_shows:
  assumes "sp_shows s bs" "sp_shows a first" "sp_shows b lst"
  shows "\<exists>f. SliceFragment s a b = Inr f \<and> sp_shows f (fragment first lst bs)"
proof -
  obtain pre post pa qa pb qb where v [simp]: "s = vw pre bs post" "a = vw pa first qa" "b = vw pb lst qb"
    using assms unfolding sp_shows_def by blast
  define n where "n = search_index first bs"
  have e: "sp_shows SP_empty []" unfolding sp_shows_def SP_empty_def vw_def by simp
  show ?thesis
  proof (cases "n = length bs")
    case True
    then show ?thesis using e by (simp add: SliceFragment_def vw_simps fragment_def Let_def n_def)
  next
    case False
    then have n: "n + length first \<le> length bs"
      using search_index_fits [of first bs] search_index_le [of first bs] unfolding n_def by linarith
    define ys where "ys = drop (n + length first) bs"
    define k where "k = search_index lst ys"
    have b: "SP_between (pre @ bs @ post) (int (length pre + n) + int (length first)) (int (length pre + length bs)) =
        Inr (vw (pre @ take (n + length first) bs) ys post)"
      using SP_between_vw [of "n + length first" "length bs" bs pre post] n by (simp add: ys_def add.assoc)
    let ?v = "vw (pre @ take (n + length first) bs) ys post"
    have "k \<le> length ys" unfolding k_def by (rule search_index_le)
    from RemoveSuffixUntil_vw [OF this, of "pre @ take (n + length first) bs" post]
    have r: "\<exists>pr po. RemoveSuffixUntil ?v (int (length pre + length (take (n + length first) bs) + k)) = Inr (vw pr (take k ys) po)"
      by auto
    have "SliceFragment s a b = (if k = length ys then Inr SP_empty else
        RemoveSuffixUntil ?v (int (length pre + length (take (n + length first) bs) + k)))"
      using False b unfolding SliceFragment_def v by (simp add: vw_simps k_def flip: n_def)
    moreover have "fragment first lst bs = (if k = length ys then [] else take k ys)"
      using False unfolding fragment_def Let_def k_def n_def [symmetric] ys_def [symmetric] by simp
    ultimately show ?thesis using e r by (auto simp: sp_shows_def)
  qed
qed

subsection \<open>Numbers\<close>

fun digits_value :: "int \<Rightarrow> byte list \<Rightarrow> int" where
  "digits_value k [] = k"
| "digits_value k (c # cs) = digits_value (k * 10 + (int (unat c) - 0x30)) cs"

lemma isdigit_value: "isdigit c \<Longrightarrow> 0 \<le> int (unat c) - 0x30 \<and> int (unat c) - 0x30 \<le> 9"
proof -
  assume "isdigit c"
  then have "0x30 \<le> unat c" "unat c \<le> 0x39" by (simp_all add: isdigit_def word_le_nat_alt)
  then show ?thesis by linarith
qed

lemma digit_byte: "n < 10 \<Longrightarrow> unat (48 + word_of_nat n :: byte) = 48 + n"
  using unat_of_nat_byte [of "48 + n"] by simp

lemma digit_byte_int: "n < 10 \<Longrightarrow> uint (48 + word_of_nat n :: byte) = 48 + int n"
  using digit_byte [of n] by (metis of_nat_unat of_nat_add of_nat_numeral)

lemma digits_value_ge: "0 \<le> k \<Longrightarrow> \<forall>c \<in> set ds. isdigit c \<Longrightarrow> k \<le> digits_value k ds"
proof (induction ds arbitrary: k)
  case (Cons c cs)
  then have "k * 10 + (int (unat c) - 0x30) \<le> digits_value (k * 10 + (int (unat c) - 0x30)) cs"
    using isdigit_value [of c] by (intro Cons.IH) auto
  then show ?case using Cons.prems isdigit_value [of c] by simp
qed simp

lemma parse_digits_spec:
  "0 \<le> k \<Longrightarrow> k \<le> INT_MAX \<Longrightarrow> \<forall>c \<in> set ds. isdigit c \<Longrightarrow> rest = [] \<or> \<not> isdigit (hd rest) \<Longrightarrow>
     parse_digits (ds @ rest) k n =
       (if digits_value k ds \<le> INT_MAX then Inr (digits_value k ds, n + length ds) else Inl SignedOverflow)"
proof (induction ds arbitrary: k n)
  case Nil
  then show ?case by (cases rest) auto
next
  case (Cons c cs)
  let ?k = "k * 10 + (int (unat c) - 0x30)"
  have "0 \<le> ?k" "?k \<le> digits_value ?k cs"
    using Cons.prems isdigit_value [of c] by (auto intro!: digits_value_ge)
  then show ?case using Cons by (auto simp: Let_def)
qed

lemma ParseInt_vw:
  assumes "\<forall>c \<in> set ds. isdigit c" "rest = [] \<or> \<not> isdigit (hd rest)" "digits_value 0 ds \<le> INT_MAX"
  shows "ParseInt (vw pre (ds @ rest) post) num =
    Inr (int (length pre + length ds), if ds = [] then num else digits_value 0 ds)"
  using parse_digits_spec [of 0 ds rest 0] assms
  by (simp add: ParseInt_def vw_simps)

lemma digits_value_snoc: "digits_value k (ds @ [c]) = digits_value k ds * 10 + (int (unat c) - 0x30)"
  by (induction ds arbitrary: k) auto

lemma decimal_digits: "\<forall>c \<in> set (decimal n). isdigit c"
  by (induction n rule: decimal.induct)
    (subst decimal.simps, auto simp: isdigit_def word_le_nat_alt digit_byte)

lemma digits_value_decimal: "digits_value 0 (decimal n) = int n"
  by (induction n rule: decimal.induct)
    (subst decimal.simps, auto simp: digits_value_snoc digit_byte_int, presburger)

subsection \<open>Comparison\<close>

lemma memcmp_zero: "length xs = length ys \<Longrightarrow> memcmp xs ys = 0 \<longleftrightarrow> xs = ys"
  by (induction xs ys rule: memcmp.induct) auto

lemma memcmp_take: "memcmp (take (min (length xs) (length ys)) xs) (take (min (length xs) (length ys)) ys) = memcmp xs ys"
  by (induction xs ys rule: memcmp.induct) auto

lemma memcmp_less: "memcmp xs ys < 0 \<or> (memcmp xs ys = 0 \<and> length xs < length ys) \<longleftrightarrow> xs < ys"
  by (induction xs ys rule: memcmp.induct) (auto simp: Cons_less_Cons, metis neq_Nil_conv Nil_less_Cons)

lemma memcmp_swap: "memcmp ys xs = - memcmp xs ys"
  by (induction xs ys rule: memcmp.induct) auto

lemma memcmp_less_eq: "memcmp xs ys < 0 \<or> (memcmp xs ys = 0 \<and> length xs \<le> length ys) \<longleftrightarrow> xs \<le> ys"
  by (induction xs ys rule: memcmp.induct) (auto simp: Cons_le_Cons neq_Nil_conv)

lemma mem_first_vw: "n \<le> length bs \<Longrightarrow> mem_first (vw pre bs post) (int n) = Inr (take n bs)"
  unfolding mem_first_def
  by (rule mem_get_inside [where a = pre and c = "drop n bs @ post"]) (simp_all add: vw_simps)

lemma sp_compare_vw:
  "sp_compare aux cmp (vw p bs q) (vw p' cs q') =
     Inr (aux (memcmp bs cs) 0 \<or> (memcmp bs cs = 0 \<and> cmp (int (length bs)) (int (length cs))))"
proof -
  have n: "(if int (length bs) < int (length cs) then int (length bs) else int (length cs)) = int (min (length bs) (length cs))"
    by simp
  show ?thesis
    unfolding sp_compare_def vw_sel n Let_def by (simp add: mem_first_vw memcmp_take)
qed

lemma sp_eq_shows: "sp_shows s bs \<Longrightarrow> sp_shows x cs \<Longrightarrow> sp_eq s x = Inr (bs = cs)"
  by (auto simp: sp_shows_def sp_eq_def vw_simps mem_first_vw memcmp_zero)

lemma StartsWith_shows: "sp_shows s bs \<Longrightarrow> sp_shows x p \<Longrightarrow> StartsWith s x = Inr (prefix p bs)"
  by (auto simp: sp_shows_def StartsWith_def vw_simps mem_first_vw memcmp_zero prefix_length_le)
    (metis append_eq_conv_conj prefix_def take_is_prefix)+

section \<open>Properties\<close>

text \<open>Splitting at a character always ends and gives views of exactly the
  non-empty fields between its occurrences, in order.\<close>

theorem Split_char_fields:
  assumes "sp_shows s bs"
  shows "\<exists>ps. Split_char s ch = Inr ps \<and> list_all2 sp_shows ps (filter (\<lambda>f. f \<noteq> []) (flds ch bs))"
  using Split_char_shows [OF assms, of ch] by (simp add: split_on_single)

theorem Split_char_fields_witness:
  "\<exists>ps. Split_char (SP_string (str ''GET  /x '')) 0x20 = Inr ps \<and>
     list_all2 sp_shows ps [str ''GET'', str ''/x'']"
proof -
  have "sp_shows (SP_string (str ''GET  /x '')) (str ''GET  /x '')"
    unfolding SP_string_vw sp_shows_def by blast
  from Split_char_fields [OF this, of "0x20"] show ?thesis
    by (simp add: str_def)
qed

text \<open>The relational operators of views are the lexicographic order of the
  bytes they show, taken as unsigned characters: \<open><\<close> and \<open>>\<close> are strict and
  converse, \<open><=\<close> and \<open>>=\<close> their complements, and \<open>==\<close> is equality.\<close>

theorem comparisons_are_lexicographic:
  assumes "sp_shows s bs" "sp_shows x cs"
  shows "sp_less s x = Inr (bs < cs) \<and> sp_less_eq s x = Inr (bs \<le> cs) \<and>
    sp_greater s x = Inr (cs < bs) \<and> sp_greater_eq s x = Inr (cs \<le> bs) \<and> sp_eq s x = Inr (bs = cs)"
proof -
  have "0 < memcmp bs cs \<or> (memcmp bs cs = 0 \<and> length cs < length bs) \<longleftrightarrow> cs < bs"
    "0 < memcmp bs cs \<or> (memcmp bs cs = 0 \<and> length cs \<le> length bs) \<longleftrightarrow> cs \<le> bs"
    using memcmp_less [of cs bs] memcmp_less_eq [of cs bs] by (simp_all add: memcmp_swap [of cs bs])
  then show ?thesis
    using assms sp_eq_shows [OF assms] memcmp_less [of bs cs] memcmp_less_eq [of bs cs]
    by (auto simp: sp_shows_def sp_less_def sp_less_eq_def sp_greater_def sp_greater_eq_def sp_compare_vw)
qed

theorem comparisons_are_lexicographic_witness:
  "sp_less (SP_string [0x7F]) (SP_string [0x80, 0]) = Inr True"
proof -
  have "sp_shows (SP_string [0x7F]) [0x7F]" "sp_shows (SP_string [0x80, 0]) [0x80, 0]"
    unfolding SP_string_vw sp_shows_def by blast+
  from comparisons_are_lexicographic [OF this] show ?thesis by simp
qed

text \<open>\<open>ParseInt\<close> reads back what is printed: on the decimal digits of an
  \<open>int\<close> that something other than a digit follows, it stores the number and
  returns the position after the digits.\<close>

theorem ParseInt_decimal:
  assumes "int n \<le> INT_MAX" "rest = [] \<or> \<not> isdigit (hd rest)"
  shows "ParseInt (vw pre (decimal n @ rest) post) num = Inr (int (length pre + length (decimal n)), int n)"
proof -
  have "decimal n \<noteq> []" by (subst decimal.simps) simp
  with ParseInt_vw [OF decimal_digits assms(2), of n pre post num] assms(1) show ?thesis
    by (simp add: digits_value_decimal)
qed

theorem ParseInt_decimal_witness:
  "ParseInt (vw [] (decimal 80 @ str ''x'') []) 7 = Inr (int (length (decimal 80)), 80)"
  using ParseInt_decimal [of 80 "str ''x''" "[]" "[]" 7] by (simp add: str_def isdigit_def)

text \<open>Splitting a non-empty view at an empty separator never ends: no number
  of iterations is enough.\<close>

theorem Split_slice_empty_separator:
  assumes "sp_shows s bs" "bs \<noteq> []" "sp_shows sep []"
  shows "Split_slice_fuel fuel s sep = Inl Diverge"
proof -
  obtain pre post a b where [simp]: "s = vw pre bs post" "sep = vw a [] b"
    using assms unfolding sp_shows_def by blast
  have [simp]: "search_index [] bs = 0" using assms(2) by (cases bs) simp_all
  have "RemovePrefix (vw pre bs post) 0 = vw pre bs post"
    by (simp add: RemovePrefix_def)
  moreover have "SP_between (pre @ bs @ post) (int (length pre)) (int (length pre)) = Inr (vw pre [] (bs @ post))"
    using SP_between_vw [of 0 0 bs pre post] by simp
  ultimately have "split_loop fuel (\<lambda>t. Find_slice t (vw a [] b)) 0 (int (length pre + length bs)) (vw pre bs post) = Inl Diverge"
    using assms(2) by (induction fuel) (simp_all add: vw_simps Let_def)
  then show ?thesis
    by (simp add: Split_slice_fuel_def vw_simps SP_between_whole [simplified])
qed

theorem Split_slice_empty_separator_witness:
  "Split_slice_fuel 100 (SP_string (str ''a'')) (SP_string []) = Inl Diverge"
proof -
  have "sp_shows (SP_string (str ''a'')) (str ''a'')" "sp_shows (SP_string []) []"
    unfolding SP_string_vw sp_shows_def by blast+
  from Split_slice_empty_separator [OF this(1) _ this(2)] show ?thesis by (simp add: str_def)
qed

end
