(* ===== verification/Http_Message.thy ===== *)
theory Http_Message
  imports Net_Buffer String_Piece
begin

text \<open>
  \<open>http/http_message.{h,cc}\<close>: recognising a complete HTTP message at the front of
  a buffer, taking it apart, and writing one. The lemmas describe the text of a
  message by its lines and show that the decoder finds the end of the message
  exactly, waits for more input on every proper prefix, and never stores the
  last header.
\<close>

section \<open>The code\<close>

datatype Method = Method_kNone | kGet | kPost
datatype Version = Version_kNone | kHttp11
datatype StatusCode = StatusCode_kNone | k200
datatype StatusDescription = StatusDescription_kNone | kOK

record RequestLine =
  rl_method :: Method
  rl_url :: "byte list"
  rl_query :: "(byte list, byte list) std_map"
  rl_version :: Version

record ResponseLine =
  sl_version :: Version
  sl_code :: StatusCode
  sl_description :: StatusDescription

record HttpMessage =
  first_line :: "byte list"
  headers :: "(byte list, byte list) std_map"
  body :: "byte list"

definition HttpMessage_new :: HttpMessage where
  "HttpMessage_new = \<lparr>first_line = [], headers = [], body = []\<rparr>"

definition crlf :: "byte list" where "crlf = [0x0D, 0x0A]"

definition MakeResponseLine :: "ResponseLine \<Rightarrow> byte list" where
  "MakeResponseLine line =
     (if sl_version line = kHttp11 then
        let rsp = str ''HTTP/1.1 '' in
        if sl_code line = k200 then
          let rsp = rsp @ str ''200 '' in
          if sl_description line = kOK then rsp @ str ''OK'' else []
        else []
      else [])"

definition CheckCompleted :: "StringPiece \<Rightarrow> int res" where
  "CheckCompleted message =
     fbind (Find_slice message (lit (crlf @ crlf))) (\<lambda>pos.
     if pos = sp_end message then Inr 0
     else
       fbind (SP_between (sp_obj message) (sp_begin message) pos) (\<lambda>length_header.
       fbind (Find_slice length_header (lit (str ''Content-Length''))) (\<lambda>header_begin.
       if header_begin = sp_end length_header then Inr (pos - sp_begin message + 4)
       else
         fbind (RemovePrefixUntil length_header header_begin) (\<lambda>length_header.
         fbind (Find_slice length_header (lit crlf)) (\<lambda>header_end.
         if header_end = sp_end length_header then Inr (-1)
         else
           fbind (RemoveSuffixUntil length_header header_end) (\<lambda>length_header.
           fbind (Find_char length_header 0x3A) (\<lambda>tmp.
           if tmp = sp_end length_header then Inr (-1)
           else
             fbind (SP_between (sp_obj message) (tmp + 1) header_end) (\<lambda>len_piece.
             fbind (TrimSpace len_piece) (\<lambda>len_piece.
             fbind (ParseInt len_piece 0) (\<lambda>(tmp, len).
             if tmp \<noteq> sp_end len_piece then Inr (-1)
             else
               fbind (SP_between (sp_obj message) (pos + 4) (sp_end message)) (\<lambda>bdy.
               if sp_length bdy < len then Inr 0
               else Inr (pos - sp_begin message + 4 + len))))))))))))"

text \<open>\<open>Buffer::slice()\<close> as a view.\<close>

definition slice_view :: "Buffer \<Rightarrow> StringPiece" where
  "slice_view b = SP_range (buffer b) (reader_index b) (readable_bytes b)"

text \<open>
  The header loop. At its head \<open>header_crlf\<close> is always the position of the next
  line end in the slice, so it is computed there. The result is the slice left,
  or \<open>None\<close> when the function returns \<open>-1\<close>, and the headers stored so far.
\<close>

function decode_headers ::
  "int \<Rightarrow> StringPiece \<Rightarrow> (byte list, byte list) std_map \<Rightarrow> (StringPiece option \<times> (byte list, byte list) std_map) res" where
  "decode_headers headers_end s hdrs =
     fbind (Find_slice s (lit crlf)) (\<lambda>header_crlf.
     if header_crlf = headers_end then Inr (Some s, hdrs)
     else
       fbind (SP_between (sp_obj s) (sp_begin s) header_crlf) (\<lambda>header.
       fbind (Find_char header 0x3A) (\<lambda>seg.
       if seg = sp_end header then Inr (None, hdrs)
       else
         fbind (SP_between (sp_obj s) (sp_begin header) seg) (\<lambda>key.
         fbind (TrimSpace key) (\<lambda>key.
         fbind (SP_between (sp_obj s) (seg + 1) (sp_end header)) (\<lambda>val.
         fbind (TrimSpace val) (\<lambda>val.
         fbind (AsString key) (\<lambda>k.
         fbind (AsString val) (\<lambda>v.
         fbind (RemovePrefixUntil s (header_crlf + 2)) (\<lambda>s'.
         decode_headers headers_end s' (map_put k v hdrs)))))))))))"
  by pat_completeness auto
termination
  by (relation "measure (\<lambda>(e, s, h). nat (sp_length s))")
    (auto dest!: Find_slice_bounds RemovePrefixUntil_bounds)

declare decode_headers.simps [simp del]

definition Decode :: "HttpMessage \<Rightarrow> Buffer \<Rightarrow> (int \<times> HttpMessage \<times> Buffer) res" where
  "Decode msg message =
     (let s = slice_view message in
      fbind (CheckCompleted s) (\<lambda>parsed_len.
      if parsed_len \<le> 0 then Inr (parsed_len, msg, message)
      else
        fbind (Find_slice s (lit crlf)) (\<lambda>first_line_end.
        if first_line_end = sp_end s then Inr (-1, msg, message)
        else
          fbind (SP_between (sp_obj s) (sp_begin s) first_line_end) (\<lambda>line.
          fbind (AsString line) (\<lambda>l.
          let msg = msg\<lparr>first_line := l\<rparr> in
          fbind (RemovePrefixUntil s (first_line_end + 2)) (\<lambda>s.
          fbind (Find_slice s (lit (crlf @ crlf))) (\<lambda>headers_end.
          if headers_end = sp_end s then Inr (-1, msg, message)
          else
            fbind (Find_slice s (lit crlf)) (\<lambda>header_crlf.
            if header_crlf = sp_end s then Inr (-1, msg, message)
            else
              fbind (decode_headers headers_end s (headers msg)) (\<lambda>(rest, hdrs).
              let msg = msg\<lparr>headers := hdrs\<rparr> in
              case rest of None \<Rightarrow> Inr (-1, msg, message)
              | Some s \<Rightarrow>
                fbind (RemovePrefixUntil s (headers_end + 4)) (\<lambda>s.
                let before_body_len = headers_end - sp_begin line + 4;
                    body_len = parsed_len - before_body_len in
                fbind (if body_len < 0 then Inl StdException
                       else mem_get (sp_obj s) (sp_begin s) (sp_begin s + body_len)) (\<lambda>bs.
                fbind (Take message parsed_len) (\<lambda>message.
                Inr (parsed_len, msg\<lparr>body := bs\<rparr>, message)))))))))))))"

fun encode_headers :: "(byte list, byte list) std_map \<Rightarrow> Buffer \<Rightarrow> Buffer res" where
  "encode_headers [] message = Inr message"
| "encode_headers ((k, v) # hs) message =
     fbind (Append_piece message k) (\<lambda>message.
     fbind (Append_piece message (str '': '')) (\<lambda>message.
     fbind (Append_piece message v) (\<lambda>message.
     fbind (Append_piece message crlf) (encode_headers hs))))"

definition Encode :: "HttpMessage \<Rightarrow> Buffer \<Rightarrow> (int \<times> Buffer) res" where
  "Encode msg message =
     fbind (Append_piece message (first_line msg)) (\<lambda>message.
     fbind (Append_piece message crlf) (\<lambda>message.
     fbind (encode_headers (headers msg) message) (\<lambda>message.
     fbind (Append_piece message crlf) (\<lambda>message.
     fbind (Append_piece message (body msg)) (\<lambda>message.
     Inr (readable_bytes message, message))))))"

text \<open>The loop over the query items; \<open>False\<close> when it returns from the function.\<close>

fun query_items :: "StringPiece list \<Rightarrow> (byte list, byte list) std_map \<Rightarrow> (bool \<times> (byte list, byte list) std_map) res" where
  "query_items [] q = Inr (True, q)"
| "query_items (item # items) q =
     fbind (Find_char item 0x3D) (\<lambda>seg.
     if seg = sp_end item then Inr (False, q)
     else
       fbind (mem_get (sp_obj item) (sp_begin item) seg) (\<lambda>key.
       fbind (mem_get (sp_obj item) (seg + 1) (sp_end item)) (\<lambda>val.
       query_items items (map_put key val q))))"

definition RequestLine_new :: RequestLine where
  "RequestLine_new = \<lparr>rl_method = Method_kNone, rl_url = [], rl_query = [], rl_version = Version_kNone\<rparr>"

definition request_line :: "HttpMessage \<Rightarrow> RequestLine res" where
  "request_line msg =
     (let req = RequestLine_new in
      fbind (Split_char (SP_string (first_line msg)) 0x20) (\<lambda>slice_vector.
      if length slice_vector \<noteq> 3 then Inr req
      else
        fbind (sp_eq (slice_vector ! 0) (lit (str ''GET''))) (\<lambda>get.
        fbind (if get then Inr (Some kGet)
               else fbind (sp_eq (slice_vector ! 0) (lit (str ''POST''))) (\<lambda>post.
                 Inr (if post then Some kPost else None))) (\<lambda>m.
        case m of None \<Rightarrow> Inr req
        | Some m \<Rightarrow>
          let req = req\<lparr>rl_method := m\<rparr>; path = slice_vector ! 1 in
          fbind (Find_char path 0x3F) (\<lambda>pos.
          fbind (if pos = sp_end path then
                   fbind (AsString path) (\<lambda>url. Inr (True, req\<lparr>rl_url := url\<rparr>))
                 else
                   fbind (mem_get (sp_obj path) (sp_begin path) pos) (\<lambda>url.
                   fbind (SP_between (sp_obj path) (pos + 1) (sp_end path)) (\<lambda>query.
                   fbind (Split_char query 0x26) (\<lambda>query_vector.
                   fbind (query_items query_vector []) (\<lambda>(go, q).
                   Inr (go, req\<lparr>rl_url := url, rl_query := q\<rparr>)))))) (\<lambda>(go, req).
          if \<not> go then Inr req
          else
            fbind (sp_eq (slice_vector ! 2) (lit (str ''HTTP/1.1''))) (\<lambda>http11.
            Inr (req\<lparr>rl_version := if http11 then kHttp11 else Version_kNone\<rparr>))))))))"

definition set_response_line :: "HttpMessage \<Rightarrow> StringPiece \<Rightarrow> HttpMessage res" where
  "set_response_line msg line = fbind (AsString line) (\<lambda>l. Inr (msg\<lparr>first_line := l\<rparr>))"

definition set_headers :: "HttpMessage \<Rightarrow> StringPiece \<Rightarrow> StringPiece \<Rightarrow> HttpMessage res" where
  "set_headers msg key val =
     fbind (AsString key) (\<lambda>k. fbind (AsString val) (\<lambda>v. Inr (msg\<lparr>headers := map_put k v (headers msg)\<rparr>)))"

definition set_body :: "HttpMessage \<Rightarrow> StringPiece \<Rightarrow> HttpMessage res" where
  "set_body msg bdy = fbind (AsString bdy) (\<lambda>b. Inr (msg\<lparr>body := b\<rparr>))"

section \<open>The text of a message\<close>

abbreviation content_length :: "byte list" where
  "content_length \<equiv> str ''Content-Length''"

definition lines_text :: "byte list list \<Rightarrow> byte list" where
  "lines_text ls = concat (map (\<lambda>l. l @ crlf) ls)"

definition header_line :: "byte list \<times> byte list \<Rightarrow> byte list" where
  "header_line = (\<lambda>(k, v). k @ str '': '' @ v)"

definition http_text :: "HttpMessage \<Rightarrow> byte list" where
  "http_text m = first_line m @ crlf @ lines_text (map header_line (headers m)) @ crlf @ body m"

text \<open>The key and the value the decoder reads from a line.\<close>

definition parse_line :: "byte list \<Rightarrow> byte list \<times> byte list" where
  "parse_line l = (let n = search_index [0x3A] l in (trim (take n l), trim (drop (Suc n) l)))"

lemma lines_text_simps [simp]:
  "lines_text [] = []" "lines_text (l # ls) = l @ crlf @ lines_text ls"
  "lines_text (as @ bs) = lines_text as @ lines_text bs"
  by (simp_all add: lines_text_def)

lemma length_crlf [simp]: "length crlf = 2"
  by (simp add: crlf_def)

lemma content_length_chars:
  "length content_length = 14" "content_length \<noteq> []"
  "0x0D \<notin> set content_length" "0x0A \<notin> set content_length" "0x3A \<notin> set content_length" "0x20 \<notin> set content_length"
  by (simp_all add: str_def)

subsection \<open>Finding the end of the header\<close>

lemma search_crlf: "0x0D \<notin> set a \<Longrightarrow> search_index crlf (a @ crlf @ b) = length a"
  by (rule search_index_head) (simp_all add: crlf_def)

lemma search_crlf2_step:
  "0x0D \<notin> set a \<Longrightarrow> t = [] \<or> hd t \<noteq> 0x0D \<Longrightarrow>
     search_index (crlf @ crlf) (a @ crlf @ t) = length a + 2 + search_index (crlf @ crlf) t"
proof (induction a)
  case Nil
  then show ?case by (cases t) (auto simp: crlf_def)
next
  case (Cons x a)
  then show ?case by (auto simp: crlf_def)
qed

definition line_ok :: "byte list \<Rightarrow> bool" where
  "line_ok l \<longleftrightarrow> l \<noteq> [] \<and> 0x0D \<notin> set l"

lemma search_crlf2_text:
  "0x0D \<notin> set fl \<Longrightarrow> \<forall>l \<in> set ls. line_ok l \<Longrightarrow>
     search_index (crlf @ crlf) (fl @ crlf @ lines_text ls @ crlf @ b) = length fl + length (lines_text ls)"
proof (induction ls arbitrary: fl)
  case Nil
  then show ?case using search_index_head [of "crlf @ crlf" fl b] by (simp add: crlf_def)
next
  case (Cons l ls)
  then have "search_index (crlf @ crlf) (l @ crlf @ lines_text ls @ crlf @ b) = length l + length (lines_text ls)"
    by (intro Cons.IH) (auto simp: line_ok_def)
  moreover have "hd (l @ crlf @ lines_text ls @ crlf @ b) \<noteq> 0x0D"
    using Cons.prems by (cases l) (auto simp: line_ok_def)
  ultimately show ?case
    using Cons.prems search_crlf2_step [of fl "l @ crlf @ lines_text ls @ crlf @ b"] by simp
qed

subsection \<open>\<open>CheckCompleted\<close>\<close>

lemma CheckCompleted_incomplete:
  "search_index (crlf @ crlf) bs = length bs \<Longrightarrow> CheckCompleted (vw pre bs post) = Inr 0"
  by (simp add: CheckCompleted_def vw_simps)

lemma CheckCompleted_no_body:
  assumes "search_index (crlf @ crlf) (h @ crlf @ crlf @ b) = length h" "\<not> sublist content_length h"
  shows "CheckCompleted (vw pre (h @ crlf @ crlf @ b) post) = Inr (int (length h) + 4)"
proof -
  have "search_index content_length h = length h"
    using assms(2) search_index_none_iff content_length_chars by blast
  moreover have "SP_between (pre @ (h @ crlf @ crlf @ b) @ post) (int (length pre)) (int (length pre + length h)) =
      Inr (vw pre h (crlf @ crlf @ b @ post))"
    by (rule SP_between_eq) simp_all
  ultimately show ?thesis
    using assms(1) by (simp add: CheckCompleted_def vw_simps)
qed

lemma trim_space_digits: "trim (0x20 # decimal k) = decimal k"
proof -
  have "\<forall>c \<in> set (decimal k). \<not> isspace c"
    using decimal_digits [of k] by (auto simp: isdigit_def isspace_def word_le_nat_alt)
  moreover have "decimal k \<noteq> []" by (subst decimal.simps) simp
  ultimately have "trim (decimal k) = decimal k" by (intro trim_id) simp
  then show ?thesis by (simp add: trim_def isspace_def)
qed

lemma CheckCompleted_length:
  assumes h: "h = a @ content_length @ str '': '' @ decimal k @ crlf @ r"
    and "search_index (crlf @ crlf) (h @ crlf @ crlf @ b) = length h"
    and "search_index content_length h = length a" and "int k \<le> INT_MAX"
  shows "CheckCompleted (vw pre (h @ crlf @ crlf @ b) post) =
    Inr (if length b < k then 0 else int (length h) + 4 + int k)"
proof -
  let ?bs = "h @ crlf @ crlf @ b"
  have 1: "SP_between (pre @ ?bs @ post) (int (length pre)) (int (length pre + length h)) =
      Inr (vw pre h (crlf @ crlf @ b @ post))"
    by (rule SP_between_eq) simp_all
  have 2: "RemovePrefixUntil (vw pre h (crlf @ crlf @ b @ post)) (int (length pre + length a)) =
      Inr (vw (pre @ a) (content_length @ str '': '' @ decimal k @ crlf @ r) (crlf @ crlf @ b @ post))"
    by (rule RemovePrefixUntil_eq) (simp_all add: h)
  have no_cr: "0x0D \<notin> set (content_length @ str '': '' @ decimal k)"
    using decimal_digits [of k] content_length_chars(3) by (auto simp: str_def isdigit_def)
  have 3: "search_index crlf (content_length @ str '': '' @ decimal k @ crlf @ r) = 16 + length (decimal k)"
    using search_crlf [OF no_cr, of r] by (simp add: content_length_chars(1) str_def)
  have 4: "RemoveSuffixUntil (vw (pre @ a) (content_length @ str '': '' @ decimal k @ crlf @ r) (crlf @ crlf @ b @ post))
      (int (length pre + length a + (16 + length (decimal k)))) =
      Inr (vw (pre @ a) (content_length @ str '': '' @ decimal k) ((crlf @ r) @ crlf @ crlf @ b @ post))"
    by (rule RemoveSuffixUntil_eq) (simp_all add: content_length_chars(1) str_def)
  have 5: "search_index [0x3A] (content_length @ str '': '' @ decimal k) = 14"
    using search_index_head [of "[0x3A]" content_length "0x20 # decimal k"] content_length_chars
    by (simp add: str_def)
  have 6: "SP_between (pre @ ?bs @ post) (int (length pre + length a + 14) + 1) (int (length pre + length a + (16 + length (decimal k)))) =
      Inr (vw (pre @ a @ content_length @ [0x3A]) (0x20 # decimal k) (crlf @ r @ crlf @ crlf @ b @ post))"
    by (rule SP_between_eq) (simp_all add: h content_length_chars(1) str_def)
  obtain p q where 7: "TrimSpace (vw (pre @ a @ content_length @ [0x3A]) (0x20 # decimal k) (crlf @ r @ crlf @ crlf @ b @ post)) =
      Inr (vw p (decimal k) q)"
    using TrimSpace_vw trim_space_digits by metis
  have 8: "ParseInt (vw p (decimal k) q) 0 = Inr (int (length p + length (decimal k)), int k)"
    using ParseInt_vw [OF decimal_digits, of "[]" k p q 0] assms(4)
    by (simp add: digits_value_decimal decimal_nonempty)
  have 9: "SP_between (pre @ ?bs @ post) (int (length pre + length h) + 4) (int (length pre + length ?bs)) =
      Inr (vw (pre @ h @ crlf @ crlf) b post)"
    by (rule SP_between_eq) simp_all
  have "length a \<noteq> length h" "length (str '': '') = 2"
    by (simp_all add: h content_length_chars(1) str_def)
  then show ?thesis
    using 1 2 3 4 5 6 7 8 9 assms(2,3) content_length_chars(1)
    by (simp add: CheckCompleted_def vw_simps)
qed

subsection \<open>The header loop\<close>

lemma decode_headers_text:
  assumes "ls \<noteq> []" "\<forall>l \<in> set ls. line_ok l" "\<forall>l \<in> set (butlast ls). 0x3A \<in> set l"
    and "e = int (length pre + length (lines_text ls)) - 2"
  shows "decode_headers e (vw pre (lines_text ls @ crlf @ b) post) hdrs =
    Inr (Some (vw (pre @ lines_text (butlast ls)) (last ls @ crlf @ crlf @ b) post),
         foldl (\<lambda>h l. map_put (fst (parse_line l)) (snd (parse_line l)) h) hdrs (butlast ls))"
  using assms
proof (induction ls arbitrary: pre hdrs)
  case (Cons l ls)
  let ?t = "lines_text ls @ crlf @ b"
  have ok: "0x0D \<notin> set l" "l \<noteq> []" using Cons.prems(2) by (simp_all add: line_ok_def)
  have f: "search_index crlf (l @ crlf @ ?t) = length l"
    using search_crlf [OF ok(1)] .
  show ?case
  proof (cases "ls = []")
    case True
    then show ?thesis using Cons.prems(4) f
      by (subst decode_headers.simps) (simp add: vw_simps)
  next
    case False
    define n where "n = search_index [0x3A] l"
    have n: "n < length l" "0x3A \<in> set l"
      using Cons.prems(3) False search_index_none_iff [of "[0x3A]" l] search_index_le [of "[0x3A]" l]
      unfolding n_def by (fastforce simp: sublist_def split_list_first dest: split_list)+
    have 0: "e \<noteq> int (length pre + length l)"
      using False Cons.prems(4) Cons.prems(2) by (cases ls) (auto simp: line_ok_def)
    have 1: "SP_between (pre @ (l @ crlf @ ?t) @ post) (int (length pre)) (int (length pre + length l)) =
        Inr (vw pre l (crlf @ ?t @ post))"
      by (rule SP_between_eq) simp_all
    have 2: "SP_between (pre @ (l @ crlf @ ?t) @ post) (int (length pre)) (int (length pre + n)) =
        Inr (vw pre (take n l) (drop n l @ crlf @ ?t @ post))"
      using n by (intro SP_between_eq) simp_all
    have 3: "SP_between (pre @ (l @ crlf @ ?t) @ post) (int (length pre + n) + 1) (int (length pre + length l)) =
        Inr (vw (pre @ take (Suc n) l) (drop (Suc n) l) (crlf @ ?t @ post))"
      using n by (intro SP_between_eq) simp_all
    obtain p q p' q' where 4: "TrimSpace (vw pre (take n l) (drop n l @ crlf @ ?t @ post)) = Inr (vw p (trim (take n l)) q)"
        "TrimSpace (vw (pre @ take (Suc n) l) (drop (Suc n) l) (crlf @ ?t @ post)) = Inr (vw p' (trim (drop (Suc n) l)) q')"
      using TrimSpace_vw by metis
    have 5: "RemovePrefixUntil (vw pre (l @ crlf @ ?t) post) (int (length pre + length l) + 2) =
        Inr (vw (pre @ l @ crlf) ?t post)"
      by (rule RemovePrefixUntil_eq) simp_all
    have 6: "decode_headers e (vw (pre @ l @ crlf) ?t post) (map_put (trim (take n l)) (trim (drop (Suc n) l)) hdrs) =
        Inr (Some (vw ((pre @ l @ crlf) @ lines_text (butlast ls)) (last ls @ crlf @ crlf @ b) post),
         foldl (\<lambda>h l. map_put (fst (parse_line l)) (snd (parse_line l)) h)
           (map_put (trim (take n l)) (trim (drop (Suc n) l)) hdrs) (butlast ls))"
      using Cons.prems False by (intro Cons.IH) simp_all
    show ?thesis
      using 0 1 2 3 4 5 6 f False n
      by (subst decode_headers.simps) (simp add: vw_simps parse_line_def Let_def flip: n_def)
  qed
qed simp

subsection \<open>\<open>Decode\<close> and \<open>Encode\<close>\<close>

lemma slice_view_vw:
  assumes "buf_inv b"
  obtains pre post where "slice_view b = vw pre (content b) post"
proof -
  from assms obtain m r w where b: "b = \<lparr>buffer = m, reader_index = int r, writer_index = int w\<rparr>"
    and le: "r \<le> w" "w \<le> length m"
    by (rule buf_invE) auto
  have "slice_view b = vw (take r m) (content b) (drop w m)"
    using take_sub_drop [of r m "w - r"] le
    by (simp add: b slice_view_def SP_range_def vw_def buf_getters content_def nat_diff_distrib)
  then show thesis by (rule that)
qed

lemma Decode_waits_when_incomplete:
  assumes "buf_inv b" "\<And>pre post. CheckCompleted (vw pre (content b) post) = Inr n" "n \<le> 0"
  shows "Decode m b = Inr (n, m, b)"
proof -
  obtain pre post where "slice_view b = vw pre (content b) post" using slice_view_vw assms(1) by blast
  then show ?thesis using assms(2,3) by (simp add: Decode_def Let_def)
qed

text \<open>What \<open>Decode\<close> does once the end of the header is found.\<close>

lemma Decode_lines:
  assumes inv: "buf_inv b" and c: "content b = fl @ crlf @ lines_text ls @ crlf @ bs @ rest"
    and fl: "0x0D \<notin> set fl" and ls: "ls \<noteq> []" "\<forall>l \<in> set ls. line_ok l" "\<forall>l \<in> set (butlast ls). 0x3A \<in> set l"
    and n: "n = int (length fl + length (lines_text ls) + 4 + length bs)"
    and cc: "\<And>pre post. CheckCompleted (vw pre (content b) post) = Inr n"
  shows "\<exists>b'. Decode m b = Inr (n,
      m\<lparr>first_line := fl,
        headers := foldl (\<lambda>h l. map_put (fst (parse_line l)) (snd (parse_line l)) h) (headers m) (butlast ls),
        body := bs\<rparr>, b') \<and> buf_inv b' \<and> content b' = rest"
proof -
  obtain pre post where v: "slice_view b = vw pre (content b) post" using slice_view_vw inv by blast
  let ?t = "lines_text ls @ crlf @ bs @ rest"
  obtain l0 ls0 where l0: "ls = l0 # ls0" using ls(1) by (cases ls) auto
  have f: "search_index crlf (fl @ crlf @ ?t) = length fl" using search_crlf [OF fl] .
  have 1: "SP_between (pre @ (fl @ crlf @ ?t) @ post) (int (length pre)) (int (length pre + length fl)) =
      Inr (vw pre fl (crlf @ ?t @ post))"
    by (rule SP_between_eq) simp_all
  have 2: "RemovePrefixUntil (vw pre (fl @ crlf @ ?t) post) (int (length pre + length fl) + 2) =
      Inr (vw (pre @ fl @ crlf) ?t post)"
    by (rule RemovePrefixUntil_eq) simp_all
  have l2: "2 \<le> length (lines_text ls)" and len0: "length l0 + 2 \<le> length (lines_text ls)"
    using l0 by simp_all
  have 3: "search_index (crlf @ crlf) ?t = length (lines_text ls) - 2"
    using search_crlf2_text [of l0 ls0 "bs @ rest"] ls(2) l0 by (simp add: line_ok_def)
  have 4: "search_index crlf ?t = length l0"
    using search_crlf [of l0 "lines_text ls0 @ crlf @ bs @ rest"] ls(2) l0 by (simp add: line_ok_def)
  let ?hd = "foldl (\<lambda>h l. map_put (fst (parse_line l)) (snd (parse_line l)) h) (headers m) (butlast ls)"
  have 5: "decode_headers (int (length (pre @ fl @ crlf) + length (lines_text ls)) - 2) (vw (pre @ fl @ crlf) ?t post) (headers m) =
      Inr (Some (vw ((pre @ fl @ crlf) @ lines_text (butlast ls)) (last ls @ crlf @ crlf @ bs @ rest) post), ?hd)"
    by (rule decode_headers_text [OF ls]) simp
  have ll: "length (lines_text ls) = length (lines_text (butlast ls)) + length (last ls) + 2"
    using ls(1) by (metis append_butlast_last_id lines_text_simps length_append length_crlf append_Nil2 add.assoc)
  have 6: "RemovePrefixUntil (vw ((pre @ fl @ crlf) @ lines_text (butlast ls)) (last ls @ crlf @ crlf @ bs @ rest) post)
      (int (length (pre @ fl @ crlf) + length (lines_text ls)) - 2 + 4) =
      Inr (vw (((pre @ fl @ crlf) @ lines_text (butlast ls)) @ last ls @ crlf @ crlf) (bs @ rest) post)"
    using ll by (intro RemovePrefixUntil_eq) simp_all
  let ?pre = "pre @ fl @ crlf @ lines_text (butlast ls) @ last ls @ crlf @ crlf"
  have 7: "mem_get (?pre @ (bs @ rest) @ post) (int (length ?pre)) (int (length ?pre) + int (length bs)) = Inr bs"
    by (rule mem_get_inside [of _ ?pre bs "rest @ post"]) simp_all
  obtain b' where b': "Take b n = Inr b'" "buf_inv b'" "content b' = rest"
    using Take_spec [OF inv, of n] length_content [OF inv] n by (auto simp: c nat_add_distrib)
  have n': "n - (int (length (pre @ fl @ crlf) + length (lines_text ls)) - 2 - int (length pre) + 4) = int (length bs)"
    using n by simp
  show ?thesis
    using cc [of pre post] f 1 2 3 4 5 6 7 b' l2 n' len0
    by (simp add: Decode_def v vw_simps c Let_def)
qed

subsection \<open>Messages whose text can be framed\<close>

definition plain :: "byte list \<times> byte list \<Rightarrow> bool" where
  "plain e \<longleftrightarrow> \<not> sublist content_length (fst e) \<and> \<not> sublist content_length (snd e)"

definition field_ok :: "byte list \<times> byte list \<Rightarrow> bool" where
  "field_ok e \<longleftrightarrow> 0x0D \<notin> set (fst e) \<and> 0x0D \<notin> set (snd e) \<and> 0x3A \<notin> set (fst e) \<and>
     trim (fst e) = fst e \<and> trim (snd e) = snd e"

text \<open>The first header that mentions the length announces it, and is not the last; without one there is no body.\<close>

definition length_ok :: "(byte list \<times> byte list) list \<Rightarrow> byte list \<Rightarrow> bool" where
  "length_ok hs b \<longleftrightarrow>
     (case dropWhile plain hs of [] \<Rightarrow> b = []
      | (k, v) # hs2 \<Rightarrow> k = content_length \<and> v = decimal (length b) \<and> hs2 \<noteq> [])"

definition http_ok :: "HttpMessage \<Rightarrow> bool" where
  "http_ok m \<longleftrightarrow> 0x0D \<notin> set (first_line m) \<and> \<not> sublist content_length (first_line m) \<and>
     headers m \<noteq> [] \<and> map_ok (headers m) \<and> (\<forall>e \<in> set (headers m). field_ok e) \<and>
     length_ok (headers m) (body m) \<and> int (length (body m)) \<le> INT_MAX"

lemma header_line_ok: "field_ok e \<Longrightarrow> line_ok (header_line e)"
  by (auto simp: field_ok_def line_ok_def header_line_def str_def split: prod.splits)

lemma header_line_colon: "0x3A \<in> set (header_line e)"
  by (cases e) (simp add: header_line_def str_def)

lemma trim_space: "trim (0x20 # v) = trim v"
  by (simp add: trim_def isspace_def)

lemma parse_header_line: "field_ok e \<Longrightarrow> parse_line (header_line e) = e"
proof -
  assume e: "field_ok e"
  obtain k v where kv: "e = (k, v)" by (cases e)
  have l: "header_line e = k @ [0x3A] @ 0x20 # v" by (simp add: kv header_line_def str_def)
  have "search_index [0x3A] (header_line e) = length k"
    unfolding l using e by (intro search_index_head) (simp_all add: field_ok_def kv)
  then show ?thesis using e unfolding parse_line_def l
    by (simp add: kv field_ok_def trim_space Let_def)
qed

lemma plain_line: "plain e \<Longrightarrow> \<not> sublist content_length (header_line e)"
proof -
  assume p: "plain e"
  obtain k v where kv: "e = (k, v)" by (cases e)
  have "\<not> sublist content_length (k @ 0x3A # [] @ 0x20 # v)"
    using p content_length_chars by (subst sublist_sep, simp, subst sublist_sep) (simp_all add: plain_def kv)
  then show ?thesis by (simp add: header_line_def kv str_def)
qed

lemma plain_text:
  "\<forall>l \<in> set ls. \<not> sublist content_length l \<Longrightarrow> \<not> sublist content_length fl \<Longrightarrow>
     \<not> sublist content_length (fl @ crlf @ lines_text ls)"
proof (induction ls arbitrary: fl)
  case Nil
  then show ?case
    using sublist_sep [of "0x0D" content_length fl "[0x0A]"] sublist_sep [of "0x0A" content_length "[]" "[]"]
      content_length_chars
    by (simp add: crlf_def)
next
  case (Cons l ls)
  have "sublist content_length (0x0A # l @ crlf @ lines_text ls) \<longleftrightarrow> sublist content_length (l @ crlf @ lines_text ls)"
    using sublist_sep [of "0x0A" content_length "[]" "l @ crlf @ lines_text ls"] content_length_chars by simp
  then show ?case
    using Cons sublist_sep [of "0x0D" content_length fl "0x0A # l @ crlf @ lines_text ls"] content_length_chars
    by (simp add: crlf_def)
qed

lemma sublist_front: "\<not> sublist p (a @ b) \<Longrightarrow> \<not> sublist p a"
  by (auto simp: sublist_append)

lemma search_length_header:
  assumes "\<not> sublist content_length fl" "\<forall>l \<in> set ls. \<not> sublist content_length l"
  shows "search_index content_length (fl @ crlf @ lines_text ls @ content_length @ x) =
    length (fl @ crlf @ lines_text ls)"
proof -
  have n: "\<not> sublist content_length (fl @ crlf @ lines_text ls)" using plain_text assms by blast
  obtain a' where a': "fl @ crlf @ lines_text ls = a' @ [0x0D, 0x0A]"
    by (cases ls rule: rev_cases) (auto simp: crlf_def)
  have "\<not> sublist content_length (a' @ [0x0D])"
    using sublist_front [of content_length "a' @ [0x0D]" "[0x0A]"] n a' by simp
  then have "search_index content_length ((a' @ [0x0D, 0x0A]) @ content_length @ x) = length (a' @ [0x0D, 0x0A])"
    using search_index_sep [of "0x0A" content_length "a' @ [0x0D]"] search_index_none_iff [of content_length "a' @ [0x0D]"]
      search_index_head [of content_length "[]"] content_length_chars
    by simp
  then show ?thesis unfolding a' [symmetric] by simp
qed

text \<open>The header part of the text, up to the empty line.\<close>

definition head_text :: "HttpMessage \<Rightarrow> byte list" where
  "head_text m = first_line m @ crlf @ lines_text (map header_line (butlast (headers m))) @ header_line (last (headers m))"

lemma http_text_head: "headers m \<noteq> [] \<Longrightarrow> http_text m = head_text m @ crlf @ crlf @ body m"
  by (cases "headers m" rule: rev_cases) (simp_all add: http_text_def head_text_def)

lemma head_text_found:
  assumes "http_ok m"
  shows "search_index (crlf @ crlf) (head_text m @ crlf @ crlf @ b) = length (head_text m)"
proof -
  have ne: "headers m \<noteq> []" using assms by (simp add: http_ok_def)
  have t: "head_text m @ crlf @ crlf @ b = first_line m @ crlf @ lines_text (map header_line (headers m)) @ crlf @ b"
    "length (head_text m) = length (first_line m) + length (lines_text (map header_line (headers m)))"
    using ne by (cases "headers m" rule: rev_cases; simp add: head_text_def)+
  show ?thesis
    unfolding t using assms
    by (intro search_crlf2_text) (auto simp: http_ok_def header_line_ok)
qed

lemma length_ok_cases:
  assumes "length_ok hs b"
  obtains "\<forall>e \<in> set hs. plain e" "b = []"
  | hs1 hs2 where "hs = hs1 @ (content_length, decimal (length b)) # hs2" "\<forall>e \<in> set hs1. plain e" "hs2 \<noteq> []"
proof (cases "dropWhile plain hs")
  case Nil
  then have "b = []" using assms unfolding length_ok_def Nil by simp
  moreover have "\<forall>e \<in> set hs. plain e" using Nil by (simp add: dropWhile_eq_Nil_conv)
  ultimately show thesis by (rule that(1) [rotated])
next
  case (Cons e hs2)
  then have "hs = takeWhile plain hs @ (content_length, decimal (length b)) # hs2" "hs2 \<noteq> []"
    using assms takeWhile_dropWhile_id [of plain hs] by (auto simp: length_ok_def split: prod.splits)
  then show thesis using that(2) [of "takeWhile plain hs" hs2] set_takeWhileD by metis
qed

lemma CheckCompleted_text:
  assumes ok: "http_ok m" and b: "prefix b (body m) \<or> b = body m @ rest"
  shows "CheckCompleted (vw pre (head_text m @ crlf @ crlf @ b) post) =
    Inr (if length b < length (body m) then 0 else int (length (http_text m)))"
proof -
  have ne: "headers m \<noteq> []" and lo: "length_ok (headers m) (body m)"
    and fl: "\<not> sublist content_length (first_line m)" using ok by (simp_all add: http_ok_def)
  have len: "length (http_text m) = length (head_text m) + 4 + length (body m)"
    using http_text_head [OF ne] by simp
  from lo show ?thesis
  proof (cases rule: length_ok_cases)
    case 1
    then have "\<forall>l \<in> set (map header_line (headers m)). \<not> sublist content_length l"
      using plain_line by auto
    from plain_text [OF this fl] have "\<not> sublist content_length (head_text m @ crlf)"
      using ne by (cases "headers m" rule: rev_cases) (simp_all add: head_text_def)
    then have "\<not> sublist content_length (head_text m)" by (rule sublist_front)
    with CheckCompleted_no_body [OF head_text_found [OF ok]] show ?thesis
      using 1 len by simp
  next
    case (2 hs1 hs2)
    let ?a = "first_line m @ crlf @ lines_text (map header_line hs1)"
    let ?r = "lines_text (map header_line (butlast hs2)) @ header_line (last hs2)"
    have h: "head_text m = ?a @ content_length @ str '': '' @ decimal (length (body m)) @ crlf @ ?r"
      using 2 by (simp add: head_text_def butlast_append header_line_def)
    have "search_index content_length (head_text m) = length ?a"
      using search_length_header [of "first_line m" "map header_line hs1"] 2 plain_line fl unfolding h by simp
    from CheckCompleted_length [OF h head_text_found [OF ok] this] show ?thesis
      using ok len by (simp add: http_ok_def)
  qed
qed

lemma butlast_headers:
  assumes "http_ok m"
  shows "foldl (\<lambda>h l. map_put (fst (parse_line l)) (snd (parse_line l)) h) [] (butlast (map header_line (headers m))) =
    butlast (headers m)"
proof -
  have p: "\<And>e. e \<in> set (butlast (headers m)) \<Longrightarrow> parse_line (header_line e) = e"
    using assms by (auto simp: http_ok_def parse_header_line dest: in_set_butlastD)
  have "foldl (\<lambda>h l. map_put (fst (parse_line l)) (snd (parse_line l)) h) h (map header_line hs) =
      foldl (\<lambda>h (k, v). map_put k v h) h hs" if "\<forall>e \<in> set hs. parse_line (header_line e) = e" for h hs
    using that by (induction hs arbitrary: h) (auto split: prod.splits)
  moreover have "map_ok ([] @ butlast (headers m))"
    using assms by (cases "headers m" rule: rev_cases) (auto simp: http_ok_def map_ok_def sorted_wrt_append)
  ultimately show ?thesis using p foldl_map_put [of "[]" "butlast (headers m)"]
    by (simp add: map_butlast [symmetric])
qed

lemma Decode_text:
  assumes ok: "http_ok m" and inv: "buf_inv b" and c: "content b = http_text m @ rest" and h: "headers m0 = []"
  shows "\<exists>b'. Decode m0 b = Inr (int (length (http_text m)), m\<lparr>headers := butlast (headers m)\<rparr>, b') \<and>
    buf_inv b' \<and> content b' = rest"
proof -
  have ne: "headers m \<noteq> []" using ok by (simp add: http_ok_def)
  let ?ls = "map header_line (headers m)"
  have cc: "CheckCompleted (vw pre (content b) post) = Inr (int (length (http_text m)))" for pre post
    using CheckCompleted_text [OF ok, of "body m @ rest" rest pre post] by (simp add: c http_text_head [OF ne])
  have "\<exists>b'. Decode m0 b = Inr (int (length (http_text m)),
      m0\<lparr>first_line := first_line m,
        headers := foldl (\<lambda>h l. map_put (fst (parse_line l)) (snd (parse_line l)) h) (headers m0) (butlast ?ls),
        body := body m\<rparr>, b') \<and> buf_inv b' \<and> content b' = rest"
  proof (rule Decode_lines [OF inv _ _ _ _ _ _ cc])
    show "content b = first_line m @ crlf @ lines_text ?ls @ crlf @ body m @ rest"
      by (simp add: c http_text_def)
  qed (use ok in \<open>auto simp: http_ok_def header_line_ok header_line_colon map_butlast [symmetric] http_text_def\<close>)
  moreover have "m0\<lparr>first_line := first_line m, headers := hs, body := body m\<rparr> = m\<lparr>headers := hs\<rparr>" for hs
    by (cases m; cases m0) simp
  ultimately show ?thesis using butlast_headers [OF ok] h by simp
qed

lemma encode_headers_adds: "adds (encode_headers hs) (lines_text (map header_line hs))"
proof (induction hs)
  case Nil
  then show ?case using adds_skip by (simp add: adds_def holds_def)
next
  case (Cons e hs)
  obtain k v where e: "e = (k, v)" by (cases e)
  have "adds (\<lambda>b. fbind (Append_piece b k) (\<lambda>b. fbind (Append_piece b (str '': '')) (\<lambda>b.
      fbind (Append_piece b v) (\<lambda>b. fbind (Append_piece b crlf) (encode_headers hs)))))
      (k @ str '': '' @ v @ crlf @ lines_text (map header_line hs))"
    by (intro adds_bind adds_piece Cons.IH)
  then show ?case by (simp add: e adds_def header_line_def)
qed

lemma Encode_text:
  assumes "buf_inv b"
  shows "\<exists>b'. Encode m b = Inr (readable_bytes b', b') \<and> buf_inv b' \<and> content b' = content b @ http_text m"
proof -
  have "adds (\<lambda>b. fbind (Append_piece b (first_line m)) (\<lambda>b. fbind (Append_piece b crlf) (\<lambda>b.
      fbind (encode_headers (headers m) b) (\<lambda>b. fbind (Append_piece b crlf) (\<lambda>b. Append_piece b (body m))))))
      (http_text m)"
    unfolding http_text_def by (intro adds_bind adds_piece encode_headers_adds)
  then obtain b' where "fbind (Append_piece b (first_line m)) (\<lambda>b. fbind (Append_piece b crlf) (\<lambda>b.
      fbind (encode_headers (headers m) b) (\<lambda>b. fbind (Append_piece b crlf) (\<lambda>b. Append_piece b (body m))))) = Inr b'"
      "buf_inv b'" "content b' = content b @ http_text m"
    using assms unfolding adds_def holds_def by blast
  then show ?thesis by (auto simp: Encode_def fbind_Inr_iff)
qed

subsection \<open>Request lines\<close>

lemma query_items_shows:
  assumes "list_all2 sp_shows ps (map (\<lambda>(k, v). k @ 0x3D # v) kvs)" "\<forall>(k, v) \<in> set kvs. 0x3D \<notin> set k"
  shows "query_items ps q = Inr (True, foldl (\<lambda>h (k, v). map_put k v h) q kvs)"
  using assms
proof (induction kvs arbitrary: ps q)
  case (Cons e kvs)
  obtain k v where e: "e = (k, v)" by (cases e)
  obtain p ps' pre post where ps: "ps = p # ps'" "p = vw pre (k @ 0x3D # v) post"
      "list_all2 sp_shows ps' (map (\<lambda>(k, v). k @ 0x3D # v) kvs)"
  proof -
    obtain p ps' where "ps = p # ps'" "sp_shows p (k @ 0x3D # v)" "list_all2 sp_shows ps' (map (\<lambda>(k, v). k @ 0x3D # v) kvs)"
      using Cons.prems(1) by (auto simp: list_all2_Cons2 e)
    then show thesis using that unfolding sp_shows_def by blast
  qed
  have 1: "search_index [0x3D] (k @ 0x3D # v) = length k"
    using search_index_head [of "[0x3D]" k v] Cons.prems(2) by (simp add: e)
  have 2: "mem_get (pre @ (k @ 0x3D # v) @ post) (int (length pre)) (int (length pre + length k)) = Inr k"
    by (rule mem_get_inside [of _ pre k "0x3D # v @ post"]) simp_all
  have 3: "mem_get (pre @ (k @ 0x3D # v) @ post) (int (length pre + length k) + 1) (int (length pre + length (k @ 0x3D # v))) = Inr v"
    by (rule mem_get_inside [of _ "pre @ k @ [0x3D]" v post]) simp_all
  show ?case
    using 1 2 3 ps Cons.IH Cons.prems(2) by (simp add: e vw_simps)
qed simp

section \<open>Properties\<close>


definition sample_message :: HttpMessage where
  "sample_message = \<lparr>first_line = str ''POST / HTTP/1.1'',
     headers = [(content_length, decimal 2), (str ''Host'', str ''a'')], body = str ''hi''\<rparr>"

lemma sample_message_ok: "http_ok sample_message"
proof -
  have d: "decimal 2 = [0x32]" by (simp add: decimal.simps)
  show ?thesis
    unfolding http_ok_def sample_message_def d
    by (simp add: str_def field_ok_def length_ok_def plain_def map_ok_def trim_def isspace_def d
        sublist_Cons_right decimal.simps)
qed

lemma sample_buffer: "\<exists>b. buf_inv b \<and> content b = bs"
proof -
  obtain b0 where b0: "buf_inv b0" "content b0 = []"
    using Buffer_new_spec [of 0] by (auto simp: buf_consts)
  then obtain b where "Append_piece b0 bs = Inr b" "buf_inv b" "content b = bs"
    using adds_piece [of bs] unfolding adds_def holds_def by fastforce
  then show ?thesis by blast
qed


lemma Decode_prefix_waits:
  assumes ok: "http_ok m" and inv: "buf_inv b" and p: "strict_prefix (content b) (http_text m)"
  shows "Decode m0 b = Inr (0, m0, b)"
proof (rule Decode_waits_when_incomplete [OF inv])
  fix pre post
  let ?h = "head_text m @ crlf @ crlf"
  have t: "http_text m = ?h @ body m" using ok http_text_head by (simp add: http_ok_def)
  show "CheckCompleted (vw pre (content b) post) = Inr 0"
  proof (cases "length (content b) < length ?h")
    case True
    have "search_index (crlf @ crlf) (content b) = length (content b)"
    proof (rule search_index_prefix)
      show "prefix (content b) (http_text m)" using p by (simp add: strict_prefix_def)
      show "length (content b) < search_index (crlf @ crlf) (http_text m) + length (crlf @ crlf)"
        using True head_text_found [OF ok, of "body m"] t by simp
    qed (simp add: crlf_def)
    then show ?thesis by (rule CheckCompleted_incomplete)
  next
    case False
    then obtain c where c: "content b = ?h @ c" "strict_prefix c (body m)"
      using strict_prefix_append_split [OF p [unfolded t]] by blast
    then have "length c < length (body m)" "prefix c (body m)"
      using prefix_length_less by (auto simp: strict_prefix_def)
    then show ?thesis using CheckCompleted_text [OF ok, of c "[]" pre post] c by simp
  qed
qed simp

text \<open>Incremental input. On every proper prefix of a well-formed message
  the decoder answers 0, that is, asks for more bytes, and changes neither the
  message nor the buffer: no prefix is mistaken for an error or for a message.\<close>

theorem Decode_waits:
  assumes "http_ok m" and "buf_inv b" and "strict_prefix (content b) (http_text m)"
  shows "Decode m0 b = Inr (0, m0, b)"
  using assms by (rule Decode_prefix_waits)

theorem Decode_waits_witness:
  "\<exists>b. content b = str ''POST / HTTP/1.1'' \<and> Decode HttpMessage_new b = Inr (0, HttpMessage_new, b)"
proof -
  obtain b where b: "buf_inv b" "content b = str ''POST / HTTP/1.1''" using sample_buffer by blast
  have "strict_prefix (content b) (http_text sample_message)"
    unfolding b(2) by (simp add: http_text_def sample_message_def strict_prefix_def crlf_def)
  from Decode_waits [OF sample_message_ok b(1) this, of HttpMessage_new] b show ?thesis by blast
qed

text \<open>Writing a well-formed message into an empty buffer and reading it back
  returns the number of bytes written, the first line and the body, and an empty
  buffer, but the message read lacks the last header of the one written.\<close>

theorem Encode_Decode_loses_last_header:
  assumes "http_ok m" "buf_inv b" "content b = []"
  shows "\<exists>n b' b''. Encode m b = Inr (n, b') \<and>
    Decode HttpMessage_new b' = Inr (n, m\<lparr>headers := butlast (headers m)\<rparr>, b'') \<and> content b'' = [] \<and>
    m\<lparr>headers := butlast (headers m)\<rparr> \<noteq> m"
proof -
  obtain b' where b': "Encode m b = Inr (readable_bytes b', b')" "buf_inv b'" "content b' = http_text m @ []"
    using Encode_text [OF assms(2), of m] assms(3) by auto
  obtain b'' where "Decode HttpMessage_new b' = Inr (int (length (http_text m)), m\<lparr>headers := butlast (headers m)\<rparr>, b'')"
      "content b'' = []"
    using Decode_text [OF assms(1) b'(2,3), of HttpMessage_new] by (auto simp: HttpMessage_new_def)
  moreover have "readable_bytes b' = int (length (http_text m))"
    using length_content [OF b'(2)] b'(3) by simp
  moreover have "m\<lparr>headers := butlast (headers m)\<rparr> \<noteq> m"
  proof
    assume "m\<lparr>headers := butlast (headers m)\<rparr> = m"
    then have "length (butlast (headers m)) = length (headers m)" by (metis HttpMessage.select_convs(2) HttpMessage.surjective HttpMessage.update_convs(2))
    moreover have "0 < length (headers m)" using assms(1) unfolding http_ok_def by blast
    ultimately show False unfolding length_butlast by linarith
  qed
  ultimately show ?thesis using b'(1) by auto
qed

theorem Encode_Decode_loses_last_header_witness:
  "\<exists>n b b' b''. Encode sample_message b = Inr (n, b') \<and>
    Decode HttpMessage_new b' = Inr (n, sample_message\<lparr>headers := [(content_length, decimal 2)]\<rparr>, b'')"
proof -
  obtain b where "buf_inv b" "content b = []" using sample_buffer by blast
  from Encode_Decode_loses_last_header [OF sample_message_ok this] show ?thesis
    by (auto simp: sample_message_def)
qed

text \<open>Three line ends after the first line stop the program: the empty line
  is found before the headers begin, the length of the body is computed as
  minus two and the string constructor throws.\<close>

theorem Decode_throws_on_blank_lines:
  assumes "buf_inv b" "content b = fl @ crlf @ crlf @ crlf @ rest"
    and "0x0D \<notin> set fl" "\<not> sublist content_length fl"
  shows "Decode m0 b = Inl StdException"
proof -
  obtain pre post where v: "slice_view b = vw pre (content b) post" using slice_view_vw assms(1) by blast
  have "search_index (crlf @ crlf) (fl @ crlf @ crlf @ crlf @ rest) = length fl"
    using search_index_head [of "crlf @ crlf" fl "crlf @ rest"] assms(3) by (simp add: crlf_def)
  then have cc: "CheckCompleted (vw pre (content b) post) = Inr (int (length fl) + 4)"
    using CheckCompleted_no_body [of fl "crlf @ rest"] assms(2,4) by simp
  let ?t = "crlf @ crlf @ rest"
  have 1: "SP_between (pre @ (fl @ crlf @ ?t) @ post) (int (length pre)) (int (length pre + length fl)) =
      Inr (vw pre fl (crlf @ ?t @ post))"
    by (rule SP_between_eq) simp_all
  have 2: "RemovePrefixUntil (vw pre (fl @ crlf @ ?t) post) (int (length pre + length fl) + 2) =
      Inr (vw (pre @ fl @ crlf) ?t post)"
    by (rule RemovePrefixUntil_eq) simp_all
  have 3: "search_index crlf (fl @ crlf @ ?t) = length fl" using search_crlf [OF assms(3)] .
  have 4: "search_index (crlf @ crlf) ?t = 0" "search_index crlf ?t = 0" by (simp_all add: crlf_def)
  have 5: "decode_headers (int (length (pre @ fl @ crlf))) (vw (pre @ fl @ crlf) ?t post) (headers m0) =
      Inr (Some (vw (pre @ fl @ crlf) ?t post), headers m0)"
    by (subst decode_headers.simps) (simp add: vw_simps 4)
  have 6: "RemovePrefixUntil (vw (pre @ fl @ crlf) ?t post) (int (length (pre @ fl @ crlf)) + 4) =
      Inr (vw ((pre @ fl @ crlf) @ crlf @ crlf) rest post)"
    by (rule RemovePrefixUntil_eq) simp_all
  show ?thesis
    using cc 1 2 3 4 5 6 by (simp add: Decode_def v vw_simps assms(2) Let_def)
qed

theorem Decode_throws_on_blank_lines_witness:
  "\<exists>b. content b = str ''X'' @ crlf @ crlf @ crlf \<and> Decode HttpMessage_new b = Inl StdException"
proof -
  obtain b where b: "buf_inv b" "content b = str ''X'' @ crlf @ crlf @ crlf @ []" using sample_buffer by blast
  have "0x0D \<notin> set (str ''X'')" "\<not> sublist content_length (str ''X'')"
    by (simp_all add: str_def sublist_Cons_right)
  from Decode_throws_on_blank_lines [OF b this] b show ?thesis by auto
qed

text \<open>A message that announces its length in its last header is refused.\<close>

theorem Decode_refuses_final_length:
  assumes "buf_inv b" "content b = fl @ crlf @ lines_text ls @ (content_length @ str '': '' @ v) @ crlf @ crlf @ rest"
    and "0x0D \<notin> set (fl @ v)" "\<forall>l \<in> set ls. line_ok l"
    and "\<not> sublist content_length fl" "\<forall>l \<in> set ls. \<not> sublist content_length l"
  shows "Decode m0 b = Inr (-1, m0, b)"
proof (rule Decode_waits_when_incomplete [OF assms(1)])
  fix pre post
  let ?l = "content_length @ str '': '' @ v"
  let ?a = "fl @ crlf @ lines_text ls"
  let ?h = "?a @ ?l"
  have cr: "0x0D \<notin> set ?l" using assms(3) content_length_chars(3) by (simp add: str_def)
  have s: "search_index (crlf @ crlf) (?h @ crlf @ crlf @ rest) = length ?h"
    using search_crlf2_text [of fl "ls @ [?l]" rest] assms(3,4) cr
    by (simp add: line_ok_def content_length_chars(2))
  have f: "search_index content_length ?h = length ?a"
    using search_length_header [OF assms(5,6), of "str '': '' @ v"] by simp
  have 1: "SP_between (pre @ (?h @ crlf @ crlf @ rest) @ post) (int (length pre)) (int (length pre + length ?h)) =
      Inr (vw pre ?h (crlf @ crlf @ rest @ post))"
    by (rule SP_between_eq) simp_all
  have 2: "RemovePrefixUntil (vw pre ?h (crlf @ crlf @ rest @ post)) (int (length pre + length ?a)) =
      Inr (vw (pre @ ?a) ?l (crlf @ crlf @ rest @ post))"
    by (rule RemovePrefixUntil_eq) simp_all
  have 3: "search_index crlf ?l = length ?l"
    using cr by (intro search_index_absent) (simp_all add: crlf_def)
  have "length ?a \<noteq> length ?h" by (simp add: content_length_chars)
  then show "CheckCompleted (vw pre (content b) post) = Inr (-1)"
    using s f 1 2 3 by (simp add: CheckCompleted_def vw_simps assms(2) content_length_chars(1))
qed simp

theorem Decode_refuses_final_length_witness:
  "\<exists>b. content b = str ''X'' @ crlf @ str ''Content-Length: 0'' @ crlf @ crlf \<and>
     Decode HttpMessage_new b = Inr (-1, HttpMessage_new, b)"
proof -
  obtain b where b: "buf_inv b" "content b = str ''X'' @ crlf @ lines_text [] @ (content_length @ str '': '' @ str ''0'') @ crlf @ crlf @ []"
    using sample_buffer by blast
  have "0x0D \<notin> set (str ''X'' @ str ''0'')" "\<not> sublist content_length (str ''X'')"
    by (simp_all add: str_def sublist_Cons_right)
  from Decode_refuses_final_length [OF b this(1) _ this(2) _] b show ?thesis by (auto simp: str_def)
qed

text \<open>Parsing a request line. For a \<open>GET\<close> or \<open>POST\<close> of a path followed by a
  query of items \<open>key=value\<close>, the method, the path, the map of the query and the
  version are read as written; later items overwrite earlier ones.\<close>

theorem request_line_parses:
  assumes fl: "first_line m = (if get then str ''GET'' else str ''POST'') @ 0x20 # url @ 0x3F #
      join 0x26 (map (\<lambda>(k, v). k @ 0x3D # v) kvs) @ 0x20 # str ''HTTP/1.1''"
    and url: "0x20 \<notin> set url" "0x3F \<notin> set url"
    and kvs: "\<forall>(k, v) \<in> set kvs. 0x3D \<notin> set k \<and> {0x20, 0x26} \<inter> (set k \<union> set v) = {}"
  shows "request_line m = Inr \<lparr>rl_method = if get then kGet else kPost, rl_url = url,
    rl_query = foldl (\<lambda>h (k, v). map_put k v h) [] kvs, rl_version = kHttp11\<rparr>"
proof -
  define me where "me = (if get then str ''GET'' else str ''POST'')"
  define items where "items = map (\<lambda>(k, v). k @ 0x3D # v) kvs"
  let ?path = "url @ 0x3F # join 0x26 items"
  have items: "\<forall>x \<in> set items. 0x26 \<notin> set x \<and> 0x20 \<notin> set x \<and> x \<noteq> []"
    using kvs unfolding items_def by auto
  have "\<forall>x \<in> set items. 0x20 \<notin> set x \<Longrightarrow> 0x20 \<notin> set (join 0x26 items)"
    by (induction "0x26 :: byte" items rule: join.induct) auto
  then have path: "0x20 \<notin> set ?path" using items url by simp
  have me: "0x20 \<notin> set me" "me \<noteq> []" by (simp_all add: me_def str_def)
  have "split_on [0x20] (first_line m) = [me, ?path, str ''HTTP/1.1'']"
    using path me split_on_sep [of "0x20" me "?path @ 0x20 # str ''HTTP/1.1''"]
      split_on_sep [of "0x20" ?path "str ''HTTP/1.1''"] split_on_last [of "0x20" "str ''HTTP/1.1''"]
    unfolding fl by (simp add: me_def items_def str_def)
  then obtain s0 s1 s2 where sp: "Split_char (SP_string (first_line m)) 0x20 = Inr [s0, s1, s2]"
      "sp_shows s0 me" "sp_shows s1 ?path" "sp_shows s2 (str ''HTTP/1.1'')"
    using Split_char_shows [of "SP_string (first_line m)" "first_line m" "0x20"]
    by (auto simp: SP_string_vw list_all2_Cons2)
  obtain pre post where s1: "s1 = vw pre ?path post" using sp(3) by (auto simp: sp_shows_def)
  have f: "search_index [0x3F] ?path = length url"
    using search_index_head [of "[0x3F]" url "join 0x26 items"] url by simp
  have 1: "mem_get (pre @ ?path @ post) (int (length pre)) (int (length pre + length url)) = Inr url"
    by (rule mem_get_inside [of _ pre url "0x3F # join 0x26 items @ post"]) simp_all
  have 2: "SP_between (pre @ ?path @ post) (int (length pre + length url) + 1) (int (length pre + length ?path)) =
      Inr (vw (pre @ url @ [0x3F]) (join 0x26 items) post)"
    by (rule SP_between_eq) simp_all
  obtain ps where 3: "Split_char (vw (pre @ url @ [0x3F]) (join 0x26 items) post) 0x26 = Inr ps" "list_all2 sp_shows ps items"
  proof -
    have "split_on [0x26] (join 0x26 items) = items" using items by (intro split_on_join) simp
    then show thesis
      using that Split_char_shows [OF shows_vw, of "pre @ url @ [0x3F]" "join 0x26 items" post "0x26"] by auto
  qed
  have 4: "query_items ps [] = Inr (True, foldl (\<lambda>h (k, v). map_put k v h) [] kvs)"
    using 3(2) kvs unfolding items_def by (intro query_items_shows) auto
  have 5: "sp_eq s0 (lit (str ''GET'')) = Inr get" "sp_eq s0 (lit (str ''POST'')) = Inr (\<not> get)"
      "sp_eq s2 (lit (str ''HTTP/1.1'')) = Inr True"
    using sp_eq_shows [OF sp(2) shows_lit] sp_eq_shows [OF sp(4) shows_lit] by (simp_all add: me_def str_def)
  show ?thesis
    using 1 2 3 4 5 f sp(1) by (simp add: request_line_def Let_def s1 vw_simps RequestLine_new_def)
qed

theorem request_line_parses_witness:
  "request_line (HttpMessage_new\<lparr>first_line := str ''GET /x?a=1&b= HTTP/1.1''\<rparr>) =
     Inr \<lparr>rl_method = kGet, rl_url = str ''/x'',
       rl_query = [(str ''a'', str ''1''), (str ''b'', [])], rl_version = kHttp11\<rparr>"
  using request_line_parses [of "HttpMessage_new\<lparr>first_line := str ''GET /x?a=1&b= HTTP/1.1''\<rparr>" True
      "str ''/x''" "[(str ''a'', str ''1''), (str ''b'', [])]"]
  by (simp add: str_def)

end
