(* ===== verification/Sdp_Message.thy ===== *)
theory Sdp_Message
  imports Http_Message
begin

text \<open>
  \<open>webrtc/sdp/sdp_message.{h,cc}\<close>: picking the credentials, the fingerprint, the
  canonical name and the media sources out of a session description. The decoder
  is shown to return on every text, with what a reading of the text as a list of
  characters gives.
\<close>

section \<open>The code\<close>

record TrackSdp =
  media_type :: "byte list"
  net_protocol :: "byte list"
  payload_type :: "int list"
  extmap :: "(int, byte list) std_map"
  rtpmap :: "(int, byte list) std_map"
  rtcp_fb :: "(int, byte list) std_map"
  fmtp :: "(int, byte list) std_map"
  ssrc_group :: "byte list list"

record NetSdp =
  ice_ufrag :: "byte list"
  ice_pwd :: "byte list"
  finger_print :: "byte list"
  ice_option :: "byte list"
  net_setup :: "byte list"
  net_ip :: "byte list"
  net_port :: u16

record SdpMessage =
  cname :: "byte list"
  tracks :: "TrackSdp list"
  sdp_net :: NetSdp

definition TrackSdp_new :: TrackSdp where
  "TrackSdp_new = \<lparr>media_type = [], net_protocol = [], payload_type = [], extmap = [], rtpmap = [],
     rtcp_fb = [], fmtp = [], ssrc_group = []\<rparr>"

text \<open>\<open>SliceFragment\<close> into a string, which keeps its value when the fragment is empty.\<close>

definition fragment_into :: "StringPiece \<Rightarrow> byte list \<Rightarrow> byte list \<Rightarrow> byte list \<Rightarrow> byte list res" where
  "fragment_into message first lst old =
     fbind (SliceFragment message (lit first) (lit lst)) (\<lambda>f.
     if \<not> sp_empty f then AsString f else Inr old)"

fun as_strings :: "StringPiece list \<Rightarrow> byte list list res" where
  "as_strings [] = Inr []"
| "as_strings (p # ps) = fbind (AsString p) (\<lambda>s. fbind (as_strings ps) (\<lambda>ss. Inr (s # ss)))"

text \<open>The body of the loop over the media sections; \<open>None\<close> is \<open>continue\<close>.\<close>

definition decode_track :: "StringPiece \<Rightarrow> TrackSdp option res" where
  "decode_track media_item =
     (let track = TrackSdp_new in
      fbind (StartsWith media_item (lit (str ''audio''))) (\<lambda>audio.
      fbind (StartsWith media_item (lit (str ''video''))) (\<lambda>video.
      if \<not> audio \<and> \<not> video then Inr None
      else
        let track = track\<lparr>media_type := if audio then str ''audio'' else str ''video''\<rparr> in
        fbind (Find_slice media_item (lit (str ''ssrc-group:FID''))) (\<lambda>group.
        if group = sp_end media_item then
          fbind (SliceFragment media_item (lit (str ''ssrc:'')) (lit (str '' ''))) (\<lambda>ssrc_id.
          if \<not> sp_empty ssrc_id then
            fbind (AsString ssrc_id) (\<lambda>s. Inr (Some (track\<lparr>ssrc_group := ssrc_group track @ [s]\<rparr>)))
          else Inr (Some track))
        else
          fbind (SliceFragment media_item (lit (str ''ssrc-group:FID'')) (lit crlf)) (\<lambda>ssrc_ids.
          if \<not> sp_empty ssrc_ids then
            fbind (Split_slice ssrc_ids (lit (str '' ''))) (\<lambda>ssrc_vector.
            fbind (as_strings ssrc_vector) (\<lambda>ss. Inr (Some (track\<lparr>ssrc_group := ssrc_group track @ ss\<rparr>))))
          else Inr (Some track))))))"

fun decode_tracks :: "StringPiece list \<Rightarrow> TrackSdp list res" where
  "decode_tracks [] = Inr []"
| "decode_tracks (m # ms) =
     fbind (decode_track m) (\<lambda>t. fbind (decode_tracks ms) (\<lambda>ts.
     Inr (case t of None \<Rightarrow> ts | Some t \<Rightarrow> t # ts)))"

definition Sdp_Decode :: "SdpMessage \<Rightarrow> StringPiece \<Rightarrow> (int \<times> SdpMessage) res" where
  "Sdp_Decode this message =
     fbind (fragment_into message (str ''ice-ufrag:'') crlf (ice_ufrag (sdp_net this))) (\<lambda>u.
     fbind (fragment_into message (str ''ice-pwd:'') crlf (ice_pwd (sdp_net this))) (\<lambda>p.
     fbind (fragment_into message (str ''fingerprint:'') crlf (finger_print (sdp_net this))) (\<lambda>f.
     let this = this\<lparr>sdp_net := (sdp_net this)\<lparr>ice_ufrag := u, ice_pwd := p, finger_print := f\<rparr>\<rparr> in
     fbind (fragment_into message (str ''cname:'') crlf (cname this)) (\<lambda>c.
     let this = this\<lparr>cname := c\<rparr> in
     fbind (Find_slice message (lit (str ''m=''))) (\<lambda>media_m.
     fbind (RemovePrefixUntil message media_m) (\<lambda>media_slice.
     fbind (Split_slice media_slice (lit (str ''m=''))) (\<lambda>media_vector.
     fbind (decode_tracks media_vector) (\<lambda>ts.
     Inr (0, this\<lparr>tracks := tracks this @ ts\<rparr>)))))))))"

section \<open>The text as a list of characters\<close>

definition field_or :: "byte list \<Rightarrow> byte list \<Rightarrow> byte list \<Rightarrow> byte list" where
  "field_or key bs old = (let f = fragment key crlf bs in if f = [] then old else f)"

definition track_of :: "byte list \<Rightarrow> TrackSdp option" where
  "track_of bs =
     (if prefix (str ''audio'') bs \<or> prefix (str ''video'') bs then
        Some (TrackSdp_new\<lparr>media_type := if prefix (str ''audio'') bs then str ''audio'' else str ''video'',
          ssrc_group := if sublist (str ''ssrc-group:FID'') bs
            then split_on (str '' '') (fragment (str ''ssrc-group:FID'') crlf bs)
            else filter (\<lambda>s. s \<noteq> []) [fragment (str ''ssrc:'') (str '' '') bs]\<rparr>)
      else None)"

definition sections_of :: "byte list \<Rightarrow> byte list list" where
  "sections_of bs = split_on (str ''m='') (drop (search_index (str ''m='') bs) bs)"

definition sdp_of :: "SdpMessage \<Rightarrow> byte list \<Rightarrow> SdpMessage" where
  "sdp_of this bs = this
     \<lparr>cname := field_or (str ''cname:'') bs (cname this),
      tracks := tracks this @ List.map_filter track_of (sections_of bs),
      sdp_net := (sdp_net this)
        \<lparr>ice_ufrag := field_or (str ''ice-ufrag:'') bs (ice_ufrag (sdp_net this)),
         ice_pwd := field_or (str ''ice-pwd:'') bs (ice_pwd (sdp_net this)),
         finger_print := field_or (str ''fingerprint:'') bs (finger_print (sdp_net this))\<rparr>\<rparr>"

lemma shows_AsString: "sp_shows s bs \<Longrightarrow> AsString s = Inr bs"
  by (auto simp: sp_shows_def AsString_vw)

lemma shows_empty: "sp_shows s bs \<Longrightarrow> sp_empty s \<longleftrightarrow> bs = []"
  by (auto simp: sp_shows_def vw_simps)

lemma fragment_into_shows:
  "sp_shows s bs \<Longrightarrow> fragment_into s key crlf old = Inr (field_or key bs old)"
  using SliceFragment_shows [OF _ shows_lit shows_lit, of s bs key crlf]
  by (auto simp: fragment_into_def field_or_def shows_empty shows_AsString Let_def)

lemma as_strings_shows: "list_all2 sp_shows ps bss \<Longrightarrow> as_strings ps = Inr bss"
  by (induction ps bss rule: list_all2_induct) (auto simp: shows_AsString)

lemma decode_track_shows:
  assumes s: "sp_shows m bs"
  shows "decode_track m = Inr (track_of bs)"
proof -
  obtain pre post where m: "m = vw pre bs post" using s by (auto simp: sp_shows_def)
  have sw: "StartsWith m (lit x) = Inr (prefix x bs)" for x using StartsWith_shows [OF s shows_lit] .
  have g: "Find_slice m (lit x) = Inr (int (length pre + search_index x bs))" for x
    unfolding m by (rule Find_lit_vw)
  have e: "int (length pre + search_index (str ''ssrc-group:FID'') bs) = sp_end m \<longleftrightarrow> \<not> sublist (str ''ssrc-group:FID'') bs"
    using search_index_none_iff [of "str ''ssrc-group:FID''" bs] by (simp add: m vw_simps str_def)
  obtain f1 where f1: "SliceFragment m (lit (str ''ssrc:'')) (lit (str '' '')) = Inr f1"
      "sp_shows f1 (fragment (str ''ssrc:'') (str '' '') bs)"
    using SliceFragment_shows [OF s shows_lit shows_lit] by blast
  obtain f2 where f2: "SliceFragment m (lit (str ''ssrc-group:FID'')) (lit crlf) = Inr f2"
      "sp_shows f2 (fragment (str ''ssrc-group:FID'') crlf bs)"
    using SliceFragment_shows [OF s shows_lit shows_lit] by blast
  obtain ps where ps: "Split_slice f2 (lit (str '' '')) = Inr ps"
      "list_all2 sp_shows ps (split_on (str '' '') (fragment (str ''ssrc-group:FID'') crlf bs))"
    using Split_slice_shows [OF f2(2) shows_lit, of "str '' ''"] by (auto simp: str_def)
  show ?thesis
    unfolding decode_track_def Let_def sw g f1(1) f2(1) ps(1) fbind_simps e
      shows_empty [OF f1(2)] shows_empty [OF f2(2)] shows_AsString [OF f1(2)] as_strings_shows [OF ps(2)]
    by (auto simp: track_of_def TrackSdp_new_def split_on.simps [of _ "[]"])
qed

lemma decode_tracks_shows: "list_all2 sp_shows ps bss \<Longrightarrow> decode_tracks ps = Inr (List.map_filter track_of bss)"
  by (induction ps bss rule: list_all2_induct)
    (auto simp: decode_track_shows map_filter_simps split: option.splits)

section \<open>Properties\<close>

text \<open>C25. On every text the decoder returns 0: it never fails, and the message it
  leaves is the one read off the characters of the text, field by field and
  media section by media section.\<close>

theorem Sdp_Decode_refines:
  assumes "sp_shows message bs"
  shows "Sdp_Decode this message = Inr (0, sdp_of this bs)"
proof -
  obtain pre post where m: "message = vw pre bs post" using assms by (auto simp: sp_shows_def)
  let ?n = "search_index (str ''m='') bs"
  have 1: "Find_slice message (lit (str ''m='')) = Inr (int (length pre + ?n))"
    unfolding m by (rule Find_lit_vw)
  have 2: "RemovePrefixUntil message (int (length pre + ?n)) = Inr (vw (pre @ take ?n bs) (drop ?n bs) post)"
    unfolding m using search_index_le by (rule RemovePrefixUntil_vw)
  obtain ps where ps: "Split_slice (vw (pre @ take ?n bs) (drop ?n bs) post) (lit (str ''m='')) = Inr ps"
      "list_all2 sp_shows ps (sections_of bs)"
    using Split_slice_shows [OF shows_vw [of "pre @ take ?n bs" "drop ?n bs" post] shows_lit [of "str ''m=''"]]
    by (auto simp: sections_of_def str_def)
  show ?thesis
    unfolding Sdp_Decode_def fragment_into_shows [OF assms] fbind_simps Let_def 1 2 ps(1) decode_tracks_shows [OF ps(2)]
    by (simp add: sdp_of_def)
qed

theorem Sdp_Decode_refines_witness:
  "ice_pwd (sdp_net (snd (projr (Sdp_Decode
     \<lparr>cname = [], tracks = [], sdp_net = \<lparr>ice_ufrag = [], ice_pwd = [], finger_print = [], ice_option = [],
        net_setup = [], net_ip = [], net_port = 0\<rparr>\<rparr> (SP_string (str ''a=ice-pwd:xy'' @ crlf)))))) = str ''xy''"
proof -
  have "sp_shows (SP_string (str ''a=ice-pwd:xy'' @ crlf)) (str ''a=ice-pwd:xy'' @ crlf)"
    unfolding SP_string_vw by simp
  from Sdp_Decode_refines [OF this] show ?thesis
    by (simp add: sdp_of_def field_or_def fragment_def str_def crlf_def Let_def)
qed

end
