(* ===== verification/Log_Stream.thy ===== *)
theory Log_Stream
  imports Net_Buffer String_Piece
begin

text \<open>
  \<open>kernel/log/log_stream.{h,cc}\<close>: the stream that formats one log line into a
  thread-local array, and the helpers that format into a second such array. The
  arrays are objects of the model, so that what the calls of \<open>snprintf\<close> write
  and where is visible.
\<close>

section \<open>Formatting\<close>

text \<open>
  \<open>snprintf(m + pos, size, ...)\<close> with the text the format produces: at most
  \<open>size - 1\<close> characters and a null character are stored when \<open>size\<close> is not 0,
  and the length of the whole text is returned. The size is a \<open>size_t\<close>, to
  which a negative \<open>int\<close> converts as a huge number.
\<close>

definition to_size_t :: "int \<Rightarrow> int" where
  "to_size_t n = n mod 2 ^ 64"

definition snprintf :: "byte list \<Rightarrow> int \<Rightarrow> int \<Rightarrow> byte list \<Rightarrow> (byte list \<times> int) res" where
  "snprintf m pos sz text =
     (let n = to_size_t sz in
      if n = 0 then Inr (m, int (length text))
      else fbind (mem_put m pos (take (nat (n - 1)) text @ [0])) (\<lambda>m. Inr (m, int (length text))))"

text \<open>What \<open>%d\<close> prints, and the two hexadecimal digits of \<open>%.2x\<close>.\<close>

definition signed_decimal :: "int \<Rightarrow> byte list" where
  "signed_decimal v = (if v < 0 then str ''-'' @ decimal (nat (- v)) else decimal (nat v))"

definition hex_digit :: "nat \<Rightarrow> byte" where
  "hex_digit d = word_of_nat (if d < 10 then 48 + d else 87 + d)"

definition hex2 :: "byte \<Rightarrow> byte list" where
  "hex2 b = [hex_digit (unat b div 16), hex_digit (unat b mod 16)]"

text \<open>What \<open>%#x\<close> prints.\<close>

fun hex :: "nat \<Rightarrow> byte list" where
  "hex n = (if n < 16 then [hex_digit n] else hex (n div 16) @ [hex_digit (n mod 16)])"

declare hex.simps [simp del]

definition alt_hex :: "nat \<Rightarrow> byte list" where
  "alt_hex n = (if n = 0 then str ''0'' else str ''0x'' @ hex n)"

text \<open>A C string read back from an array.\<close>

definition c_string :: "byte list \<Rightarrow> byte list" where
  "c_string m = takeWhile (\<lambda>c. c \<noteq> 0) m"

section \<open>The code\<close>

definition klogBufferLen :: int where "klogBufferLen = 65536"

text \<open>
  \<open>StringAppend\<close>, \<open>TempFmt\<close>: \<open>text\<close> is what the format and its arguments produce.
  The array \<open>g_extbuf\<close> is overwritten from its start.
\<close>

definition StringAppend :: "byte list \<Rightarrow> byte list \<Rightarrow> byte list \<Rightarrow> (byte list \<times> byte list) res" where
  "StringAppend ext s text =
     fbind (snprintf ext 0 klogBufferLen text) (\<lambda>(ext, _). Inr (ext, s @ c_string ext @ [0x0A]))"

definition TempFmt :: "byte list \<Rightarrow> byte list \<Rightarrow> (byte list \<times> byte list) res" where
  "TempFmt ext text = fbind (snprintf ext 0 klogBufferLen text) (\<lambda>(ext, _). Inr (ext, c_string ext))"

text \<open>A sequence of calls of \<open>StringAppend\<close> on one string, as the \<open>Dump\<close> functions make.\<close>

fun append_lines :: "byte list \<Rightarrow> byte list \<Rightarrow> byte list list \<Rightarrow> (byte list \<times> byte list) res" where
  "append_lines ext s [] = Inr (ext, s)"
| "append_lines ext s (t # ts) = fbind (StringAppend ext s t) (\<lambda>(ext, s). append_lines ext s ts)"

fun DumpHexFormat_loop :: "byte list \<Rightarrow> int \<Rightarrow> nat \<Rightarrow> byte list \<Rightarrow> (byte list \<times> int) res" where
  "DumpHexFormat_loop ext pos i [] = Inr (ext, pos)"
| "DumpHexFormat_loop ext pos i (b # bs) =
     fbind (if i mod 16 = 0 then fbind (mem_put ext pos [0x0A]) (\<lambda>ext. Inr (ext, pos + 1))
            else if i mod 8 = 0 then fbind (mem_put ext pos [0x20]) (\<lambda>ext. Inr (ext, pos + 1))
            else Inr (ext, pos)) (\<lambda>(ext, pos).
     fbind (snprintf ext pos 4 (hex2 b @ [0x20])) (\<lambda>(ext, _).
     DumpHexFormat_loop ext (pos + 3) (i + 1) bs))"

definition DumpHexFormat :: "byte list \<Rightarrow> byte list \<Rightarrow> (byte list \<times> byte list) res" where
  "DumpHexFormat ext s =
     fbind (DumpHexFormat_loop ext 0 0 s) (\<lambda>(ext, pos).
     fbind (mem_put ext pos [0]) (\<lambda>ext. Inr (ext, c_string ext)))"

fun DumpHex_loop :: "byte list \<Rightarrow> nat \<Rightarrow> byte list \<Rightarrow> byte list res" where
  "DumpHex_loop ext i [] = Inr ext"
| "DumpHex_loop ext i (b # bs) =
     fbind (snprintf ext (int i * 2) 3 (hex2 b)) (\<lambda>(ext, _). DumpHex_loop ext (i + 1) bs)"

definition DumpHex :: "byte list \<Rightarrow> byte list \<Rightarrow> (byte list \<times> byte list) res" where
  "DumpHex ext s = fbind (DumpHex_loop ext 0 s) (\<lambda>ext. Inr (ext, c_string ext))"

record LogStream =
  g_logbuffer :: "byte list"
  ls_cur :: int

definition LogStream_new :: "byte list \<Rightarrow> LogStream" where
  "LogStream_new m = \<lparr>g_logbuffer = m, ls_cur = 0\<rparr>"

definition LogStream_Append :: "LogStream \<Rightarrow> byte list \<Rightarrow> LogStream res" where
  "LogStream_Append s buf =
     (let len = int (length buf) in
      if ls_cur s + len \<le> klogBufferLen then
        fbind (mem_put (g_logbuffer s) (ls_cur s) buf) (\<lambda>m. Inr (s\<lparr>g_logbuffer := m, ls_cur := ls_cur s + len\<rparr>))
      else Inr s)"

definition LogStream_buffer :: "LogStream \<Rightarrow> byte list" where
  "LogStream_buffer s = g_logbuffer s"

definition LogStream_length :: "LogStream \<Rightarrow> int" where
  "LogStream_length s = ls_cur s"

text \<open>The body that the operators for numbers share: \<open>snprintf\<close> at the current position, which then advances by its result.\<close>

definition LogStream_snprintf :: "LogStream \<Rightarrow> byte list \<Rightarrow> LogStream res" where
  "LogStream_snprintf s text =
     fbind (snprintf (g_logbuffer s) (ls_cur s) (klogBufferLen - LogStream_length s) text) (\<lambda>(m, len).
     Inr (s\<lparr>g_logbuffer := m, ls_cur := ls_cur s + len\<rparr>))"

definition put_bool :: "LogStream \<Rightarrow> bool \<Rightarrow> LogStream res" where
  "put_bool s v = LogStream_Append s (if v then str ''true'' else str ''false'')"

definition put_char :: "LogStream \<Rightarrow> byte \<Rightarrow> LogStream res" where
  "put_char s v = LogStream_Append s [v]"

definition put_short :: "LogStream \<Rightarrow> 16 word \<Rightarrow> LogStream res" where
  "put_short s v = LogStream_snprintf s (signed_decimal (sint v))"

definition put_ushort :: "LogStream \<Rightarrow> u16 \<Rightarrow> LogStream res" where
  "put_ushort s v = LogStream_snprintf s (decimal (unat v))"

definition put_int :: "LogStream \<Rightarrow> 32 word \<Rightarrow> LogStream res" where
  "put_int s v = LogStream_snprintf s (signed_decimal (sint v))"

definition put_uint :: "LogStream \<Rightarrow> u32 \<Rightarrow> LogStream res" where
  "put_uint s v = LogStream_snprintf s (decimal (unat v))"

definition put_long :: "LogStream \<Rightarrow> 64 word \<Rightarrow> LogStream res" where
  "put_long s v = LogStream_snprintf s (signed_decimal (sint v))"

definition put_ulong :: "LogStream \<Rightarrow> u64 \<Rightarrow> LogStream res" where
  "put_ulong s v = LogStream_snprintf s (decimal (unat v))"

definition put_llong :: "LogStream \<Rightarrow> 64 word \<Rightarrow> LogStream res" where
  "put_llong s v = LogStream_snprintf s (signed_decimal (sint v))"

definition put_ullong :: "LogStream \<Rightarrow> u64 \<Rightarrow> LogStream res" where
  "put_ullong s v = LogStream_snprintf s (decimal (unat v))"

text \<open>Floating-point numbers enter as the text that \<open>%g\<close> gives for them.\<close>

definition put_float :: "('f \<Rightarrow> byte list) \<Rightarrow> LogStream \<Rightarrow> 'f \<Rightarrow> LogStream res" where
  "put_float print_g s v = LogStream_snprintf s (print_g v)"

definition put_double :: "('d \<Rightarrow> byte list) \<Rightarrow> LogStream \<Rightarrow> 'd \<Rightarrow> LogStream res" where
  "put_double print_g s v = LogStream_snprintf s (print_g v)"

text \<open>\<open>None\<close> is the null pointer.\<close>

definition put_cstr :: "LogStream \<Rightarrow> byte list option \<Rightarrow> LogStream res" where
  "put_cstr s v = (case v of Some t \<Rightarrow> LogStream_Append s (c_string t) | None \<Rightarrow> LogStream_Append s (str ''(null)''))"

definition put_string :: "LogStream \<Rightarrow> byte list \<Rightarrow> LogStream res" where
  "put_string s v = LogStream_Append s v"

definition put_piece :: "LogStream \<Rightarrow> StringPiece \<Rightarrow> LogStream res" where
  "put_piece s v = fbind (AsString v) (LogStream_Append s)"

text \<open>\<open>Fmt\<close>: the text must fit its array of 32 characters.\<close>

definition Fmt_new :: "byte list \<Rightarrow> (byte list \<times> int) res" where
  "Fmt_new text =
     fbind (snprintf (replicate 32 0) 0 32 text) (\<lambda>(buf, len).
     fbind (assert_that (len < 32)) (\<lambda>_. Inr (buf, len)))"

section \<open>What the calls write\<close>

definition log_inv :: "LogStream \<Rightarrow> bool" where
  "log_inv s \<longleftrightarrow> int (length (g_logbuffer s)) = klogBufferLen \<and> 0 \<le> ls_cur s \<and> ls_cur s \<le> klogBufferLen"

text \<open>The line formatted so far.\<close>

definition logged :: "LogStream \<Rightarrow> byte list" where
  "logged s = take (nat (ls_cur s)) (g_logbuffer s)"

lemma length_decimal: "n < 10 ^ k \<Longrightarrow> 0 < k \<Longrightarrow> length (decimal n) \<le> k"
proof (induction n arbitrary: k rule: decimal.induct)
  case (1 n)
  show ?case
  proof (cases "n < 10")
    case True
    then show ?thesis using 1(3) by (subst decimal.simps) simp
  next
    case False
    obtain k' where k: "k = Suc k'" using 1(3) by (cases k) auto
    with 1(2) False have "0 < k'" by (cases k') auto
    then have "length (decimal (n div 10)) \<le> k'" using 1(2) False k \<open>0 < k'\<close> by (intro 1(1)) auto
    then show ?thesis using False k by (subst decimal.simps) simp
  qed
qed

lemma to_size_t_negative: "- (2 ^ 64) \<le> n \<Longrightarrow> n < 0 \<Longrightarrow> to_size_t n = n + 2 ^ 64"
  using mod_pos_pos_trivial [of "n + 2 ^ 64" "2 ^ 64"] by (simp add: to_size_t_def)

lemma c_string_append: "0 \<notin> set a \<Longrightarrow> c_string (a @ 0 # b) = a"
  by (auto simp: c_string_def takeWhile_append)

lemma mem_put_inside:
  "0 \<le> i \<Longrightarrow> i + int (length bs) \<le> int (length m) \<Longrightarrow> mem_put m i bs = Inr (window m (nat i) bs)"
  by (simp add: mem_put_def)

lemma take_window: "i \<le> length m \<Longrightarrow> take (i + k) (window m i bs) = take i m @ take k (bs @ drop (i + length bs) m)"
  by (simp add: window_def)

lemma log_invE:
  assumes "log_inv s"
  obtains m c where "s = \<lparr>g_logbuffer = m, ls_cur = int c\<rparr>" "length m = 65536" "c \<le> 65536"
proof
  show "s = \<lparr>g_logbuffer = g_logbuffer s, ls_cur = int (nat (ls_cur s))\<rparr>"
    using assms by (cases s) (simp add: log_inv_def)
qed (use assms in \<open>auto simp: log_inv_def klogBufferLen_def\<close>)

lemma length_logged: "log_inv s \<Longrightarrow> int (length (logged s)) = ls_cur s"
  by (erule log_invE) (simp add: logged_def)

lemma write_at_cur:
  assumes "length m = 65536" "c + length bs \<le> 65536"
  shows "mem_put m (int c) bs = Inr (window m c bs)" "length (window m c bs) = 65536"
    "take (c + length bs) (window m c bs) = take c m @ bs"
  using assms take_window [of c m "length bs" bs] by (simp_all add: mem_put_inside)

lemma LogStream_Append_spec:
  assumes "log_inv s"
  shows "\<exists>s'. LogStream_Append s bs = Inr s' \<and> log_inv s' \<and>
    logged s' = (if ls_cur s + int (length bs) \<le> klogBufferLen then logged s @ bs else logged s)"
proof -
  obtain m c where s: "s = \<lparr>g_logbuffer = m, ls_cur = int c\<rparr>" "length m = 65536" "c \<le> 65536"
    using assms by (rule log_invE)
  show ?thesis
  proof (cases "c + length bs \<le> 65536")
    case True
    then have "LogStream_Append s bs = Inr \<lparr>g_logbuffer = window m c bs, ls_cur = int (c + length bs)\<rparr>"
      using write_at_cur [OF s(2) True] by (simp add: LogStream_Append_def s(1) Let_def klogBufferLen_def)
    then show ?thesis
      using write_at_cur [OF s(2) True] True
      by (simp add: log_inv_def logged_def s(1) klogBufferLen_def flip: of_nat_add)
  qed (use assms s in \<open>simp add: LogStream_Append_def klogBufferLen_def\<close>)
qed

lemma LogStream_snprintf_spec:
  assumes "log_inv s" "ls_cur s + int (length text) < klogBufferLen"
  shows "\<exists>s'. LogStream_snprintf s text = Inr s' \<and> log_inv s' \<and> logged s' = logged s @ text"
proof -
  obtain m c where s: "s = \<lparr>g_logbuffer = m, ls_cur = int c\<rparr>" "length m = 65536" "c \<le> 65536"
    using assms(1) by (rule log_invE)
  have le: "c + length (text @ [0]) \<le> 65536" using assms(2) by (simp add: s(1) klogBufferLen_def)
  let ?m = "window m c (text @ [0])"
  have "to_size_t (65536 - int c) = 65536 - int c"
    using s(3) by (simp add: to_size_t_def)
  then have r: "LogStream_snprintf s text = Inr \<lparr>g_logbuffer = ?m, ls_cur = int (c + length text)\<rparr>"
    using write_at_cur [OF s(2) le] le
    by (simp add: LogStream_snprintf_def LogStream_length_def snprintf_def Let_def s(1) klogBufferLen_def)
  have "take (c + length text) ?m = take c m @ text"
    using take_window [of c m "length text" "text @ [0]"] s by simp
  then show ?thesis
    using r write_at_cur(2) [OF s(2) le] le
    by (simp add: log_inv_def logged_def s(1) klogBufferLen_def flip: of_nat_add)
qed

text \<open>One \<open><<\<close> of a log statement, the call it makes and the text it should add.\<close>

datatype log_item =
    LBool bool | LChar byte | LShort "16 word" | LUShort u16 | LInt "32 word" | LUInt u32
  | LLong "64 word" | LULong u64 | LCstr "byte list option" | LString "byte list"

fun put_item :: "LogStream \<Rightarrow> log_item \<Rightarrow> LogStream res" where
  "put_item s (LBool v) = put_bool s v"
| "put_item s (LChar v) = put_char s v"
| "put_item s (LShort v) = put_short s v"
| "put_item s (LUShort v) = put_ushort s v"
| "put_item s (LInt v) = put_int s v"
| "put_item s (LUInt v) = put_uint s v"
| "put_item s (LLong v) = put_long s v"
| "put_item s (LULong v) = put_ulong s v"
| "put_item s (LCstr v) = put_cstr s v"
| "put_item s (LString v) = put_string s v"

fun put_items :: "LogStream \<Rightarrow> log_item list \<Rightarrow> LogStream res" where
  "put_items s [] = Inr s"
| "put_items s (i # is) = fbind (put_item s i) (\<lambda>s. put_items s is)"

fun item_text :: "log_item \<Rightarrow> byte list" where
  "item_text (LBool v) = (if v then str ''true'' else str ''false'')"
| "item_text (LChar v) = [v]"
| "item_text (LShort v) = signed_decimal (sint v)"
| "item_text (LUShort v) = decimal (unat v)"
| "item_text (LInt v) = signed_decimal (sint v)"
| "item_text (LUInt v) = decimal (unat v)"
| "item_text (LLong v) = signed_decimal (sint v)"
| "item_text (LULong v) = decimal (unat v)"
| "item_text (LCstr v) = (case v of Some t \<Rightarrow> c_string t | None \<Rightarrow> str ''(null)'')"
| "item_text (LString v) = v"

lemmas put_defs = put_bool_def put_char_def put_short_def put_ushort_def put_int_def put_uint_def
  put_long_def put_ulong_def put_llong_def put_ullong_def put_cstr_def put_string_def

lemma put_item_spec:
  assumes "log_inv s" "ls_cur s + int (length (item_text i)) < klogBufferLen"
  shows "\<exists>s'. put_item s i = Inr s' \<and> log_inv s' \<and> logged s' = logged s @ item_text i"
  using LogStream_Append_spec [OF assms(1), of "item_text i"] LogStream_snprintf_spec [OF assms] assms(2)
  by (cases i) (auto simp: put_defs split: option.splits)

lemma put_items_spec:
  assumes "log_inv s" "ls_cur s + int (length (concat (map item_text is))) < klogBufferLen"
  shows "\<exists>s'. put_items s is = Inr s' \<and> log_inv s' \<and> logged s' = logged s @ concat (map item_text is)"
  using assms
proof (induction "is" arbitrary: s)
  case (Cons i "is")
  then obtain s' where s': "put_item s i = Inr s'" "log_inv s'" "logged s' = logged s @ item_text i"
    using put_item_spec [of s i] by auto
  then have "ls_cur s' = ls_cur s + int (length (item_text i))"
    using length_logged [of s'] length_logged [of s] Cons.prems(1) by simp
  then show ?case using Cons.IH [of s'] Cons.prems(2) s' by auto
qed simp

lemma DumpHex_loop_spec:
  assumes "int (2 * i + 2 * length s) < int (length ext)"
  shows "\<exists>ext'. DumpHex_loop ext i s = Inr ext' \<and> length ext' = length ext \<and>
    take (2 * i + 2 * length s) ext' = take (2 * i) ext @ concat (map hex2 s) \<and>
    (s \<noteq> [] \<longrightarrow> ext' ! (2 * i + 2 * length s) = 0)"
  using assms
proof (induction s arbitrary: i ext)
  case (Cons b bs)
  let ?e = "window ext (2 * i) (hex2 b @ [0])"
  have h [simp]: "length (hex2 b) = 2" by (simp add: hex2_def)
  have p: "mem_put ext (int i * 2) (hex2 b @ [0]) = Inr ?e"
    using Cons.prems by (subst mem_put_inside) (simp_all add: nat_mult_distrib mult.commute)
  have l: "length ?e = length ext" using Cons.prems by (intro length_window) simp
  obtain e' where e': "DumpHex_loop ?e (i + 1) bs = Inr e'" "length e' = length ?e"
      "take (2 * (i + 1) + 2 * length bs) e' = take (2 * (i + 1)) ?e @ concat (map hex2 bs)"
      "bs \<noteq> [] \<longrightarrow> e' ! (2 * (i + 1) + 2 * length bs) = 0"
    using Cons.IH [of "i + 1" ?e] Cons.prems l by auto
  have t: "take (2 * (i + 1)) ?e = take (2 * i) ext @ hex2 b"
    using take_window [of "2 * i" ext 2 "hex2 b @ [0]"] Cons.prems by (simp add: algebra_simps)
  have z: "?e ! (2 * (i + 1)) = 0"
    using Cons.prems by (simp add: window_def nth_append)
  have "DumpHex_loop ext i (b # bs) = Inr e'"
    using p e'(1) by (simp add: snprintf_def to_size_t_def Let_def)
  moreover have "bs = [] \<Longrightarrow> e' = ?e" using e'(1) by simp
  ultimately show ?case using e' t z l by (cases "bs = []") (simp_all add: algebra_simps)
qed simp

lemma hex2_nonzero: "0 \<notin> set (hex2 b)"
proof -
  have "unat (hex_digit d) \<noteq> 0" if "d < 16" for d
    using that by (simp add: hex_digit_def unat_of_nat_byte)
  then have "hex_digit d \<noteq> 0" if "d < 16" for d using that by (metis unsigned_0)
  moreover have "unat b div 16 < 16" "unat b mod 16 < 16" using unat_byte_less [of b] by linarith+
  ultimately show ?thesis by (simp add: hex2_def)
qed

lemma StringAppend_spec:
  assumes "int (length ext) = klogBufferLen" "0 \<notin> set t" "int (length t) < klogBufferLen"
  shows "\<exists>ext'. StringAppend ext s t = Inr (ext', s @ t @ [0x0A]) \<and> int (length ext') = klogBufferLen"
proof -
  have "snprintf ext 0 klogBufferLen t = Inr (window ext 0 (t @ [0]), int (length t))"
    using assms by (simp add: snprintf_def to_size_t_def Let_def klogBufferLen_def mem_put_inside)
  moreover have "window ext 0 (t @ [0]) = t @ 0 # drop (Suc (length t)) ext"
    by (simp add: window_def)
  ultimately show ?thesis
    using assms by (simp add: StringAppend_def c_string_append)
qed

lemma append_lines_spec:
  assumes "int (length ext) = klogBufferLen" "\<forall>t \<in> set ts. 0 \<notin> set t \<and> int (length t) < klogBufferLen"
  shows "\<exists>ext'. append_lines ext s ts = Inr (ext', s @ concat (map (\<lambda>t. t @ [0x0A]) ts)) \<and> int (length ext') = klogBufferLen"
  using assms
proof (induction ts arbitrary: ext s)
  case (Cons t ts)
  obtain e where "StringAppend ext s t = Inr (e, s @ t @ [0x0A])" "int (length e) = klogBufferLen"
    using StringAppend_spec [of ext t s] Cons.prems by auto
  then show ?case using Cons.IH [of e "s @ t @ [0x0A]"] Cons.prems by auto
qed simp

section \<open>Properties\<close>

text \<open>A log statement whose text fits the line buffer is formatted exactly:
  the buffer holds the concatenation of the texts of its items, no write leaves
  the buffer and the position stays inside it.\<close>

theorem log_line_formats:
  assumes "int (length m) = klogBufferLen" "int (length (concat (map item_text is))) < klogBufferLen"
  shows "\<exists>s. put_items (LogStream_new m) is = Inr s \<and> logged s = concat (map item_text is) \<and>
    0 \<le> LogStream_length s \<and> LogStream_length s \<le> klogBufferLen"
proof -
  have "log_inv (LogStream_new m)" "logged (LogStream_new m) = []" "ls_cur (LogStream_new m) = 0"
    using assms(1) by (simp_all add: log_inv_def LogStream_new_def logged_def klogBufferLen_def)
  then show ?thesis
    using put_items_spec [of "LogStream_new m" "is"] assms(2) by (auto simp: log_inv_def LogStream_length_def)
qed

theorem log_line_formats_witness:
  "\<exists>s. put_items (LogStream_new (replicate 65536 0)) [LString (str ''fd=''), LInt 7, LBool True] = Inr s \<and>
     logged s = str ''fd=7true''"
proof -
  have "concat (map item_text [LString (str ''fd=''), LInt 7, LBool True]) = str ''fd=7true''"
    by (simp add: signed_decimal_def decimal.simps str_def)
  then show ?thesis
    using log_line_formats [of "replicate 65536 0" "[LString (str ''fd=''), LInt 7, LBool True]"]
    by (auto simp: klogBufferLen_def str_def)
qed

text \<open>A number that no longer fits moves the position past the end of the
  line buffer, and the next number is then written outside it: the space left
  is negative and converts to a huge size.\<close>

theorem number_past_the_end:
  assumes "log_inv s" "klogBufferLen < ls_cur s + int (length (decimal (unat v)))"
  shows "\<exists>s'. put_uint s v = Inr s' \<and> klogBufferLen < LogStream_length s' \<and> put_uint s' w = Inl OutOfBounds"
proof -
  have short: "length (decimal (unat x)) \<le> 10" for x :: u32
  proof (rule length_decimal)
    have "unat x < 2 ^ 32" using unsigned_less [of x] by simp
    then show "unat x < 10 ^ 10" by simp
  qed simp
  let ?t = "decimal (unat v)"
  have cur: "0 \<le> ls_cur s" "ls_cur s \<le> 65536" "int (length (g_logbuffer s)) = 65536"
    using assms(1) by (simp_all add: log_inv_def klogBufferLen_def)
  have sz: "to_size_t (klogBufferLen - ls_cur s) = 65536 - ls_cur s"
    using cur by (simp add: to_size_t_def klogBufferLen_def)
  have "\<exists>m. snprintf (g_logbuffer s) (ls_cur s) (klogBufferLen - ls_cur s) ?t = Inr (m, int (length ?t)) \<and>
      length m = length (g_logbuffer s)"
    using cur by (auto simp: snprintf_def sz Let_def mem_put_inside)
  then obtain m where m: "snprintf (g_logbuffer s) (ls_cur s) (klogBufferLen - ls_cur s) ?t = Inr (m, int (length ?t))"
      "length m = length (g_logbuffer s)" by blast
  let ?c = "ls_cur s + int (length ?t)"
  have c: "65536 < ?c" "?c \<le> 65546" using assms(2) cur short [of v] by (simp_all add: klogBufferLen_def)
  then have "to_size_t (klogBufferLen - ?c) = klogBufferLen - ?c + 2 ^ 64"
    by (intro to_size_t_negative) (simp_all add: klogBufferLen_def)
  moreover have "klogBufferLen - ?c + 2 ^ 64 \<noteq> 0" using c by (simp add: klogBufferLen_def)
  moreover have "mem_put m ?c xs = Inl OutOfBounds" for xs using c m(2) cur by (simp add: mem_put_def)
  ultimately have "snprintf m ?c (klogBufferLen - ?c) (decimal (unat w)) = Inl OutOfBounds"
    by (simp only: snprintf_def Let_def if_False fbind_simps)
  then show ?thesis
    using m c by (simp add: put_uint_def LogStream_snprintf_def LogStream_length_def klogBufferLen_def)
qed

theorem number_past_the_end_witness:
  "\<exists>s'. put_uint \<lparr>g_logbuffer = replicate 65536 0, ls_cur = 65535\<rparr> 42 = Inr s' \<and> put_uint s' 0 = Inl OutOfBounds"
proof -
  have "log_inv \<lparr>g_logbuffer = replicate 65536 0, ls_cur = 65535\<rparr>" by (simp add: log_inv_def klogBufferLen_def)
  from number_past_the_end [OF this, of 42 0] show ?thesis
    by (auto simp: klogBufferLen_def decimal.simps)
qed

text \<open>\<open>DumpHex\<close> of a non-empty piece that fits the scratch array gives two
  hexadecimal digits for each byte; of an empty piece it gives whatever text the
  previous call left in the array.\<close>

theorem DumpHex_digits:
  assumes "2 * length s < length ext"
  shows "\<exists>ext'. DumpHex ext s = Inr (ext', if s = [] then c_string ext else concat (map hex2 s))"
proof (cases "s = []")
  case False
  obtain e where e: "DumpHex_loop ext 0 s = Inr e" "length e = length ext"
      "take (2 * length s) e = concat (map hex2 s)" "e ! (2 * length s) = 0"
    using DumpHex_loop_spec [of 0 s ext] assms False by auto
  then have "e = concat (map hex2 s) @ 0 # drop (Suc (2 * length s)) e"
    using assms id_take_nth_drop [of "2 * length s" e] by simp
  moreover have "0 \<notin> set (concat (map hex2 s))" using hex2_nonzero by auto
  ultimately have "c_string e = concat (map hex2 s)"
    using c_string_append by metis
  then show ?thesis using e(1) False by (simp add: DumpHex_def)
qed (simp add: DumpHex_def)

theorem DumpHex_digits_witness:
  "\<exists>ext'. DumpHex (str ''stale'' @ replicate 3 0) [0xAF, 0x01] = Inr (ext', str ''af01'')"
  using DumpHex_digits [of "[0xAF, 0x01]" "str ''stale'' @ replicate 3 0"]
  by (simp add: hex2_def hex_digit_def str_def)

end
