(* ===== verification/Rtp_Packet.thy ===== *)
theory Rtp_Packet
  imports Log_Stream
begin

text \<open>
  \<open>webrtc/rtp/rtp_packet.{h,cc}\<close>: recognising and decoding an RTP packet. The
  packet is the list of the bytes its view shows; every read is checked. The
  decoder is shown to read inside the packet on every input and to recover the
  fields of every packet laid out as RFC 3550 says.
\<close>

section \<open>The code\<close>

text \<open>A bit field of \<open>w\<close> bits, starting at bit \<open>lo\<close> of a byte.\<close>

definition bits :: "byte \<Rightarrow> nat \<Rightarrow> nat \<Rightarrow> nat" where
  "bits b lo w = unat b div 2 ^ lo mod 2 ^ w"

record RtpHeader =
  rtp_csrc_count :: nat
  rtp_extension :: nat
  rtp_padding :: nat
  rtp_version :: nat
  rtp_payload_type :: nat
  rtp_marker :: nat
  sequence_number :: u16
  timestamp :: u32
  rtp_ssrc :: u32

record RtpPacket =
  rtp_header :: RtpHeader
  csrcs :: "u32 list"
  ext_profile :: u16
  ext_length :: u16
  rtp_payload :: "byte list"

definition RtpPacket_new :: RtpPacket where
  "RtpPacket_new = \<lparr>rtp_header = \<lparr>rtp_csrc_count = 0, rtp_extension = 0, rtp_padding = 0, rtp_version = 0,
      rtp_payload_type = 0, rtp_marker = 0, sequence_number = 0, timestamp = 0, rtp_ssrc = 0\<rparr>,
     csrcs = [], ext_profile = 0, ext_length = 0, rtp_payload = []\<rparr>"

definition is_one_byte_ext :: "RtpPacket \<Rightarrow> bool" where
  "is_one_byte_ext p \<longleftrightarrow> ext_profile p = 0xbede"

definition is_two_bytes_ext :: "RtpPacket \<Rightarrow> bool" where
  "is_two_bytes_ext p \<longleftrightarrow> ext_profile p AND 0xFFF0 = 0x1000"

definition kHeaderSize :: nat where "kHeaderSize = 12"

definition IsRtp :: "byte list \<Rightarrow> bool res" where
  "IsRtp data =
     (if length data < kHeaderSize then Inr False
      else fbind (rd data 0) (\<lambda>b. Inr (b > 127 \<and> b < 192 \<and> bits b 6 2 = 2)))"

text \<open>The structure at the front of the packet, its numbers converted to host order.\<close>

definition load_rtp_header :: "byte list \<Rightarrow> RtpHeader res" where
  "load_rtp_header data =
     fbind (rd data 0) (\<lambda>b0. fbind (rd data 1) (\<lambda>b1.
     fbind (net16 data 2) (\<lambda>sn. fbind (net32 data 4) (\<lambda>ts. fbind (net32 data 8) (\<lambda>ss.
     Inr \<lparr>rtp_csrc_count = bits b0 0 4, rtp_extension = bits b0 4 1, rtp_padding = bits b0 5 1,
          rtp_version = bits b0 6 2, rtp_payload_type = bits b1 0 7, rtp_marker = bits b1 7 1,
          sequence_number = sn, timestamp = ts, rtp_ssrc = ss\<rparr>)))))"

fun read_csrcs :: "byte list \<Rightarrow> nat \<Rightarrow> nat \<Rightarrow> u32 list res" where
  "read_csrcs data offset 0 = Inr []"
| "read_csrcs data offset (Suc count) =
     fbind (byte4 data offset) (\<lambda>v. fbind (read_csrcs data (offset + 4) count) (\<lambda>vs. Inr (v # vs)))"

text \<open>The header extension at \<open>ptr\<close>: \<open>None\<close> when it does not fit; otherwise the packet and the size of the extension.\<close>

definition decode_extension :: "RtpPacket \<Rightarrow> byte list \<Rightarrow> nat \<Rightarrow> (RtpPacket \<times> nat) option res" where
  "decode_extension this data ptr =
     (if rtp_extension (rtp_header this) = 1 then
        (if length data < ptr + 4 then Inr None
         else
           fbind (net16 data (ptr + 2)) (\<lambda>n.
           let extension_value_size = unat n * 4 in
           if length data < ptr + 4 + extension_value_size then Inr None
           else fbind (net16 data ptr) (\<lambda>pr.
             Inr (Some (this\<lparr>ext_profile := pr, ext_length := n\<rparr>, 4 + extension_value_size)))))
      else Inr (Some (this, 0)))"

text \<open>Payload and padding, from \<open>ptr\<close> on; \<open>before\<close> is the length of what precedes them.\<close>

definition decode_payload :: "RtpPacket \<Rightarrow> byte list \<Rightarrow> nat \<Rightarrow> int \<Rightarrow> (int \<times> RtpPacket) res" where
  "decode_payload this data ptr before =
     (let len = length data; payload_length = int len - int ptr; padded = (rtp_padding (rtp_header this) \<noteq> 0) in
      if padded \<and> payload_length = 0 then Inr (-1, this)
      else
        fbind (if padded then fbind (rd data (len - 1)) (\<lambda>b. Inr (int (unat b))) else Inr 0) (\<lambda>payload_padding.
        if padded \<and> (payload_padding = 0 \<or> payload_length < payload_padding) then Inr (-1, this)
        else
          let payload_length = payload_length - payload_padding in
          fbind (mem_get data (int ptr) (int ptr + payload_length)) (\<lambda>pl.
          let this = this\<lparr>rtp_payload := pl\<rparr>; packet_length = before + payload_length + payload_padding in
          Inr (if packet_length \<noteq> int len then -1 else 0, this))))"

definition Rtp_Decode :: "RtpPacket \<Rightarrow> byte list \<Rightarrow> (int \<times> RtpPacket) res" where
  "Rtp_Decode this data =
     fbind (IsRtp data) (\<lambda>is_rtp.
     if \<not> is_rtp then Inr (-1, this)
     else if length data < kHeaderSize then Inr (-1, this)
     else
       fbind (load_rtp_header data) (\<lambda>header.
       let this = this\<lparr>rtp_header := header\<rparr>; ptr = kHeaderSize; csrc_list_size = rtp_csrc_count header * 4 in
       if rtp_csrc_count header \<noteq> 0 \<and> length data < ptr + csrc_list_size then Inr (-1, this)
       else
         fbind (read_csrcs data ptr (rtp_csrc_count header)) (\<lambda>vs.
         let this = this\<lparr>csrcs := csrcs this @ vs\<rparr>; ptr = ptr + csrc_list_size in
         fbind (decode_extension this data ptr) (\<lambda>ext.
         case ext of None \<Rightarrow> Inr (-1, this)
         | Some (this, ext_size) \<Rightarrow>
           decode_payload this data (ptr + ext_size) (int kHeaderSize + int csrc_list_size + int ext_size)))))"

definition Rtp_Dump_lines :: "RtpPacket \<Rightarrow> byte list list" where
  "Rtp_Dump_lines p =
     (let h = rtp_header p in
      [str ''\<newline><Rtp>'',
       str ''    version: '' @ decimal (rtp_version h),
       str ''    pading: '' @ decimal (rtp_padding h),
       str ''    extension: '' @ decimal (rtp_extension h),
       str ''    csrc_count: '' @ decimal (rtp_csrc_count h),
       str ''    marker: '' @ decimal (rtp_marker h),
       str ''    payload_type: '' @ decimal (rtp_payload_type h),
       str ''    seq: '' @ decimal (unat (sequence_number h)),
       str ''    timestamp: '' @ decimal (unat (timestamp h)),
       str ''    ssrc: '' @ decimal (unat (rtp_ssrc h))] @
      (if rtp_extension h \<noteq> 0 then
         [str ''  <Extension>'',
          str ''    profile: '' @ alt_hex (unat (ext_profile p)),
          str ''    length: '' @ decimal (unat (ext_length p)),
          str ''  </Extension>'']
       else []) @
      [str ''    payload_length: '' @ decimal (length (rtp_payload p) mod 2 ^ 32),
       str ''</Rtp>''])"

definition Rtp_Dump :: "byte list \<Rightarrow> RtpPacket \<Rightarrow> (byte list \<times> byte list) res" where
  "Rtp_Dump ext p = append_lines ext [] (Rtp_Dump_lines p)"

section \<open>Reads stay inside the packet\<close>

lemma bits_less: "bits b lo w < 2 ^ w"
  by (simp add: bits_def)

lemma load_rtp_header_total: "12 \<le> length data \<Longrightarrow> \<exists>h. load_rtp_header data = Inr h \<and> rtp_csrc_count h < 16"
proof -
  assume l: "12 \<le> length data"
  obtain sn ts ss where "byte2 data 2 = Inr sn" "byte4 data 4 = Inr ts" "byte4 data 8 = Inr ss"
    using b2.get_total [of 2 data] b4.get_total [of 4 data] b4.get_total [of 8 data] l by auto
  moreover have "rd data 0 = Inr (data ! 0)" "rd data 1 = Inr (data ! 1)" using l by (auto simp: rd_def)
  ultimately show ?thesis
    using bits_less [of "data ! 0" 0 4] by (simp add: load_rtp_header_def net16_byte2 net32_byte4)
qed

lemma read_csrcs_total: "offset + 4 * n \<le> length data \<Longrightarrow> \<exists>vs. read_csrcs data offset n = Inr vs \<and> length vs = n"
proof (induction n arbitrary: offset)
  case (Suc n)
  obtain v where "byte4 data offset = Inr v" using b4.get_total [of offset data] Suc.prems by auto
  then show ?case using Suc.IH [of "offset + 4"] Suc.prems by auto
qed simp

lemma IsRtp_total: "\<exists>b. IsRtp data = Inr b \<and> (b \<longrightarrow> 12 \<le> length data)"
  by (cases data) (auto simp: IsRtp_def kHeaderSize_def rd_def)

section \<open>Packets as RFC 3550 lays them out\<close>

definition ext_bytes :: "(u16 \<times> byte list) option \<Rightarrow> byte list" where
  "ext_bytes ext = (case ext of None \<Rightarrow> []
     | Some (pr, v) \<Rightarrow> be16 pr @ be16 (word_of_nat (length v div 4)) @ v)"

definition rtp_bytes ::
  "nat \<Rightarrow> nat \<Rightarrow> u16 \<Rightarrow> u32 \<Rightarrow> u32 \<Rightarrow> u32 list \<Rightarrow> (u16 \<times> byte list) option \<Rightarrow> byte list \<Rightarrow> byte list \<Rightarrow> byte list" where
  "rtp_bytes m pt sn ts ss cs ext pl pad =
     [word_of_nat (128 + 32 * of_bool (pad \<noteq> []) + 16 * of_bool (ext \<noteq> None) + length cs), word_of_nat (128 * m + pt)] @
     be16 sn @ be32 ts @ be32 ss @ concat (map be32 cs) @ ext_bytes ext @ pl @ pad"

definition rtp_ok :: "nat \<Rightarrow> nat \<Rightarrow> u32 list \<Rightarrow> (u16 \<times> byte list) option \<Rightarrow> byte list \<Rightarrow> bool" where
  "rtp_ok m pt cs ext pad \<longleftrightarrow> m < 2 \<and> pt < 128 \<and> length cs < 16 \<and>
     (case ext of None \<Rightarrow> True | Some (pr, v) \<Rightarrow> length v mod 4 = 0 \<and> length v div 4 < 65536) \<and>
     (pad = [] \<or> length pad < 256 \<and> last pad = word_of_nat (length pad))"

definition rtp_packet ::
  "nat \<Rightarrow> nat \<Rightarrow> u16 \<Rightarrow> u32 \<Rightarrow> u32 \<Rightarrow> u32 list \<Rightarrow> (u16 \<times> byte list) option \<Rightarrow> byte list \<Rightarrow> byte list \<Rightarrow> RtpPacket" where
  "rtp_packet m pt sn ts ss cs ext pl pad =
     \<lparr>rtp_header = \<lparr>rtp_csrc_count = length cs, rtp_extension = of_bool (ext \<noteq> None),
        rtp_padding = of_bool (pad \<noteq> []), rtp_version = 2, rtp_payload_type = pt, rtp_marker = m,
        sequence_number = sn, timestamp = ts, rtp_ssrc = ss\<rparr>,
      csrcs = cs, ext_profile = (case ext of None \<Rightarrow> 0 | Some (pr, v) \<Rightarrow> pr),
      ext_length = (case ext of None \<Rightarrow> 0 | Some (pr, v) \<Rightarrow> word_of_nat (length v div 4)),
      rtp_payload = pl\<rparr>"

lemma read_csrcs_appended:
  "read_csrcs (xs @ concat (map be32 cs) @ ys) (length xs) (length cs) = Inr cs"
proof (induction cs arbitrary: xs)
  case (Cons c cs)
  have "byte4 (xs @ be32 c @ concat (map be32 cs) @ ys) (length xs) = Inr c"
    by (rule b4.get_appended) simp
  then show ?case using Cons.IH [of "xs @ be32 c"] by (simp add: add.commute)
qed simp

lemma length_be32s [simp]: "length (concat (map be32 cs)) = 4 * length cs"
  by (induction cs) auto

lemma length_ext_bytes:
  "length (ext_bytes ext) = (case ext of None \<Rightarrow> 0 | Some (pr, v) \<Rightarrow> 4 + length v)"
  by (simp add: ext_bytes_def split: option.splits prod.splits)

lemma first_byte_bits:
  assumes "c < 16" "x < 2" "p < 2"
  shows "bits (word_of_nat (128 + 32 * p + 16 * x + c)) 0 4 = c"
    "bits (word_of_nat (128 + 32 * p + 16 * x + c)) 4 1 = x"
    "bits (word_of_nat (128 + 32 * p + 16 * x + c)) 5 1 = p"
    "bits (word_of_nat (128 + 32 * p + 16 * x + c)) 6 2 = 2"
    "unat (word_of_nat (128 + 32 * p + 16 * x + c) :: byte) = 128 + 32 * p + 16 * x + c"
proof -
  let ?n = "128 + 32 * p + 16 * x + c"
  have px: "p = 0 \<or> p = 1" "x = 0 \<or> x = 1" using assms by linarith+
  show u: "unat (word_of_nat ?n :: byte) = ?n" using assms by (intro unat_of_nat_byte) simp
  have "?n mod 16 = (c + 16 * (8 + 2 * p + x)) mod 16" by (rule arg_cong) simp
  then have "?n mod 16 = c" using assms(1) by (simp only: mod_mult_self2 mod_less)
  then show "bits (word_of_nat ?n) 0 4 = c" unfolding bits_def u by simp
  have "?n div 16 = 8 + 2 * p + x" "?n div 32 = 4 + p" "?n div 64 = 2"
    by (rule div_nat_eqI; use assms px in auto)+
  then show "bits (word_of_nat ?n) 4 1 = x" "bits (word_of_nat ?n) 5 1 = p" "bits (word_of_nat ?n) 6 2 = 2"
    unfolding bits_def u using px by auto
qed

lemma second_byte_bits:
  assumes "m < 2" "pt < 128"
  shows "bits (word_of_nat (128 * m + pt)) 0 7 = pt" "bits (word_of_nat (128 * m + pt)) 7 1 = m"
proof -
  have u: "unat (word_of_nat (128 * m + pt) :: byte) = 128 * m + pt"
    using assms by (intro unat_of_nat_byte) simp
  show "bits (word_of_nat (128 * m + pt)) 0 7 = pt" "bits (word_of_nat (128 * m + pt)) 7 1 = m"
    unfolding bits_def u using assms by simp_all
qed

lemma load_rtp_fields:
  "load_rtp_header ([b0, b1] @ be16 sn @ be32 ts @ be32 ss @ rest) =
     Inr \<lparr>rtp_csrc_count = bits b0 0 4, rtp_extension = bits b0 4 1, rtp_padding = bits b0 5 1,
          rtp_version = bits b0 6 2, rtp_payload_type = bits b1 0 7, rtp_marker = bits b1 7 1,
          sequence_number = sn, timestamp = ts, rtp_ssrc = ss\<rparr>"
proof -
  let ?d = "[b0, b1] @ be16 sn @ be32 ts @ be32 ss @ rest"
  have "byte2 ?d 2 = Inr sn" by (rule b2.get_enc) (simp_all add: sub_def)
  moreover have "byte4 ?d 4 = Inr ts" by (rule b4.get_enc) (simp_all add: sub_def)
  moreover have "byte4 ?d 8 = Inr ss" by (rule b4.get_enc) (simp_all add: sub_def)
  moreover have "rd ?d 0 = Inr b0" "rd ?d 1 = Inr b1" by (simp_all add: rd_def)
  ultimately show ?thesis by (simp only: load_rtp_header_def net16_byte2 net32_byte4 fbind_simps)
qed

lemma load_rtp_bytes:
  assumes "rtp_ok m pt cs ext pad"
  shows "load_rtp_header (rtp_bytes m pt sn ts ss cs ext pl pad) = Inr (rtp_header (rtp_packet m pt sn ts ss cs ext pl pad))"
    "IsRtp (rtp_bytes m pt sn ts ss cs ext pl pad) = Inr True"
proof -
  define x p where "x = (of_bool (ext \<noteq> None) :: nat)" and "p = (of_bool (pad \<noteq> []) :: nat)"
  define b0 where "b0 = (word_of_nat (128 + 32 * p + 16 * x + length cs) :: byte)"
  define b1 where "b1 = (word_of_nat (128 * m + pt) :: byte)"
  have d: "rtp_bytes m pt sn ts ss cs ext pl pad =
      [b0, b1] @ be16 sn @ be32 ts @ be32 ss @ concat (map be32 cs) @ ext_bytes ext @ pl @ pad"
    by (simp only: rtp_bytes_def b0_def b1_def x_def p_def)
  have ok: "length cs < 16" "x < 2" "p < 2" "m < 2" "pt < 128"
    using assms by (simp_all add: rtp_ok_def x_def p_def)
  note f = first_byte_bits [OF ok(1-3), folded b0_def] and g = second_byte_bits [OF ok(4,5), folded b1_def]
  show "load_rtp_header (rtp_bytes m pt sn ts ss cs ext pl pad) = Inr (rtp_header (rtp_packet m pt sn ts ss cs ext pl pad))"
    unfolding d load_rtp_fields rtp_packet_def using f g by (simp add: x_def p_def)
  have "b0 > 127" "b0 < 192"
    unfolding word_less_nat_alt f(5) using ok by simp_all
  then show "IsRtp (rtp_bytes m pt sn ts ss cs ext pl pad) = Inr True"
    unfolding IsRtp_def kHeaderSize_def d using f(4) by (simp add: rd_def)
qed

lemma decode_extension_total:
  assumes "ptr \<le> length data"
  shows "\<exists>e. decode_extension this data ptr = Inr e \<and>
    (\<forall>pkt n. e = Some (pkt, n) \<longrightarrow> ptr + n \<le> length data \<and> rtp_header pkt = rtp_header this)"
proof -
  have "\<exists>n. net16 data i = Inr n" if "i + 2 \<le> length data" for i
    using that b2.get_total [of i data] by (auto simp: net16_byte2)
  from this [of ptr] this [of "ptr + 2"] assms show ?thesis
    by (auto simp: decode_extension_def Let_def)
qed

lemma decode_payload_total:
  assumes "ptr \<le> length data" "data \<noteq> []"
  shows "\<exists>r pkt. decode_payload this data ptr before = Inr (r, pkt) \<and> (r = 0 \<or> r = -1)"
proof -
  define k where "k = int (unat (last data))"
  have r: "rd data (length data - 1) = Inr (last data)" using assms(2) by (simp add: rd_def last_conv_nth)
  obtain a where a: "mem_get data (int ptr) (int (length data)) = Inr a"
    using assms(1) by (simp add: mem_get_def)
  have "0 \<le> k" by (simp add: k_def)
  then obtain b where b: "k \<le> int (length data) - int ptr \<longrightarrow>
      mem_get data (int ptr) (int ptr + (int (length data) - int ptr - k)) = Inr b"
    by (simp add: mem_get_def) (meson)
  show ?thesis
    using r a b unfolding decode_payload_def Let_def k_def
    by (cases "int (unat (last data)) \<le> int (length data) - int ptr") auto
qed

lemma decode_extension_bytes:
  assumes "case ext of None \<Rightarrow> True | Some (pr, v) \<Rightarrow> length v mod 4 = 0 \<and> length v div 4 < 65536"
    and "rtp_extension (rtp_header this) = of_bool (ext \<noteq> None)"
  shows "decode_extension this (xs @ ext_bytes ext @ ys) (length xs) =
    Inr (Some (case ext of None \<Rightarrow> this
      | Some (pr, v) \<Rightarrow> this\<lparr>ext_profile := pr, ext_length := word_of_nat (length v div 4)\<rparr>, length (ext_bytes ext)))"
proof (cases ext)
  case None
  then show ?thesis using assms(2) by (simp add: decode_extension_def ext_bytes_def)
next
  case (Some e)
  obtain pr v where e: "ext = Some (pr, v)" using Some by (cases e) simp
  let ?n = "word_of_nat (length v div 4) :: u16"
  have v: "unat ?n * 4 = length v" using assms(1) e by (auto simp: unat_of_nat_u16)
  have 1: "byte2 (xs @ be16 pr @ be16 ?n @ v @ ys) (length xs) = Inr pr"
    by (rule b2.get_appended) simp
  have "byte2 ((xs @ be16 pr) @ be16 ?n @ (v @ ys)) (length (xs @ be16 pr)) = Inr ?n"
    by (rule b2.get_appended) simp
  then have 2: "byte2 (xs @ be16 pr @ be16 ?n @ v @ ys) (length xs + 2) = Inr ?n" by simp
  show ?thesis
    using assms(2) 1 2 v unfolding decode_extension_def e ext_bytes_def
    by (simp add: net16_byte2 Let_def)
qed

lemma decode_payload_bytes:
  assumes "pad = [] \<or> length pad < 256 \<and> last pad = word_of_nat (length pad)"
    and "rtp_padding (rtp_header this) = of_bool (pad \<noteq> [])"
  shows "decode_payload this (xs @ pl @ pad) (length xs) (int (length xs)) = Inr (0, this\<lparr>rtp_payload := pl\<rparr>)"
proof -
  let ?d = "xs @ pl @ pad"
  have g: "mem_get ?d (int (length xs)) (int (length xs) + int (length pl)) = Inr pl"
    by (rule mem_get_inside) simp_all
  show ?thesis
  proof (cases "pad = []")
    case True
    then show ?thesis using g assms(2) by (simp add: decode_payload_def Let_def)
  next
    case False
    then have "?d \<noteq> []" "last ?d = last pad" by simp_all
    then have "?d ! (length ?d - 1) = word_of_nat (length pad)"
      using assms(1) False last_conv_nth [of ?d] by simp
    then have "rd ?d (length ?d - 1) = Inr (word_of_nat (length pad))"
      using False by (simp add: rd_def)
    moreover have "uint (word_of_nat (length pad) :: byte) = int (length pad)"
      using assms(1) False unat_of_nat_byte [of "length pad"] by (metis of_nat_unat)
    ultimately show ?thesis using g assms(2) False by (simp add: decode_payload_def Let_def)
  qed
qed

section \<open>Properties\<close>

text \<open>C29. On every input the RTP decoder returns 0 or \<open>-1\<close>: no read leaves the
  packet, whatever counts and lengths the packet announces.\<close>

theorem Rtp_Decode_returns: "\<exists>r pkt. Rtp_Decode this data = Inr (r, pkt) \<and> (r = 0 \<or> r = -1)"
proof -
  obtain b where b: "IsRtp data = Inr b" "b \<longrightarrow> 12 \<le> length data" using IsRtp_total by blast
  show ?thesis
  proof (cases b)
    case True
    then obtain h where h: "load_rtp_header data = Inr h" using load_rtp_header_total b(2) by blast
    let ?c = "rtp_csrc_count h"
    show ?thesis
    proof (cases "length data < 12 + ?c * 4")
      case short: True
      then have "?c \<noteq> 0" using b(2) True by (cases ?c) simp_all
      then show ?thesis using b True h short by (simp add: Rtp_Decode_def Let_def kHeaderSize_def)
    next
      case False
      then obtain vs where vs: "read_csrcs data 12 ?c = Inr vs"
        using read_csrcs_total [of 12 ?c data] by auto
      let ?this = "this\<lparr>rtp_header := h, csrcs := csrcs this @ vs\<rparr>"
      obtain e where e: "decode_extension ?this data (12 + ?c * 4) = Inr e"
          "\<forall>pkt n. e = Some (pkt, n) \<longrightarrow> 12 + ?c * 4 + n \<le> length data"
        using decode_extension_total [of "12 + ?c * 4" data ?this] False by auto
      have ne: "data \<noteq> []" using b(2) True by auto
      have "\<exists>r pkt. decode_payload p data (12 + ?c * 4 + n) k = Inr (r, pkt) \<and> (r = 0 \<or> r = -1)"
        if "e = Some (p, n)" for p n k
        using e(2) that by (intro decode_payload_total [OF _ ne]) simp
      then show ?thesis
        using b True h vs False e(1)
        by (cases e) (auto simp: Rtp_Decode_def Let_def kHeaderSize_def)
    qed
  qed (use b in \<open>simp add: Rtp_Decode_def\<close>)
qed

text \<open>C22. Every packet laid out as RFC 3550 says (header, contributing sources,
  optional extension, payload, optional padding) is accepted, and the decoder
  recovers all of its fields and exactly its payload.\<close>

theorem Rtp_Decode_recovers:
  assumes ok: "rtp_ok m pt cs ext pad"
  shows "Rtp_Decode RtpPacket_new (rtp_bytes m pt sn ts ss cs ext pl pad) = Inr (0, rtp_packet m pt sn ts ss cs ext pl pad)"
proof -
  define d p where "d = rtp_bytes m pt sn ts ss cs ext pl pad" and "p = rtp_packet m pt sn ts ss cs ext pl pad"
  define xs where "xs = take 12 d"
  have d: "d = xs @ concat (map be32 cs) @ ext_bytes ext @ pl @ pad" and xs: "length xs = 12"
    by (simp_all add: xs_def d_def rtp_bytes_def)
  have h: "load_rtp_header d = Inr (rtp_header p)" "IsRtp d = Inr True"
    using load_rtp_bytes [OF ok] by (simp_all add: d_def p_def)
  have hf: "rtp_csrc_count (rtp_header p) = length cs" "rtp_extension (rtp_header p) = of_bool (ext \<noteq> None)"
      "rtp_padding (rtp_header p) = of_bool (pad \<noteq> [])"
    by (simp_all add: p_def rtp_packet_def)
  have c: "read_csrcs d 12 (length cs) = Inr cs"
    using read_csrcs_appended [of xs cs "ext_bytes ext @ pl @ pad"] by (simp add: d xs)
  let ?this = "RtpPacket_new\<lparr>rtp_header := rtp_header p, csrcs := cs\<rparr>"
  let ?that = "case ext of None \<Rightarrow> ?this
      | Some (pr, v) \<Rightarrow> ?this\<lparr>ext_profile := pr, ext_length := word_of_nat (length v div 4)\<rparr>"
  have e: "decode_extension ?this d (12 + length cs * 4) = Inr (Some (?that, length (ext_bytes ext)))"
    using decode_extension_bytes [of ext ?this "xs @ concat (map be32 cs)" "pl @ pad"] ok hf(2)
    by (simp add: d xs rtp_ok_def mult.commute)
  have that: "rtp_header ?that = rtp_header p" by (simp split: option.splits)
  have l: "decode_payload ?that d (12 + length cs * 4 + length (ext_bytes ext))
      (12 + int (length cs) * 4 + int (length (ext_bytes ext))) = Inr (0, ?that\<lparr>rtp_payload := pl\<rparr>)"
    using decode_payload_bytes [of pad ?that "xs @ concat (map be32 cs) @ ext_bytes ext" pl] ok hf(3)
    unfolding that d rtp_ok_def by (simp add: xs mult.commute add.assoc)
  have r: "?that\<lparr>rtp_payload := pl\<rparr> = p"
    by (simp add: p_def rtp_packet_def RtpPacket_new_def split: option.splits)
  have len: "\<not> length d < 12 + length cs * 4" using xs by (simp add: d)
  show ?thesis
    using h hf(1) c e l r len
    by (simp add: Rtp_Decode_def Let_def kHeaderSize_def RtpPacket_new_def flip: d_def p_def)
qed

theorem Rtp_Decode_recovers_witness:
  "Rtp_Decode RtpPacket_new (rtp_bytes 1 96 7 8 9 [10] (Some (0xbede, [1, 2, 3, 4])) [0x55, 0x66] [0, 2]) =
     Inr (0, rtp_packet 1 96 7 8 9 [10] (Some (0xbede, [1, 2, 3, 4])) [0x55, 0x66] [0, 2])"
  by (rule Rtp_Decode_recovers) (simp add: rtp_ok_def)

end
