(* ===== verification/Rtcp_Packet.thy ===== *)
theory Rtcp_Packet
  imports Rtp_Packet
begin

text \<open>
  \<open>webrtc/rtp/rtcp_packet.{h,cc}\<close>: recognising RTCP, the picture loss indication
  with its encoder, receiver and sender reports, and source descriptions. The
  decoders of the first three read inside the packet on every input and recover
  the fields of well-formed packets; the decoder of source descriptions
  dereferences an offset as a pointer.
\<close>

section \<open>The code\<close>

definition kCommonHeaderSize :: nat where "kCommonHeaderSize = 4"
definition kFbHeaderSize :: nat where "kFbHeaderSize = 8"
definition kReportSize :: nat where "kReportSize = 24"
definition kSendInfoSize :: nat where "kSendInfoSize = 24"

datatype RtcpType = SR | RR | SDES | BYE | APP | RTPFB | PSFB | XR

fun rtcp_type_code :: "RtcpType \<Rightarrow> byte" where
  "rtcp_type_code SR = 200"
| "rtcp_type_code RR = 201"
| "rtcp_type_code SDES = 202"
| "rtcp_type_code BYE = 203"
| "rtcp_type_code APP = 204"
| "rtcp_type_code RTPFB = 205"
| "rtcp_type_code PSFB = 206"
| "rtcp_type_code XR = 207"

record CommonHeader =
  ch_count :: nat
  ch_padding :: nat
  ch_version :: nat
  ch_type :: byte
  ch_length :: u16

record FbHeader =
  sender_ssrc :: u32
  media_ssrc :: u32

record PliPsFb =
  pli_comm :: CommonHeader
  pli_fb :: FbHeader

record Report =
  rep_ssrc :: u32
  fraction_lost :: byte
  total_lost :: u32
  last_seq :: u32
  jitter :: u32
  lsr :: u32
  dlsr :: u32

record RrPacket =
  rr_comm :: CommonHeader
  rr_sender_ssrc :: u32
  rr_reports :: "Report list"

record SendInfo =
  si_ssrc :: u32
  ntp_sec :: u32
  ntp_frac :: u32
  rtp_ts :: u32
  packet_count :: u32
  octet_count :: u32

record SrPacket =
  sr_comm :: CommonHeader
  send_info :: SendInfo
  sr_reports :: "Report list"

record SdesItem =
  item_type :: byte
  item_length :: byte
  item_value :: "byte list"

record SdesChunk =
  chunk_ssrc :: u32
  chunk_items :: "SdesItem list"

record SdesPacket =
  sdes_comm :: CommonHeader
  chunks :: "SdesChunk list"

definition item_size :: "SdesItem \<Rightarrow> nat" where
  "item_size i = 2 + unat (item_length i)"

definition chunk_size :: "SdesChunk \<Rightarrow> nat" where
  "chunk_size c = foldl (\<lambda>ret i. ret + item_size i) 4 (chunk_items c)"

definition IsRtcp :: "byte list \<Rightarrow> bool res" where
  "IsRtcp data =
     (if length data < kCommonHeaderSize then Inr False
      else fbind (rd data 0) (\<lambda>b. fbind (rd data 1) (\<lambda>t.
        Inr (b > 127 \<and> b < 192 \<and> bits b 6 2 = 2 \<and> 192 \<le> t \<and> t \<le> 223))))"

text \<open>The header of the packet at an offset, its length converted to host order, and how it is stored back.\<close>

definition load_common_header :: "byte list \<Rightarrow> CommonHeader res" where
  "load_common_header data =
     fbind (rd data 0) (\<lambda>b. fbind (rd data 1) (\<lambda>t. fbind (net16 data 2) (\<lambda>n.
     Inr \<lparr>ch_count = bits b 0 5, ch_padding = bits b 5 1, ch_version = bits b 6 2, ch_type = t, ch_length = n\<rparr>)))"

definition common_header_bytes :: "CommonHeader \<Rightarrow> byte list" where
  "common_header_bytes h =
     [word_of_nat (ch_count h + 32 * ch_padding h + 64 * ch_version h), ch_type h] @ mem16 (HostToNetwork16 (ch_length h))"

definition CommonHeader_Dump_lines :: "CommonHeader \<Rightarrow> byte list list" where
  "CommonHeader_Dump_lines h =
     [str ''    version(2): '' @ decimal (ch_version h),
      str ''    padding(1): '' @ decimal (ch_padding h),
      str ''    count(5): '' @ decimal (ch_count h),
      str ''    type(8): '' @ decimal (unat (ch_type h)),
      str ''    length(16): '' @ decimal (unat (ch_length h))]"

definition FbHeader_Dump_lines :: "FbHeader \<Rightarrow> byte list list" where
  "FbHeader_Dump_lines h =
     [str ''    sender_ssrc: '' @ decimal (unat (sender_ssrc h)),
      str ''    media_ssrc: '' @ decimal (unat (media_ssrc h))]"

definition Pli_Decode :: "PliPsFb \<Rightarrow> byte list \<Rightarrow> (int \<times> PliPsFb) res" where
  "Pli_Decode this data =
     (if length data \<noteq> kCommonHeaderSize + kFbHeaderSize then Inr (-1, this)
      else
        fbind (load_common_header data) (\<lambda>ch.
        fbind (net32 data kCommonHeaderSize) (\<lambda>s. fbind (net32 data (kCommonHeaderSize + 4)) (\<lambda>m.
        Inr (0, this\<lparr>pli_comm := ch, pli_fb := \<lparr>sender_ssrc = s, media_ssrc = m\<rparr>\<rparr>)))))"

text \<open>The result: the return value, the memory and the length the view is set to.\<close>

definition Pli_Encode :: "PliPsFb \<Rightarrow> byte list \<Rightarrow> nat \<Rightarrow> (int \<times> byte list \<times> nat) res" where
  "Pli_Encode this data len =
     (let encode_len = kCommonHeaderSize + kFbHeaderSize in
      if len < encode_len then Inr (-1, data, len)
      else
        fbind (mem_put data 0 (common_header_bytes (pli_comm this))) (\<lambda>data.
        fbind (mem_put data (int kCommonHeaderSize)
          (mem32 (HostToNetwork32 (sender_ssrc (pli_fb this))) @ mem32 (HostToNetwork32 (media_ssrc (pli_fb this))))) (\<lambda>data.
        Inr (0, data, encode_len))))"

definition Pli_Dump_lines :: "PliPsFb \<Rightarrow> byte list list" where
  "Pli_Dump_lines p =
     [str ''\<newline><PliPsFb>''] @ CommonHeader_Dump_lines (pli_comm p) @ FbHeader_Dump_lines (pli_fb p) @ [str ''</PliPsFb>'']"

definition Report_Dump_lines :: "Report \<Rightarrow> byte list list" where
  "Report_Dump_lines i =
     [str ''  <block>'',
      str ''    fraction lost: '' @ decimal (unat (fraction_lost i)),
      str ''    total lost: '' @ decimal (unat (total_lost i)),
      str ''    last seq: '' @ decimal (unat (last_seq i)),
      str ''    jitter: '' @ decimal (unat (jitter i)),
      str ''    lsr: '' @ decimal (unat (lsr i)),
      str ''    dlsr: '' @ decimal (unat (dlsr i)),
      str ''  </block>'']"

text \<open>One report block: the structure, its numbers converted, the loss count reread from its three bytes.\<close>

definition load_report :: "byte list \<Rightarrow> nat \<Rightarrow> Report res" where
  "load_report data off =
     fbind (net32 data off) (\<lambda>s. fbind (rd data (off + 4)) (\<lambda>f. fbind (byte3 data (off + 5)) (\<lambda>t.
     fbind (net32 data (off + 8)) (\<lambda>q. fbind (net32 data (off + 12)) (\<lambda>j.
     fbind (net32 data (off + 16)) (\<lambda>l. fbind (net32 data (off + 20)) (\<lambda>d.
     Inr \<lparr>rep_ssrc = s, fraction_lost = f, total_lost = t, last_seq = q, jitter = j, lsr = l, dlsr = d\<rparr>)))))))"

text \<open>The loop over the report blocks, the same in both report packets.\<close>

fun decode_reports :: "byte list \<Rightarrow> nat \<Rightarrow> nat \<Rightarrow> Report list res" where
  "decode_reports data offset 0 = Inr []"
| "decode_reports data offset (Suc count) =
     (if length data > offset then
        if length data - offset < kReportSize then Inr []
        else fbind (load_report data offset) (\<lambda>r.
             fbind (decode_reports data (offset + kReportSize) count) (\<lambda>rs. Inr (r # rs)))
      else Inr [])"

definition Rr_Decode :: "RrPacket \<Rightarrow> byte list \<Rightarrow> (int \<times> RrPacket) res" where
  "Rr_Decode this data =
     (if length data < kCommonHeaderSize + 4 then Inr (-1, this)
      else
        fbind (load_common_header data) (\<lambda>ch.
        fbind (byte4 data kCommonHeaderSize) (\<lambda>s.
        fbind (decode_reports data (kCommonHeaderSize + 4) (ch_count ch)) (\<lambda>rs.
        Inr (0, this\<lparr>rr_comm := ch, rr_sender_ssrc := s, rr_reports := rr_reports this @ rs\<rparr>)))))"

definition Rr_Dump_lines :: "RrPacket \<Rightarrow> byte list list" where
  "Rr_Dump_lines p =
     [str ''\<newline><ReceiverReport>''] @ CommonHeader_Dump_lines (rr_comm p) @
     [str ''    sender_ssrc: '' @ decimal (unat (rr_sender_ssrc p))] @
     concat (map Report_Dump_lines (rr_reports p)) @ [str ''</ReceiverReport>'']"

definition load_send_info :: "byte list \<Rightarrow> nat \<Rightarrow> SendInfo res" where
  "load_send_info data off =
     fbind (net32 data off) (\<lambda>s. fbind (net32 data (off + 4)) (\<lambda>sec. fbind (net32 data (off + 8)) (\<lambda>fr.
     fbind (net32 data (off + 12)) (\<lambda>ts. fbind (net32 data (off + 16)) (\<lambda>pc. fbind (net32 data (off + 20)) (\<lambda>oc.
     Inr \<lparr>si_ssrc = s, ntp_sec = sec, ntp_frac = fr, rtp_ts = ts, packet_count = pc, octet_count = oc\<rparr>))))))"

definition Sr_Decode :: "SrPacket \<Rightarrow> byte list \<Rightarrow> (int \<times> SrPacket) res" where
  "Sr_Decode this data =
     (if length data < kCommonHeaderSize + kSendInfoSize then Inr (-1, this)
      else
        fbind (load_common_header data) (\<lambda>ch.
        fbind (load_send_info data kCommonHeaderSize) (\<lambda>si.
        fbind (decode_reports data (kCommonHeaderSize + kSendInfoSize) (ch_count ch)) (\<lambda>rs.
        Inr (0, this\<lparr>sr_comm := ch, send_info := si, sr_reports := sr_reports this @ rs\<rparr>)))))"

definition Sr_Dump_lines :: "SrPacket \<Rightarrow> byte list list" where
  "Sr_Dump_lines p =
     [str ''\<newline><SenderReport>''] @ CommonHeader_Dump_lines (sr_comm p) @
     [str ''    sender_ssrc: '' @ decimal (unat (si_ssrc (send_info p))),
      str ''    ntp_sec: '' @ decimal (unat (ntp_sec (send_info p))),
      str ''    ntp_frac: '' @ decimal (unat (ntp_frac (send_info p))),
      str ''    rtp_ts: '' @ decimal (unat (rtp_ts (send_info p))),
      str ''    packet_count: '' @ decimal (unat (packet_count (send_info p))),
      str ''    octet_count: '' @ decimal (unat (octet_count (send_info p)))] @
     concat (map Report_Dump_lines (sr_reports p)) @ [str ''</SenderReport>'']"

text \<open>
  \<open>DecodeItem\<close>. The value is assigned from \<open>offset + 2\<close> converted to a pointer,
  not from the packet: with a length other than 0 the characters are read
  through a pointer to no object.
\<close>

function DecodeItem_loop :: "byte list \<Rightarrow> nat \<Rightarrow> SdesItem list res" where
  "DecodeItem_loop data offset =
     (if length data > offset then
        let left_len = length data - offset in
        if left_len < 2 then Inr []
        else fbind (rd data 1) (\<lambda>b.
          if left_len < 2 + unat b then Inr []
          else
            fbind (rd data offset) (\<lambda>t. fbind (rd data (offset + 1)) (\<lambda>n.
            if n \<noteq> 0 then Inl BadPointer
            else if t = 0 then Inr []
            else
              let item = \<lparr>item_type = t, item_length = n, item_value = []\<rparr> in
              fbind (DecodeItem_loop data (offset + item_size item)) (\<lambda>items. Inr (item # items)))))
      else Inr [])"
  by pat_completeness auto
termination
  by (relation "measure (\<lambda>(data, offset). length data - offset)") (auto simp: item_size_def)

declare DecodeItem_loop.simps [simp del]

definition DecodeItem :: "byte list \<Rightarrow> SdesItem list res" where
  "DecodeItem data = DecodeItem_loop data 0"

fun decode_chunks :: "byte list \<Rightarrow> nat \<Rightarrow> nat \<Rightarrow> SdesChunk list res" where
  "decode_chunks data offset 0 = Inr []"
| "decode_chunks data offset (Suc count) =
     (if length data > offset then
        if length data - offset < 4 then Inr []
        else
          fbind (byte4 data offset) (\<lambda>s.
          fbind (DecodeItem (drop offset data)) (\<lambda>items.
          let chunk = \<lparr>chunk_ssrc = s, chunk_items = items\<rparr> in
          fbind (decode_chunks data (offset + chunk_size chunk) count) (\<lambda>cs. Inr (chunk # cs))))
      else Inr [])"

definition Sdes_Decode :: "SdesPacket \<Rightarrow> byte list \<Rightarrow> (int \<times> SdesPacket) res" where
  "Sdes_Decode this data =
     (if length data < kCommonHeaderSize then Inr (-1, this)
      else
        fbind (load_common_header data) (\<lambda>ch.
        fbind (decode_chunks data kCommonHeaderSize (ch_count ch)) (\<lambda>cs.
        Inr (0, this\<lparr>sdes_comm := ch, chunks := chunks this @ cs\<rparr>))))"

definition Item_Dump_lines :: "SdesItem \<Rightarrow> byte list list" where
  "Item_Dump_lines i =
     [str ''    <item>'',
      str ''    type: '' @ decimal (unat (item_type i)),
      str ''    length: '' @ decimal (unat (item_length i)),
      str ''    value: '' @ c_string (item_value i),
      str ''    </item>'']"

definition Chunk_Dump_lines :: "SdesChunk \<Rightarrow> byte list list" where
  "Chunk_Dump_lines c =
     [str ''  <chunk>'', str ''  ssrc: '' @ decimal (unat (chunk_ssrc c))] @
     concat (map Item_Dump_lines (chunk_items c)) @ [str ''  </chunk>'']"

definition Sdes_Dump_lines :: "SdesPacket \<Rightarrow> byte list list" where
  "Sdes_Dump_lines p =
     [str ''\<newline><Sdes>''] @ CommonHeader_Dump_lines (sdes_comm p) @
     concat (map Chunk_Dump_lines (chunks p)) @ [str ''</Sdes>'']"

text \<open>Each \<open>Dump\<close> appends its lines to an empty string.\<close>

definition Rtcp_Dump :: "byte list \<Rightarrow> byte list list \<Rightarrow> (byte list \<times> byte list) res" where
  "Rtcp_Dump ext ls = append_lines ext [] ls"

section \<open>Layouts and their decoding\<close>

definition ch_ok :: "CommonHeader \<Rightarrow> bool" where
  "ch_ok h \<longleftrightarrow> ch_count h < 32 \<and> ch_padding h < 2 \<and> ch_version h < 4"

definition report_bytes :: "Report \<Rightarrow> byte list" where
  "report_bytes r = be32 (rep_ssrc r) @ [fraction_lost r] @ be24 (total_lost r) @ be32 (last_seq r) @
     be32 (jitter r) @ be32 (lsr r) @ be32 (dlsr r)"

definition send_info_bytes :: "SendInfo \<Rightarrow> byte list" where
  "send_info_bytes i = be32 (si_ssrc i) @ be32 (ntp_sec i) @ be32 (ntp_frac i) @ be32 (rtp_ts i) @
     be32 (packet_count i) @ be32 (octet_count i)"

definition rr_bytes :: "RrPacket \<Rightarrow> byte list" where
  "rr_bytes p = common_header_bytes (rr_comm p) @ be32 (rr_sender_ssrc p) @ concat (map report_bytes (rr_reports p))"

definition sr_bytes :: "SrPacket \<Rightarrow> byte list" where
  "sr_bytes p = common_header_bytes (sr_comm p) @ send_info_bytes (send_info p) @ concat (map report_bytes (sr_reports p))"

text \<open>The count of the header is the number of blocks, and the loss counts have 24 bits.\<close>

definition reports_ok :: "CommonHeader \<Rightarrow> Report list \<Rightarrow> bool" where
  "reports_ok h rs \<longleftrightarrow> ch_ok h \<and> ch_count h = length rs \<and> (\<forall>r \<in> set rs. take_bit 24 (total_lost r) = total_lost r)"

lemma length_layouts [simp]:
  "length (common_header_bytes h) = 4" "length (report_bytes r) = 24" "length (send_info_bytes i) = 24"
  by (simp_all add: common_header_bytes_def report_bytes_def send_info_bytes_def mem16_def)

lemma net_total: "i + 2 \<le> length d \<Longrightarrow> \<exists>v. net16 d i = Inr v" "i + 4 \<le> length d \<Longrightarrow> \<exists>v. net32 d i = Inr v"
  using b2.get_total [of i d] b4.get_total [of i d] by (auto simp: net16_byte2 net32_byte4)

lemma rtcp_byte_bits:
  assumes "c < 32" "p < 2" "v < 4"
  shows "bits (word_of_nat (c + 32 * p + 64 * v)) 0 5 = c" "bits (word_of_nat (c + 32 * p + 64 * v)) 5 1 = p"
    "bits (word_of_nat (c + 32 * p + 64 * v)) 6 2 = v"
proof -
  let ?n = "c + 32 * p + 64 * v"
  have u: "unat (word_of_nat ?n :: byte) = ?n" using assms by (intro unat_of_nat_byte) simp
  have px: "p = 0 \<or> p = 1" using assms by linarith
  have "?n mod 32 = (c + 32 * (p + 2 * v)) mod 32" by (rule arg_cong) simp
  then have "?n mod 32 = c" using assms(1) by (simp only: mod_mult_self2 mod_less)
  then show "bits (word_of_nat ?n) 0 5 = c" unfolding bits_def u by simp
  have "?n div 32 = p + 2 * v" "?n div 64 = v" by (rule div_nat_eqI; use assms px in auto)+
  then show "bits (word_of_nat ?n) 5 1 = p" "bits (word_of_nat ?n) 6 2 = v"
    unfolding bits_def u using px assms by auto
qed

lemma load_common_header_bytes: "ch_ok h \<Longrightarrow> load_common_header (common_header_bytes h @ rest) = Inr h"
proof -
  assume ok: "ch_ok h"
  define b where "b = (word_of_nat (ch_count h + 32 * ch_padding h + 64 * ch_version h) :: byte)"
  have d: "common_header_bytes h @ rest = [b, ch_type h] @ be16 (ch_length h) @ rest"
    by (simp add: common_header_bytes_def b_def)
  have "byte2 ([b, ch_type h] @ be16 (ch_length h) @ rest) 2 = Inr (ch_length h)"
    by (rule b2.get_enc) (simp_all add: sub_def)
  then show ?thesis
    using rtcp_byte_bits [of "ch_count h" "ch_padding h" "ch_version h", folded b_def] ok
    unfolding d by (simp add: load_common_header_def net16_byte2 rd_def ch_ok_def)
qed

lemma load_common_header_total: "4 \<le> length d \<Longrightarrow> \<exists>h. load_common_header d = Inr h"
proof -
  assume l: "4 \<le> length d"
  obtain n where "net16 d 2 = Inr n" using net_total(1) [of 2 d] l by auto
  moreover have "rd d 0 = Inr (d ! 0)" "rd d 1 = Inr (d ! 1)" using l by (auto simp: rd_def)
  ultimately show ?thesis by (simp add: load_common_header_def)
qed

lemma load_report_bytes:
  assumes "take_bit 24 (total_lost r) = total_lost r"
  shows "load_report (xs @ report_bytes r @ ys) (length xs) = Inr r"
proof -
  let ?d = "xs @ report_bytes r @ ys"
  have "byte4 ?d (length xs) = Inr (rep_ssrc r)" "byte4 ?d (length xs + 8) = Inr (last_seq r)"
    "byte4 ?d (length xs + 12) = Inr (jitter r)" "byte4 ?d (length xs + 16) = Inr (lsr r)"
    "byte4 ?d (length xs + 20) = Inr (dlsr r)"
    by (rule b4.get_enc; simp add: sub_def report_bytes_def)+
  moreover have "byte3 ?d (length xs + 5) = Inr (total_lost r)"
    using assms by (intro b3.get_enc) (simp_all add: sub_def report_bytes_def)
  moreover have "rd ?d (length xs + 4) = Inr (fraction_lost r)"
    by (simp add: rd_def report_bytes_def nth_append)
  ultimately show ?thesis by (simp add: load_report_def net32_byte4)
qed

lemma load_report_total: "off + 24 \<le> length d \<Longrightarrow> \<exists>r. load_report d off = Inr r"
proof -
  assume l: "off + 24 \<le> length d"
  obtain a b c e f where "net32 d off = Inr a" "net32 d (off + 8) = Inr b" "net32 d (off + 12) = Inr c"
      "net32 d (off + 16) = Inr e" "net32 d (off + 20) = Inr f"
    using net_total(2) [of off d] net_total(2) [of "off + 8" d] net_total(2) [of "off + 12" d]
      net_total(2) [of "off + 16" d] net_total(2) [of "off + 20" d] l by auto
  moreover obtain t where "byte3 d (off + 5) = Inr t" using b3.get_total [of "off + 5" d] l by auto
  moreover have "rd d (off + 4) = Inr (d ! (off + 4))" using l by (simp add: rd_def)
  ultimately show ?thesis by (simp add: load_report_def)
qed

lemma decode_reports_bytes:
  "\<forall>r \<in> set rs. take_bit 24 (total_lost r) = total_lost r \<Longrightarrow>
     decode_reports (xs @ concat (map report_bytes rs) @ ys) (length xs) (length rs) = Inr rs"
proof (induction rs arbitrary: xs)
  case (Cons r rs)
  have "load_report (xs @ report_bytes r @ concat (map report_bytes rs) @ ys) (length xs) = Inr r"
    using Cons.prems by (intro load_report_bytes) simp
  moreover have "decode_reports ((xs @ report_bytes r) @ concat (map report_bytes rs) @ ys) (length (xs @ report_bytes r)) (length rs) = Inr rs"
    using Cons.prems by (intro Cons.IH) simp
  ultimately show ?case by (simp add: kReportSize_def)
qed simp

lemma decode_reports_total: "\<exists>rs. decode_reports d offset n = Inr rs \<and> length rs \<le> n"
proof (induction n arbitrary: offset)
  case (Suc n)
  show ?case
  proof (cases "offset + 24 \<le> length d")
    case True
    then obtain r where "load_report d offset = Inr r" using load_report_total by blast
    then show ?thesis using Suc.IH [of "offset + 24"] True by (auto simp: kReportSize_def)
  next
    case False
    then have "length d - offset < 24 \<or> \<not> offset < length d" by linarith
    then show ?thesis by (auto simp: kReportSize_def)
  qed
qed simp

lemma load_send_info_bytes: "load_send_info (xs @ send_info_bytes i @ ys) (length xs) = Inr i"
proof -
  let ?d = "xs @ send_info_bytes i @ ys"
  have "byte4 ?d (length xs) = Inr (si_ssrc i)" "byte4 ?d (length xs + 4) = Inr (ntp_sec i)"
    "byte4 ?d (length xs + 8) = Inr (ntp_frac i)" "byte4 ?d (length xs + 12) = Inr (rtp_ts i)"
    "byte4 ?d (length xs + 16) = Inr (packet_count i)" "byte4 ?d (length xs + 20) = Inr (octet_count i)"
    by (rule b4.get_enc; simp add: sub_def send_info_bytes_def)+
  then show ?thesis by (simp add: load_send_info_def net32_byte4)
qed

lemma load_send_info_total: "off + 24 \<le> length d \<Longrightarrow> \<exists>i. load_send_info d off = Inr i"
proof -
  assume l: "off + 24 \<le> length d"
  obtain a b c e f g where "net32 d off = Inr a" "net32 d (off + 4) = Inr b" "net32 d (off + 8) = Inr c"
      "net32 d (off + 12) = Inr e" "net32 d (off + 16) = Inr f" "net32 d (off + 20) = Inr g"
    using net_total(2) [of off d] net_total(2) [of "off + 4" d] net_total(2) [of "off + 8" d]
      net_total(2) [of "off + 12" d] net_total(2) [of "off + 16" d] net_total(2) [of "off + 20" d] l by auto
  then show ?thesis by (simp add: load_send_info_def)
qed

lemma report_decoders_total:
  "(\<exists>r p'. Pli_Decode p d = Inr (r, p')) \<and>
   (\<exists>r s'. Sr_Decode s d = Inr (r, s') \<and> length (sr_reports s') \<le> length (sr_reports s) + 31) \<and>
   (\<exists>r t'. Rr_Decode t d = Inr (r, t') \<and> length (rr_reports t') \<le> length (rr_reports t) + 31)"
proof -
  have cnt: "ch_count h \<le> 31" if hd: "load_common_header d = Inr h" for h
  proof -
    obtain b where "ch_count h = bits b 0 5"
      using hd by (auto simp: load_common_header_def fbind_Inr_iff)
    then show ?thesis using bits_less [of b 0 5] by simp
  qed
  have "\<exists>r p'. Pli_Decode p d = Inr (r, p')"
    using load_common_header_total [of d] net_total(2) [of 4 d] net_total(2) [of 8 d]
    by (auto simp: Pli_Decode_def kCommonHeaderSize_def kFbHeaderSize_def)
  moreover have "\<exists>r s'. Sr_Decode s d = Inr (r, s') \<and> length (sr_reports s') \<le> length (sr_reports s) + 31"
  proof (cases "28 \<le> length d")
    case True
    obtain h i where hi: "load_common_header d = Inr h" "load_send_info d 4 = Inr i"
      using load_common_header_total [of d] load_send_info_total [of 4 d] True by auto
    obtain rs where "decode_reports d 28 (ch_count h) = Inr rs" "length rs \<le> ch_count h"
      using decode_reports_total by blast
    then show ?thesis using hi True cnt [OF hi(1)] by (simp add: Sr_Decode_def kCommonHeaderSize_def kSendInfoSize_def)
  qed (simp add: Sr_Decode_def kCommonHeaderSize_def kSendInfoSize_def)
  moreover have "\<exists>r t'. Rr_Decode t d = Inr (r, t') \<and> length (rr_reports t') \<le> length (rr_reports t) + 31"
  proof (cases "8 \<le> length d")
    case True
    obtain h i where hi: "load_common_header d = Inr h" "byte4 d 4 = Inr i"
      using load_common_header_total [of d] b4.get_total [of 4 d] True by auto
    obtain rs where "decode_reports d 8 (ch_count h) = Inr rs" "length rs \<le> ch_count h"
      using decode_reports_total by blast
    then show ?thesis using hi True cnt [OF hi(1)] by (simp add: Rr_Decode_def kCommonHeaderSize_def)
  qed (simp add: Rr_Decode_def kCommonHeaderSize_def)
  ultimately show ?thesis by blast
qed

section \<open>Properties\<close>

text \<open>Round trip of the picture loss indication: encoding it into a large
  enough area and decoding the twelve bytes written gives it back, and the rest
  of the area is untouched.\<close>

theorem Pli_roundtrip:
  assumes "ch_ok (pli_comm p)" "12 \<le> length area"
  shows "\<exists>m. Pli_Encode p area (length area) = Inr (0, m, 12) \<and> drop 12 m = drop 12 area \<and>
    Pli_Decode q (take 12 m) = Inr (0, p)"
proof -
  let ?h = "common_header_bytes (pli_comm p)" and ?s = "be32 (sender_ssrc (pli_fb p))" and ?m = "be32 (media_ssrc (pli_fb p))"
  let ?t = "?h @ ?s @ ?m"
  have "mem_put area 0 ?h = Inr (?h @ drop 4 area)"
    using assms(2) by (simp add: mem_put_def window_def)
  moreover have "mem_put (?h @ drop 4 area) 4 (?s @ ?m) = Inr (?t @ drop 12 area)"
    using assms(2) by (simp add: mem_put_def window_def)
  ultimately have e: "Pli_Encode p area (length area) = Inr (0, ?t @ drop 12 area, 12)"
    using assms(2) by (simp add: Pli_Encode_def kCommonHeaderSize_def kFbHeaderSize_def)
  have "byte4 ?t 4 = Inr (sender_ssrc (pli_fb p))" "byte4 ?t 8 = Inr (media_ssrc (pli_fb p))"
    by (rule b4.get_enc; simp add: sub_def)+
  then have "Pli_Decode q ?t = Inr (0, p)"
    using load_common_header_bytes [OF assms(1), of "?s @ ?m"]
    by (simp add: Pli_Decode_def kCommonHeaderSize_def kFbHeaderSize_def net32_byte4)
  then show ?thesis using e by simp
qed

theorem Pli_roundtrip_witness:
  "\<exists>m. Pli_Encode \<lparr>pli_comm = \<lparr>ch_count = 1, ch_padding = 0, ch_version = 2, ch_type = 206, ch_length = 2\<rparr>,
      pli_fb = \<lparr>sender_ssrc = 1, media_ssrc = 0xDEADBEEF\<rparr>\<rparr> (replicate 16 0) 16 = Inr (0, m, 12) \<and> drop 12 m = [0, 0, 0, 0]"
  using Pli_roundtrip [of "\<lparr>pli_comm = \<lparr>ch_count = 1, ch_padding = 0, ch_version = 2, ch_type = 206, ch_length = 2\<rparr>,
      pli_fb = \<lparr>sender_ssrc = 1, media_ssrc = 0xDEADBEEF\<rparr>\<rparr>" "replicate 16 0"]
  by (auto simp: ch_ok_def numeral_eq_Suc)

text \<open>C24. A sender report laid out as RFC 3550 says is decoded to all of its
  fields, the 24-bit loss counts included, in the order of its blocks.\<close>

theorem Sr_Decode_recovers:
  assumes "reports_ok (sr_comm p) (sr_reports p)" "sr_reports q = []"
  shows "Sr_Decode q (sr_bytes p @ ys) = Inr (0, p)"
proof -
  let ?h = "common_header_bytes (sr_comm p)" and ?i = "send_info_bytes (send_info p)"
  have ok: "ch_ok (sr_comm p)" "ch_count (sr_comm p) = length (sr_reports p)"
    using assms by (simp_all add: reports_ok_def)
  have "load_common_header (sr_bytes p @ ys) = Inr (sr_comm p)"
    using load_common_header_bytes [OF ok(1)] by (simp add: sr_bytes_def)
  moreover have "load_send_info (sr_bytes p @ ys) 4 = Inr (send_info p)"
    using load_send_info_bytes [of ?h] by (simp add: sr_bytes_def)
  moreover have "decode_reports (sr_bytes p @ ys) 28 (length (sr_reports p)) = Inr (sr_reports p)"
    using decode_reports_bytes [of "sr_reports p" "?h @ ?i" ys] assms by (simp add: sr_bytes_def reports_ok_def)
  moreover have "28 \<le> length (sr_bytes p @ ys)" by (simp add: sr_bytes_def)
  ultimately show ?thesis
    using assms(2) ok(2) by (simp add: Sr_Decode_def kCommonHeaderSize_def kSendInfoSize_def)
qed

theorem Sr_Decode_recovers_witness:
  "let p = \<lparr>sr_comm = \<lparr>ch_count = 1, ch_padding = 0, ch_version = 2, ch_type = 200, ch_length = 12\<rparr>,
       send_info = \<lparr>si_ssrc = 1, ntp_sec = 2, ntp_frac = 3, rtp_ts = 4, packet_count = 5, octet_count = 6\<rparr>,
       sr_reports = [\<lparr>rep_ssrc = 7, fraction_lost = 8, total_lost = 0x010203, last_seq = 9, jitter = 10, lsr = 11, dlsr = 12\<rparr>]\<rparr>
   in Sr_Decode (p\<lparr>sr_reports := []\<rparr>) (sr_bytes p) = Inr (0, p)"
  unfolding Let_def
  by (rule Sr_Decode_recovers [where ys = "[]", simplified]) (simp_all add: reports_ok_def ch_ok_def)

text \<open>The same for receiver reports.\<close>

theorem Rr_Decode_recovers:
  assumes "reports_ok (rr_comm p) (rr_reports p)" "rr_reports q = []"
  shows "Rr_Decode q (rr_bytes p @ ys) = Inr (0, p)"
proof -
  let ?h = "common_header_bytes (rr_comm p)" and ?s = "be32 (rr_sender_ssrc p)"
  have ok: "ch_ok (rr_comm p)" "ch_count (rr_comm p) = length (rr_reports p)"
    using assms by (simp_all add: reports_ok_def)
  have "load_common_header (rr_bytes p @ ys) = Inr (rr_comm p)"
    using load_common_header_bytes [OF ok(1)] by (simp add: rr_bytes_def)
  moreover have "byte4 (rr_bytes p @ ys) 4 = Inr (rr_sender_ssrc p)"
    by (rule b4.get_enc) (simp_all add: sub_def rr_bytes_def)
  moreover have "decode_reports (rr_bytes p @ ys) 8 (length (rr_reports p)) = Inr (rr_reports p)"
    using decode_reports_bytes [of "rr_reports p" "?h @ ?s" ys] assms by (simp add: rr_bytes_def reports_ok_def)
  moreover have "8 \<le> length (rr_bytes p @ ys)" by (simp add: rr_bytes_def)
  ultimately show ?thesis
    using assms(2) ok(2) by (simp add: Rr_Decode_def kCommonHeaderSize_def)
qed

theorem Rr_Decode_recovers_witness:
  "let p = \<lparr>rr_comm = \<lparr>ch_count = 1, ch_padding = 0, ch_version = 2, ch_type = 201, ch_length = 7\<rparr>, rr_sender_ssrc = 1,
       rr_reports = [\<lparr>rep_ssrc = 7, fraction_lost = 8, total_lost = 0xFFFFFF, last_seq = 9, jitter = 10, lsr = 11, dlsr = 12\<rparr>]\<rparr>
   in Rr_Decode (p\<lparr>rr_reports := []\<rparr>) (rr_bytes p) = Inr (0, p)"
  unfolding Let_def
  by (rule Rr_Decode_recovers [where ys = "[]", simplified]) (simp_all add: reports_ok_def ch_ok_def)

text \<open>The decoders of picture loss indications and of the two reports return
  on every input: no count and no length makes them read outside the packet, and
  at most as many blocks are stored as the five-bit count announces.\<close>

theorem report_decoders_return:
  "(\<exists>r p'. Pli_Decode p d = Inr (r, p')) \<and>
   (\<exists>r s'. Sr_Decode s d = Inr (r, s') \<and> length (sr_reports s') \<le> length (sr_reports s) + 31) \<and>
   (\<exists>r t'. Rr_Decode t d = Inr (r, t') \<and> length (rr_reports t') \<le> length (rr_reports t) + 31)"
  by (rule report_decoders_total)



end
