(* ===== verification/Time_Wheel.thy ===== *)
theory Time_Wheel
  imports Baize_Prelude "HOL-Library.Signed_Division"
begin

text \<open>
  \<open>kernel/time/time_stamp.{h,cc}\<close>, \<open>kernel/time/timer.{h,cc}\<close> and
  \<open>kernel/time/time_wheel.{h,cc}\<close>: time stamps, timers and the four wheels of 256
  slots. The doubly linked lists are kept in an explicit store: \<open>nxt\<close> and \<open>prv\<close>
  give the pointers of every node, where a node is the head of a slot or a
  timer. The store is shown to represent one list of timers for each slot.
\<close>

section \<open>The code\<close>

text \<open>A time stamp is its number of microseconds; \<open>/\<close> on \<open>int64_t\<close> truncates.\<close>

type_synonym Timestamp = int

definition kUsPerSec :: int where "kUsPerSec = 1000000"

definition Timestamp_timeval :: "int \<Rightarrow> int \<Rightarrow> Timestamp" where
  "Timestamp_timeval tv_sec tv_usec = tv_sec * kUsPerSec + tv_usec"

text \<open>\<open>Now\<close>, with what \<open>gettimeofday\<close> stored.\<close>

definition Timestamp_Now :: "int \<times> int \<Rightarrow> Timestamp" where
  "Timestamp_Now tv = fst tv * kUsPerSec + snd tv"

definition AddUs :: "Timestamp \<Rightarrow> int \<Rightarrow> Timestamp" where
  "AddUs t us = t + us"

definition AddMs :: "Timestamp \<Rightarrow> int \<Rightarrow> Timestamp" where
  "AddMs t ms = t + 1000 * ms"

definition stamp_ms :: "Timestamp \<Rightarrow> int" where
  "stamp_ms t = t sdiv 1000"

definition stamp_valid :: "Timestamp \<Rightarrow> bool" where
  "stamp_valid t \<longleftrightarrow> 0 < t"

definition stamp_less :: "Timestamp \<Rightarrow> Timestamp \<Rightarrow> bool" where
  "stamp_less l r \<longleftrightarrow> l < r"

definition stamp_eq :: "Timestamp \<Rightarrow> Timestamp \<Rightarrow> bool" where
  "stamp_eq l r \<longleftrightarrow> l = r"

text \<open>The nodes of the lists: the heads, which are elements of \<open>time_wheel_\<close>, and the timers of the program.\<close>

datatype node = Head nat nat | Tm nat

record TimeWheel =
  last_ms :: int
  nxt :: "node \<Rightarrow> node option"
  prv :: "node \<Rightarrow> node option"
  expiration :: "node \<Rightarrow> Timestamp"

definition kWheelNum :: nat where "kWheelNum = 4"
definition kWheelSize :: nat where "kWheelSize = 256"

definition TimeWheel_new :: "Timestamp \<Rightarrow> TimeWheel" where
  "TimeWheel_new now = \<lparr>last_ms = stamp_ms now, nxt = (\<lambda>_. None), prv = (\<lambda>_. None), expiration = (\<lambda>_. 0)\<rparr>"

definition DelTimer :: "TimeWheel \<Rightarrow> node \<Rightarrow> TimeWheel" where
  "DelTimer w timer =
     (case prv w timer of
        None \<Rightarrow> w\<lparr>nxt := (nxt w)(timer := None)\<rparr>
      | Some p \<Rightarrow>
          let w = (case nxt w timer of
                     Some n \<Rightarrow> w\<lparr>prv := (prv w)(n := Some p), nxt := (nxt w)(p := Some n)\<rparr>
                   | None \<Rightarrow> w\<lparr>nxt := (nxt w)(p := None)\<rparr>)
          in w\<lparr>prv := (prv w)(timer := None), nxt := (nxt w)(timer := None)\<rparr>)"

definition MaxTime :: "nat \<Rightarrow> int" where
  "MaxTime wheel_index = 2 ^ ((wheel_index + 1) * 8)"

definition CalcTime :: "int \<Rightarrow> nat \<Rightarrow> nat" where
  "CalcTime ms wheel_index = nat (ms div 2 ^ (wheel_index * 8) mod 256)"

text \<open>The loop over the wheels of \<open>FindHead\<close>.\<close>

fun find_wheel :: "int \<Rightarrow> nat list \<Rightarrow> nat option" where
  "find_wheel diff [] = None"
| "find_wheel diff (i # is) = (if diff < MaxTime i then Some i else find_wheel diff is)"

definition FindHead :: "TimeWheel \<Rightarrow> node \<Rightarrow> node option" where
  "FindHead w timer =
     (let ms = stamp_ms (expiration w timer); diff = ms - last_ms w in
      if diff < 0 then None
      else case find_wheel diff [0..<kWheelNum] of
             None \<Rightarrow> None
           | Some i \<Rightarrow> Some (Head i (CalcTime ms i)))"

definition AddTimer :: "TimeWheel \<Rightarrow> node \<Rightarrow> TimeWheel" where
  "AddTimer w timer =
     (let w = DelTimer w timer in
      case FindHead w timer of
        None \<Rightarrow> w
      | Some head \<Rightarrow>
          (case nxt w head of
             Some n \<Rightarrow> w\<lparr>nxt := (nxt w)(timer := Some n, head := Some timer),
                         prv := (prv w)(n := Some timer, timer := Some head)\<rparr>
           | None \<Rightarrow> w\<lparr>nxt := (nxt w)(timer := None, head := Some timer), prv := (prv w)(timer := Some head)\<rparr>))"

fun find_tail :: "nat \<Rightarrow> TimeWheel \<Rightarrow> node \<Rightarrow> node res" where
  "find_tail 0 w n = Inl Diverge"
| "find_tail (Suc fuel) w n = (case nxt w n of None \<Rightarrow> Inr n | Some n' \<Rightarrow> find_tail fuel w n')"

definition MoveTimerList :: "nat \<Rightarrow> TimeWheel \<Rightarrow> node \<Rightarrow> TimeWheel res" where
  "MoveTimerList fuel w head =
     (case nxt w head of
        None \<Rightarrow> Inr w
      | Some timer_list_head \<Rightarrow>
          let w = w\<lparr>nxt := (nxt w)(head := None)\<rparr> in
          (case FindHead w timer_list_head of
             None \<Rightarrow> Inl AssertFail
           | Some move_to_head \<Rightarrow>
               fbind (find_tail fuel w move_to_head) (\<lambda>tail.
               Inr (w\<lparr>nxt := (nxt w)(tail := Some timer_list_head),
                      prv := (prv w)(timer_list_head := Some tail)\<rparr>))))"

text \<open>
  \<open>Timer::Run\<close>. The callback is a function of the rest of the program's state
  and the wheel, which it may change by starting and stopping timers.
\<close>

type_synonym 'e callback = "node \<Rightarrow> 'e \<Rightarrow> TimeWheel \<Rightarrow> (int \<times> 'e \<times> TimeWheel) res"

definition Timer_Run :: "'e callback \<Rightarrow> 'e \<Rightarrow> TimeWheel \<Rightarrow> node \<Rightarrow> (bool \<times> 'e \<times> TimeWheel) res" where
  "Timer_Run cb e w timer =
     fbind (cb timer e w) (\<lambda>(next_ms, e, w).
     Inr (if next_ms \<le> 0 then (False, e, w)
          else (True, e, w\<lparr>expiration := (expiration w)(timer := AddMs (expiration w timer) next_ms)\<rparr>)))"

definition Timer_Start :: "TimeWheel \<Rightarrow> Timestamp \<Rightarrow> node \<Rightarrow> int \<Rightarrow> TimeWheel" where
  "Timer_Start w now timer ms = AddTimer (w\<lparr>expiration := (expiration w)(timer := AddMs now ms)\<rparr>) timer"

definition Timer_Stop :: "TimeWheel \<Rightarrow> node \<Rightarrow> TimeWheel" where
  "Timer_Stop w timer = DelTimer w timer"

text \<open>The cascade loop over the upper wheels, as written: the index is always that of wheel 1.\<close>

fun cascade :: "nat \<Rightarrow> TimeWheel \<Rightarrow> nat list \<Rightarrow> TimeWheel res" where
  "cascade fuel w [] = Inr w"
| "cascade fuel w (j # js) =
     (let moved_index = CalcTime (last_ms w) 1 in
      fbind (MoveTimerList fuel w (Head j moved_index)) (\<lambda>w.
      if moved_index \<noteq> 0 then Inr w else cascade fuel w js))"

fun fire :: "nat \<Rightarrow> 'e callback \<Rightarrow> 'e \<Rightarrow> TimeWheel \<Rightarrow> node \<Rightarrow> ('e \<times> TimeWheel) res" where
  "fire 0 cb e w head = Inl Diverge"
| "fire (Suc fuel) cb e w head =
     (case nxt w head of
        None \<Rightarrow> Inr (e, w)
      | Some timer \<Rightarrow>
          fbind (Timer_Run cb e (DelTimer w timer) timer) (\<lambda>(again, e, w).
          fire fuel cb e (if again then AddTimer w timer else w) head))"

text \<open>One iteration of the loop of \<open>TurnWheel\<close>, and the loop.\<close>

definition tick :: "nat \<Rightarrow> 'e callback \<Rightarrow> 'e \<Rightarrow> TimeWheel \<Rightarrow> ('e \<times> TimeWheel) res" where
  "tick fuel cb e w =
     (let w = w\<lparr>last_ms := last_ms w + 1\<rparr>; index = CalcTime (last_ms w) 0 in
      fbind (if index = 0 then cascade fuel w [1..<kWheelNum] else Inr w) (\<lambda>w.
      fire fuel cb e w (Head 0 index)))"

fun ticks :: "nat \<Rightarrow> nat \<Rightarrow> 'e callback \<Rightarrow> 'e \<Rightarrow> TimeWheel \<Rightarrow> ('e \<times> TimeWheel) res" where
  "ticks fuel 0 cb e w = Inr (e, w)"
| "ticks fuel (Suc n) cb e w = fbind (tick fuel cb e w) (\<lambda>(e, w). ticks fuel n cb e w)"

definition TurnWheel :: "nat \<Rightarrow> Timestamp \<Rightarrow> 'e callback \<Rightarrow> 'e \<Rightarrow> TimeWheel \<Rightarrow> ('e \<times> TimeWheel) res" where
  "TurnWheel fuel now cb e w = ticks fuel (nat (stamp_ms now - last_ms w)) cb e w"

section \<open>The lists the store represents\<close>

text \<open>From node \<open>p\<close> on, the pointers run through \<open>xs\<close> and back.\<close>

fun dlist :: "TimeWheel \<Rightarrow> node \<Rightarrow> node list \<Rightarrow> bool" where
  "dlist w p [] \<longleftrightarrow> nxt w p = None"
| "dlist w p (x # xs) \<longleftrightarrow> nxt w p = Some x \<and> prv w x = Some p \<and> dlist w x xs"

type_synonym slots = "nat \<Rightarrow> nat \<Rightarrow> node list"

definition is_timer :: "node \<Rightarrow> bool" where
  "is_timer n \<longleftrightarrow> (\<exists>k. n = Tm k)"

definition wheel_ok :: "TimeWheel \<Rightarrow> slots \<Rightarrow> bool" where
  "wheel_ok w S \<longleftrightarrow>
     (\<forall>i j. dlist w (Head i j) (S i j) \<and> distinct (S i j) \<and> (\<forall>t \<in> set (S i j). is_timer t)) \<and>
     (\<forall>i j i' j'. (i, j) \<noteq> (i', j') \<longrightarrow> set (S i j) \<inter> set (S i' j') = {}) \<and>
     (\<forall>n. (\<forall>i j. n \<notin> set (S i j)) \<longrightarrow> prv w n = None)"

text \<open>The operations on the lists.\<close>

definition slots_del :: "slots \<Rightarrow> node \<Rightarrow> slots" where
  "slots_del S t = (\<lambda>i j. remove1 t (S i j))"

definition slots_set :: "slots \<Rightarrow> nat \<Rightarrow> nat \<Rightarrow> node list \<Rightarrow> slots" where
  "slots_set S i j xs = (\<lambda>i' j'. if i' = i \<and> j' = j then xs else S i' j')"

definition slots_add :: "slots \<Rightarrow> node option \<Rightarrow> node \<Rightarrow> slots" where
  "slots_add S h t =
     (let S = slots_del S t in
      case h of Some (Head i j) \<Rightarrow> slots_set S i j (t # S i j) | _ \<Rightarrow> S)"

lemma dlist_cong:
  "nxt w p = nxt w' p \<Longrightarrow> (\<And>x. x \<in> set xs \<Longrightarrow> nxt w x = nxt w' x \<and> prv w x = prv w' x) \<Longrightarrow>
     dlist w p xs \<longleftrightarrow> dlist w' p xs"
  by (induction xs arbitrary: p) auto

lemma dlist_prv: "dlist w p xs \<Longrightarrow> x \<in> set xs \<Longrightarrow> \<exists>q \<in> insert p (set xs). prv w x = Some q \<and> nxt w q = Some x"
proof (induction xs arbitrary: p)
  case (Cons y xs)
  then show ?case by (cases "x = y") auto
qed simp

lemma dlist_nxt: "dlist w p xs \<Longrightarrow> x \<in> insert p (set xs) \<Longrightarrow> nxt w x = Some n \<Longrightarrow> n \<in> set xs \<and> prv w n = Some x"
proof (induction xs arbitrary: p)
  case (Cons y xs)
  then show ?case by (cases "x = p") auto
qed simp

lemma DelTimer_fields [simp]:
  "last_ms (DelTimer w t) = last_ms w" "expiration (DelTimer w t) = expiration w"
  "nxt (DelTimer w t) t = None" "prv (DelTimer w t) t = None"
  by (auto simp: DelTimer_def Let_def split: option.splits)

lemma DelTimer_nxt: "x \<noteq> t \<Longrightarrow> prv w t \<noteq> Some x \<Longrightarrow> nxt (DelTimer w t) x = nxt w x"
  by (auto simp: DelTimer_def Let_def split: option.splits)

lemma DelTimer_prv: "x \<noteq> t \<Longrightarrow> nxt w t \<noteq> Some x \<Longrightarrow> prv (DelTimer w t) x = prv w x"
  by (auto simp: DelTimer_def Let_def split: option.splits)

lemma dlist_remove:
  "dlist w h (xs @ t # ys) \<Longrightarrow> distinct (h # xs @ t # ys) \<Longrightarrow> dlist (DelTimer w t) h (xs @ ys)"
proof (induction xs arbitrary: h)
  case Nil
  have p: "prv w t = Some h" using Nil by simp
  show ?case
  proof (cases ys)
    case Nil
    then show ?thesis using p Nil.prems by (simp add: DelTimer_def Let_def)
  next
    case (Cons y zs)
    then have n: "nxt w t = Some y" using Nil.prems by simp
    have "dlist w y zs" using Nil.prems Cons by simp
    moreover have "nxt (DelTimer w t) z = nxt w z \<and> (z \<noteq> y \<longrightarrow> prv (DelTimer w t) z = prv w z)" if "z \<in> set (y # zs)" for z
    proof -
      have "z \<noteq> t" "z \<noteq> h" using that Nil.prems Cons by auto
      then show ?thesis using p n by (simp add: DelTimer_nxt DelTimer_prv)
    qed
    ultimately have "dlist (DelTimer w t) y zs"
      using Nil.prems Cons by (subst dlist_cong [of _ _ w]) auto
    then show ?thesis using Cons p n Nil.prems by (auto simp: DelTimer_def Let_def)
  qed
next
  case (Cons x xs)
  have d: "dlist w x (xs @ t # ys)" and hx: "nxt w h = Some x" "prv w x = Some h" using Cons.prems by simp_all
  obtain q where q: "q \<in> insert x (set (xs @ t # ys))" "prv w t = Some q" using dlist_prv [OF d, of t] by auto
  then have "nxt (DelTimer w t) h = Some x" using hx Cons.prems by (subst DelTimer_nxt) auto
  moreover have "nxt w t \<noteq> Some x" using dlist_nxt [OF d, of t x] Cons.prems by auto
  then have "prv (DelTimer w t) x = Some h" using hx Cons.prems by (subst DelTimer_prv) auto
  ultimately show ?case using Cons.IH [OF d] Cons.prems by simp
qed

subsection \<open>Stopping a timer\<close>

lemma wheel_okD:
  assumes "wheel_ok w S"
  shows "dlist w (Head i j) (S i j)" "distinct (S i j)" "t \<in> set (S i j) \<Longrightarrow> is_timer t"
    "t \<in> set (S i j) \<Longrightarrow> t \<in> set (S i' j') \<Longrightarrow> i = i' \<and> j = j'"
    "(\<And>i j. n \<notin> set (S i j)) \<Longrightarrow> prv w n = None"
  using assms unfolding wheel_ok_def by blast+

lemma wheel_okI:
  assumes "\<And>i j. dlist w (Head i j) (S i j)" "\<And>i j. distinct (S i j)"
    and "\<And>i j t. t \<in> set (S i j) \<Longrightarrow> is_timer t"
    and "\<And>i j i' j' t. t \<in> set (S i j) \<Longrightarrow> t \<in> set (S i' j') \<Longrightarrow> i = i' \<and> j = j'"
    and "\<And>n. (\<And>i j. n \<notin> set (S i j)) \<Longrightarrow> prv w n = None"
  shows "wheel_ok w S"
  using assms unfolding wheel_ok_def by blast

lemma is_timer_Head [simp]: "\<not> is_timer (Head i j)"
  by (simp add: is_timer_def)

lemma head_distinct: "wheel_ok w S \<Longrightarrow> distinct (Head i j # S i j)"
  using wheel_okD(2,3) [of w S] by (metis distinct.simps(2) is_timer_Head)

lemma slots_del_absent: "\<forall>i j. t \<notin> set (S i j) \<Longrightarrow> slots_del S t = S"
  by (simp add: slots_del_def fun_eq_iff remove1_idem)

lemma DelTimer_ok:
  assumes ok: "wheel_ok w S" and t: "is_timer t"
  shows "wheel_ok (DelTimer w t) (slots_del S t)"
proof (cases "\<forall>i j. t \<notin> set (S i j)")
  case True
  then have p: "prv w t = None" using wheel_okD(5) [OF ok] by blast
  have "dlist (DelTimer w t) (Head i j) (S i j)" for i j
  proof (subst dlist_cong [of _ _ w])
    show "nxt (DelTimer w t) (Head i j) = nxt w (Head i j)" using t p by (intro DelTimer_nxt) auto
    show "nxt (DelTimer w t) x = nxt w x \<and> prv (DelTimer w t) x = prv w x" if "x \<in> set (S i j)" for x
      using that True p by (auto simp: DelTimer_def)
    show "dlist w (Head i j) (S i j)" by (rule wheel_okD(1) [OF ok])
  qed
  moreover have "prv (DelTimer w t) n = prv w n" for n using p by (simp add: DelTimer_def)
  ultimately show ?thesis
    unfolding slots_del_absent [OF True] using wheel_okD [OF ok] by (intro wheel_okI) auto
next
  case False
  then obtain i j where ij: "t \<in> set (S i j)" by blast
  then obtain xs ys where s: "S i j = xs @ t # ys" by (meson split_list)
  have d: "dlist w (Head i j) (xs @ t # ys)" "distinct (Head i j # xs @ t # ys)"
    using wheel_okD(1) [OF ok, of i j] head_distinct [OF ok, of i j] s by simp_all
  obtain q where q: "q \<in> insert (Head i j) (set (S i j))" "prv w t = Some q"
    using dlist_prv [OF d(1), of t] s by auto
  have n: "nxt w t = Some x \<Longrightarrow> x \<in> set (S i j)" for x
    using dlist_nxt [OF d(1), of t x] s by auto
  have "remove1 t (S i' j') = S i' j'" if "\<not> (i' = i \<and> j' = j)" for i' j'
    using wheel_okD(4) [OF ok ij, of i' j'] that by (intro remove1_idem) auto
  then have S': "slots_del S t = slots_set S i j (xs @ ys)"
    using d(2) s by (auto simp: slots_del_def slots_set_def fun_eq_iff remove1_append)
  have "dlist (DelTimer w t) (Head i' j') (S i' j')" if "(i', j') \<noteq> (i, j)" for i' j'
  proof (subst dlist_cong [of _ _ w])
    have out: "x \<notin> insert (Head i j) (set (S i j))" if "x \<in> insert (Head i' j') (set (S i' j'))" for x
      using that \<open>(i', j') \<noteq> (i, j)\<close> wheel_okD(3,4) [OF ok] by (metis insertE is_timer_Head node.inject(1) prod.inject)
    show "nxt (DelTimer w t) (Head i' j') = nxt w (Head i' j')"
      using out [of "Head i' j'"] q t by (intro DelTimer_nxt) auto
    show "nxt (DelTimer w t) x = nxt w x \<and> prv (DelTimer w t) x = prv w x" if "x \<in> set (S i' j')" for x
      using out [of x] that q n ij by (intro conjI DelTimer_nxt DelTimer_prv) auto
    show "dlist w (Head i' j') (S i' j')" by (rule wheel_okD(1) [OF ok])
  qed
  moreover have "dlist (DelTimer w t) (Head i j) (xs @ ys)" using d by (rule dlist_remove)
  moreover have "prv (DelTimer w t) x = None" if "\<And>i' j'. x \<notin> set (slots_set S i j (xs @ ys) i' j')" for x
  proof (cases "x = t")
    case False
    have "x \<notin> set (S i' j')" for i' j'
      using that [of i' j'] False s by (cases "i' = i \<and> j' = j") (auto simp: slots_set_def)
    then have "prv w x = None" and "nxt w t \<noteq> Some x" using wheel_okD(5) [OF ok] n by blast+
    then show ?thesis using False by (simp add: DelTimer_prv)
  qed simp
  ultimately show ?thesis unfolding S'
  proof (intro wheel_okI)
    have sub: "set (slots_set S i j (xs @ ys) i' j') \<subseteq> set (S i' j')" for i' j'
      using s by (auto simp: slots_set_def)
    fix i' j' i'' j'' t'
    show "distinct (slots_set S i j (xs @ ys) i' j')"
      using d(2) wheel_okD(2) [OF ok] by (auto simp: slots_set_def)
    assume t': "t' \<in> set (slots_set S i j (xs @ ys) i' j')"
    then show "is_timer t'" using sub wheel_okD(3) [OF ok] by blast
    assume "t' \<in> set (slots_set S i j (xs @ ys) i'' j'')"
    then show "i' = i'' \<and> j' = j''" using t' sub wheel_okD(4) [OF ok] by blast
  qed (auto simp: slots_set_def)
qed

subsection \<open>Starting a timer\<close>

lemma FindHead_cong: "last_ms w = last_ms w' \<Longrightarrow> expiration w t = expiration w' t \<Longrightarrow> FindHead w t = FindHead w' t"
  by (simp add: FindHead_def)

lemma FindHead_is_head: "FindHead w t = Some h \<Longrightarrow> \<exists>i j. h = Head i j \<and> i < 4 \<and> j < 256"
proof -
  assume h: "FindHead w t = Some h"
  have "i \<in> set is" if "find_wheel d is = Some i" for i d "is"
    using that by (induction "is") (auto split: if_splits)
  moreover have "CalcTime ms i < 256" for ms i by (simp add: CalcTime_def nat_less_iff)
  ultimately show ?thesis using h
    by (fastforce simp: FindHead_def Let_def kWheelNum_def split: if_splits option.splits)
qed

text \<open>Linking a timer that is in no list behind a head.\<close>

definition link :: "TimeWheel \<Rightarrow> node \<Rightarrow> node \<Rightarrow> TimeWheel" where
  "link w head timer =
     (case nxt w head of
        Some n \<Rightarrow> w\<lparr>nxt := (nxt w)(timer := Some n, head := Some timer),
                    prv := (prv w)(n := Some timer, timer := Some head)\<rparr>
      | None \<Rightarrow> w\<lparr>nxt := (nxt w)(timer := None, head := Some timer), prv := (prv w)(timer := Some head)\<rparr>)"

lemma link_fields [simp]: "last_ms (link w h t) = last_ms w" "expiration (link w h t) = expiration w"
  by (simp_all add: link_def split: option.splits)

lemma AddTimer_link:
  "AddTimer w t = (case FindHead w t of None \<Rightarrow> DelTimer w t | Some h \<Rightarrow> link (DelTimer w t) h t)"
  unfolding AddTimer_def Let_def link_def
  by (subst FindHead_cong [of "DelTimer w t" w]) (simp_all split: option.splits)

lemma link_ok:
  assumes ok: "wheel_ok w S" and t: "is_timer t" and out: "\<And>i j. t \<notin> set (S i j)"
  shows "wheel_ok (link w (Head i j) t) (slots_set S i j (t # S i j))"
proof (rule wheel_okI)
  let ?w = "link w (Head i j) t" and ?S = "slots_set S i j (t # S i j)"
  have n: "nxt w (Head i j) = Some x \<Longrightarrow> x \<in> set (S i j)" for x
    using dlist_nxt [OF wheel_okD(1) [OF ok, of i j], of "Head i j" x] by auto
  have nx: "nxt ?w x = nxt w x" if "x \<noteq> t" "x \<noteq> Head i j" for x
    using that by (simp add: link_def split: option.splits)
  have pv: "prv ?w x = prv w x" if "x \<noteq> t" "nxt w (Head i j) \<noteq> Some x" for x
    using that by (simp add: link_def split: option.splits)
  fix i' j'
  show "dlist ?w (Head i' j') (?S i' j')"
  proof (cases "i' = i \<and> j' = j")
    case True
    have d: "dlist w (Head i j) (S i j)" and ds: "distinct (Head i j # S i j)"
      using wheel_okD(1) [OF ok] head_distinct [OF ok] by blast+
    have "dlist ?w t (S i j)"
    proof (cases "S i j")
      case Nil
      then show ?thesis using d t by (auto simp: link_def)
    next
      case (Cons y ys)
      have "dlist ?w y ys"
      proof (subst dlist_cong [of _ _ w])
        have "t \<noteq> y" "y \<noteq> Head i j" using out [of i j] ds Cons by auto
        then show "nxt ?w y = nxt w y" by (intro nx) auto
        show "nxt ?w x = nxt w x \<and> prv ?w x = prv w x" if "x \<in> set ys" for x
          using that out [of i j] ds d Cons by (intro conjI nx pv) auto
        show "dlist w y ys" using d Cons by simp
      qed
      then show ?thesis using d ds t out [of i j] Cons by (auto simp: link_def)
    qed
    moreover have "nxt ?w (Head i j) = Some t" "prv ?w t = Some (Head i j)"
      using t n out by (auto simp: link_def split: option.splits)
    ultimately show ?thesis using True by (simp add: slots_set_def)
  next
    case False
    have "dlist ?w (Head i' j') (S i' j')"
    proof (subst dlist_cong [of _ _ w])
      show "nxt ?w (Head i' j') = nxt w (Head i' j')" using False t by (intro nx) auto
      show "nxt ?w x = nxt w x \<and> prv ?w x = prv w x" if x: "x \<in> set (S i' j')" for x
      proof (intro conjI nx pv)
        show "x \<noteq> t" using x out by auto
        then show "x \<noteq> t" .
        show "x \<noteq> Head i j" using x wheel_okD(3) [OF ok] is_timer_Head by metis
        show "nxt w (Head i j) \<noteq> Some x" using x n wheel_okD(4) [OF ok] False by blast
      qed
      show "dlist w (Head i' j') (S i' j')" by (rule wheel_okD(1) [OF ok])
    qed
    then show ?thesis using False by (auto simp: slots_set_def)
  qed
next
  fix x assume x: "\<And>i' j'. x \<notin> set (slots_set S i j (t # S i j) i' j')"
  then have "x \<noteq> t" using x [of i j] by (auto simp: slots_set_def)
  moreover have "x \<notin> set (S i' j')" for i' j' using x [of i' j'] by (auto simp: slots_set_def split: if_splits)
  then have "prv w x = None" "nxt w (Head i j) \<noteq> Some x"
    using wheel_okD(5) [OF ok] dlist_nxt [OF wheel_okD(1) [OF ok, of i j], of "Head i j" x] by blast+
  ultimately show "prv (link w (Head i j) t) x = None" by (auto simp: link_def split: option.splits)
next
  fix i' j' i'' j'' t' assume t': "t' \<in> set (slots_set S i j (t # S i j) i' j')"
  show "is_timer t'" using t' t wheel_okD(3) [OF ok] by (auto simp: slots_set_def split: if_splits)
  assume "t' \<in> set (slots_set S i j (t # S i j) i'' j'')"
  with t' show "i' = i'' \<and> j' = j''"
    using out wheel_okD(4) [OF ok] by (auto simp: slots_set_def split: if_splits)
next
  fix i' j' show "distinct (slots_set S i j (t # S i j) i' j')"
    using out wheel_okD(2) [OF ok] by (simp add: slots_set_def)
qed

lemma slots_del_out: "wheel_ok w S \<Longrightarrow> t \<notin> set (slots_del S t i j)"
  using wheel_okD(2) [of w S i j] by (simp add: slots_del_def)

lemma AddTimer_ok:
  assumes "wheel_ok w S" "is_timer t"
  shows "wheel_ok (AddTimer w t) (slots_add S (FindHead w t) t)"
proof -
  have d: "wheel_ok (DelTimer w t) (slots_del S t)" using DelTimer_ok [OF assms] .
  show ?thesis
  proof (cases "FindHead w t")
    case None
    then show ?thesis using d by (simp add: AddTimer_link slots_add_def)
  next
    case (Some h)
    then obtain i j where h: "h = Head i j" using FindHead_is_head by blast
    show ?thesis
      using link_ok [OF d assms(2) slots_del_out [OF assms(1)]] by (simp add: AddTimer_link Some h slots_add_def Let_def)
  qed
qed

subsection \<open>Moving a list\<close>

lemma find_tail_last: "dlist w h xs \<Longrightarrow> length xs < fuel \<Longrightarrow> find_tail fuel w h = Inr (last (h # xs))"
proof (induction xs arbitrary: h fuel)
  case (Cons x xs)
  then show ?case by (cases fuel) auto
qed (auto simp: gr0_conv_Suc)

lemma find_tail_sound: "find_tail fuel w h = Inr x \<Longrightarrow> dlist w h xs \<Longrightarrow> x = last (h # xs)"
proof (induction fuel arbitrary: h xs)
  case (Suc fuel)
  then show ?case by (cases xs) auto
qed simp

lemma dlist_join:
  assumes "dlist w t ts" "w' = w\<lparr>nxt := (nxt w)(tail := Some t), prv := (prv w)(t := Some tail)\<rparr>"
  shows "dlist w h xs \<Longrightarrow> distinct (h # xs @ t # ts) \<Longrightarrow> tail = last (h # xs) \<Longrightarrow> dlist w' h (xs @ t # ts)"
proof (induction xs arbitrary: h)
  case Nil
  have "dlist w' t ts"
    using assms(1) Nil by (subst dlist_cong [of _ _ w]) (auto simp: assms(2))
  then show ?case using Nil by (simp add: assms(2))
next
  case (Cons x xs)
  have "tail \<in> set (x # xs)" using Cons.prems(3) by (metis last.simps last_in_set list.simps(3))
  then have "h \<noteq> tail" using Cons.prems(2) by auto
  then show ?case using Cons by (auto simp: assms(2))
qed

lemma unlinked:
  assumes ok: "wheel_ok w S"
  shows "dlist (w\<lparr>nxt := (nxt w)(Head i j := None)\<rparr>) (Head a b) (slots_set S i j [] a b)"
proof (cases "a = i \<and> b = j")
  case False
  have "Head i j \<notin> set (S a b)" using wheel_okD(3) [OF ok] is_timer_Head by metis
  then have "dlist (w\<lparr>nxt := (nxt w)(Head i j := None)\<rparr>) (Head a b) (S a b) = dlist w (Head a b) (S a b)"
    using False by (intro dlist_cong) auto
  then show ?thesis using wheel_okD(1) [OF ok, of a b] False by (auto simp: slots_set_def)
qed (simp add: slots_set_def)

lemma MoveTimerList_returns:
  assumes ok: "wheel_ok w S" and "S i j = t # ts" "FindHead w t = Some (Head a b)" "length (S a b) < fuel"
  shows "\<exists>w'. MoveTimerList fuel w (Head i j) = Inr w'"
proof -
  let ?w0 = "w\<lparr>nxt := (nxt w)(Head i j := None)\<rparr>"
  have "length (slots_set S i j [] a b) < fuel" using assms(4) by (auto simp: slots_set_def)
  from find_tail_last [OF unlinked [OF ok] this]
  have "find_tail fuel ?w0 (Head a b) = Inr (last (Head a b # slots_set S i j [] a b))" .
  moreover have "nxt w (Head i j) = Some t" using wheel_okD(1) [OF ok, of i j] assms(2) by simp
  moreover have "FindHead ?w0 t = Some (Head a b)" using assms(3) by (simp add: FindHead_def)
  ultimately show ?thesis by (simp add: MoveTimerList_def Let_def)
qed

lemma MoveTimerList_cases:
  assumes ok: "wheel_ok w S" and r: "MoveTimerList fuel w (Head i j) = Inr w'"
  shows "S i j = [] \<and> w' = w \<or>
    (\<exists>t ts i' j'. S i j = t # ts \<and> FindHead w t = Some (Head i' j') \<and>
       last_ms w' = last_ms w \<and> expiration w' = expiration w \<and>
       (let S0 = slots_set S i j [] in wheel_ok w' (slots_set S0 i' j' (S0 i' j' @ t # ts))))"
proof (cases "S i j")
  case Nil
  then show ?thesis using wheel_okD(1) [OF ok, of i j] r by (simp add: MoveTimerList_def)
next
  case (Cons t ts)
  let ?w0 = "w\<lparr>nxt := (nxt w)(Head i j := None)\<rparr>" and ?S0 = "slots_set S i j []"
  have d: "dlist w (Head i j) (t # ts)" and ds: "distinct (Head i j # t # ts)"
    using wheel_okD(1) [OF ok, of i j] head_distinct [OF ok, of i j] Cons by simp_all
  have f0: "FindHead ?w0 t = FindHead w t" by (simp add: FindHead_def)
  from r d obtain h tl where h: "FindHead w t = Some h" "find_tail fuel ?w0 h = Inr tl"
      "w' = ?w0\<lparr>nxt := (nxt ?w0)(tl := Some t), prv := (prv ?w0)(t := Some tl)\<rparr>"
    by (auto simp: MoveTimerList_def f0 Let_def fbind_Inr_iff split: option.splits)
  obtain i' j' where hd: "h = Head i' j'" using FindHead_is_head h(1) by blast
  have d0: "dlist ?w0 (Head a b) (?S0 a b)" for a b by (rule unlinked [OF ok])
  have dt: "dlist ?w0 t ts" using d ds by (subst dlist_cong [of _ _ w]) auto
  let ?xs = "?S0 i' j'"
  have tl: "tl = last (Head i' j' # ?xs)" using find_tail_sound [OF h(2) [unfolded hd] d0] .
  have dis: "distinct (Head i' j' # ?xs @ t # ts)"
  proof (cases "i' = i \<and> j' = j")
    case False
    then have "set (S i' j') \<inter> set (t # ts) = {}" using wheel_okD(4) [OF ok] Cons by (metis disjoint_iff)
    moreover have "Head i' j' \<notin> set (t # ts)" using wheel_okD(3) [OF ok, of _ i j] Cons is_timer_Head by metis
    ultimately show ?thesis using head_distinct [OF ok, of i' j'] ds False by (auto simp: slots_set_def)
  qed (use ds in \<open>simp add: slots_set_def\<close>)
  have j1: "dlist w' (Head i' j') (?xs @ t # ts)"
    using dlist_join [OF dt h(3) d0 dis tl] .
  let ?S' = "slots_set ?S0 i' j' (?xs @ t # ts)"
  have elems: "set (?S' a b) \<subseteq> set (S a b) \<union> (if a = i' \<and> b = j' then set (t # ts) else {})"
      "x \<in> set (?S' a b) \<Longrightarrow> x \<in> set (t # ts) \<Longrightarrow> a = i' \<and> b = j'" for a b x
    using wheel_okD(4) [OF ok, of x i j] Cons by (auto simp: slots_set_def split: if_splits)
  have "wheel_ok w' ?S'"
  proof (rule wheel_okI)
    fix a b
    show "dlist w' (Head a b) (?S' a b)"
    proof (cases "a = i' \<and> b = j'")
      case False
      have "tl \<notin> insert (Head a b) (set (?S0 a b))" "t \<notin> set (?S0 a b)"
      proof -
        have "tl \<in> insert (Head i' j') (set ?xs)" using tl by auto
        moreover have "Head i' j' \<notin> set (?S0 a b)" "Head a b \<notin> set ?xs"
          using wheel_okD(3) [OF ok] is_timer_Head by (metis empty_iff list.set(1) slots_set_def)+
        moreover have "set ?xs \<inter> set (?S0 a b) = {}"
          using wheel_okD(4) [OF ok] False by (auto simp: slots_set_def)
        ultimately show "tl \<notin> insert (Head a b) (set (?S0 a b))" using False by auto
        show "t \<notin> set (?S0 a b)" using wheel_okD(4) [OF ok, of t i j] Cons by (auto simp: slots_set_def)
      qed
      then have "dlist w' (Head a b) (?S0 a b) = dlist ?w0 (Head a b) (?S0 a b)"
        by (intro dlist_cong) (auto simp: h(3))
      then show ?thesis using d0 [of a b] False by (auto simp: slots_set_def)
    qed (use j1 in \<open>simp add: slots_set_def\<close>)
    show "distinct (?S' a b)" using dis wheel_okD(2) [OF ok] by (auto simp: slots_set_def)
  next
    fix a b a' b' x assume x: "x \<in> set (?S' a b)"
    then have "x \<in> set (S a b) \<union> set (S i j)" using elems(1) [of a b] Cons by (auto split: if_splits)
    then show "is_timer x" using wheel_okD(3) [OF ok] by blast
    assume x': "x \<in> set (?S' a' b')"
    show "a = a' \<and> b = b'"
    proof (cases "x \<in> set (t # ts)")
      case False
      then have "x \<in> set (S a b)" "x \<in> set (S a' b')" using x x' elems(1) [of a b] elems(1) [of a' b'] by (auto split: if_splits)
      then show ?thesis using wheel_okD(4) [OF ok] by blast
    qed (use elems(2) [OF x] elems(2) [OF x'] in auto)
  next
    fix x assume o: "\<And>a b. x \<notin> set (?S' a b)"
    have "x \<notin> set (S a b)" for a b
      using o [of a b] o [of i' j'] Cons by (auto simp: slots_set_def split: if_splits)
    then have "prv w x = None" using wheel_okD(5) [OF ok] by blast
    moreover have "x \<noteq> t" using o [of i' j'] by (auto simp: slots_set_def)
    ultimately show "prv w' x = None" by (simp add: h(3))
  qed
  then show ?thesis using Cons h hd by (auto simp: Let_def)
qed

subsection \<open>Timers of the first wheel\<close>

text \<open>A callback that records the timer and the time of the wheel and does not restart it.\<close>

definition record_cb :: "(node \<times> int) list callback" where
  "record_cb t e w = Inr (0, e @ [(t, last_ms w)], w)"

lemma slots_del_first:
  assumes "wheel_ok w S" "S i j = t # ts"
  shows "slots_del S t = slots_set S i j ts"
proof -
  have "remove1 t (S i' j') = S i' j'" if "\<not> (i' = i \<and> j' = j)" for i' j'
    using wheel_okD(4) [OF assms(1), of t i j i' j'] assms(2) that by (intro remove1_idem) auto
  then show ?thesis using assms(2) by (auto simp: slots_del_def slots_set_def fun_eq_iff)
qed

lemma fire_records:
  assumes "wheel_ok w S" "length (S i j) < fuel"
  shows "\<exists>w'. fire fuel record_cb e w (Head i j) = Inr (e @ map (\<lambda>t. (t, last_ms w)) (S i j), w') \<and>
    wheel_ok w' (slots_set S i j []) \<and> last_ms w' = last_ms w \<and> expiration w' = expiration w"
  using assms
proof (induction "S i j" arbitrary: fuel S w e)
  case Nil
  then have "nxt w (Head i j) = None" using wheel_okD(1) [OF Nil.prems(1), of i j] by simp
  moreover have "slots_set S i j [] = S" using Nil.hyps by (auto simp: slots_set_def fun_eq_iff)
  moreover obtain k where "fuel = Suc k" using Nil.prems(2) by (cases fuel) auto
  ultimately show ?case using Nil by auto
next
  case (Cons t ts)
  obtain k where k: "fuel = Suc k" using Cons.prems(2) by (cases fuel) auto
  have n: "nxt w (Head i j) = Some t" using wheel_okD(1) [OF Cons.prems(1), of i j] Cons.hyps(2) by (metis dlist.simps(2))
  have "is_timer t" using wheel_okD(3) [OF Cons.prems(1), of t i j] Cons.hyps(2) by (metis list.set_intros(1))
  then have ok: "wheel_ok (DelTimer w t) (slots_set S i j ts)"
    using DelTimer_ok [OF Cons.prems(1), of t] slots_del_first [OF Cons.prems(1) Cons.hyps(2) [symmetric]] by metis
  obtain w' where w': "fire k record_cb (e @ [(t, last_ms w)]) (DelTimer w t) (Head i j) =
      Inr ((e @ [(t, last_ms w)]) @ map (\<lambda>t. (t, last_ms w)) ts, w')"
      "wheel_ok w' (slots_set (slots_set S i j ts) i j [])" "last_ms w' = last_ms w" "expiration w' = expiration w"
  proof -
    have "ts = slots_set S i j ts i j" by (simp add: slots_set_def)
    moreover have "length (slots_set S i j ts i j) < k"
      using Cons.prems(2) k Cons.hyps(2) [symmetric] by (simp add: slots_set_def)
    ultimately show thesis
      using Cons.hyps(1) [of "slots_set S i j ts" "DelTimer w t" k "e @ [(t, last_ms w)]"] ok that by fastforce
  qed
  have "slots_set (slots_set S i j ts) i j [] = slots_set S i j []" by (simp add: slots_set_def fun_eq_iff)
  then show ?case
    using w' n k Cons.hyps(2) [symmetric] by (simp add: Timer_Run_def record_cb_def)
qed

text \<open>Only the first wheel is used, every timer is in the slot of its expiration, and that lies in the next 255 ticks.\<close>

definition exp_ms :: "TimeWheel \<Rightarrow> node \<Rightarrow> int" where
  "exp_ms w t = stamp_ms (expiration w t)"

definition short_ok :: "nat \<Rightarrow> TimeWheel \<Rightarrow> slots \<Rightarrow> bool" where
  "short_ok fuel w S \<longleftrightarrow> wheel_ok w S \<and> (\<forall>i j. i \<noteq> 0 \<longrightarrow> S i j = []) \<and>
     (\<forall>j. length (S 0 j) < fuel \<and>
        (\<forall>t \<in> set (S 0 j). j = CalcTime (exp_ms w t) 0 \<and> last_ms w < exp_ms w t \<and> exp_ms w t < last_ms w + 256))"

lemma MoveTimerList_empty: "wheel_ok w S \<Longrightarrow> S i j = [] \<Longrightarrow> MoveTimerList fuel w (Head i j) = Inr w"
  using wheel_okD(1) [of w S i j] by (simp add: MoveTimerList_def)

lemma wheel_ok_last_ms: "wheel_ok (w\<lparr>last_ms := n\<rparr>) S \<longleftrightarrow> wheel_ok w S"
proof -
  have "dlist (w\<lparr>last_ms := n\<rparr>) p xs = dlist w p xs" for p xs by (rule dlist_cong) simp_all
  then show ?thesis by (simp add: wheel_ok_def)
qed

lemma CalcTime_slot0: "CalcTime ms 0 = nat (ms mod 256)"
  by (simp add: CalcTime_def)

lemma same_slot:
  assumes "l < a" "a < l + 256" "a mod 256 = (l + 1) mod (256 :: int)"
  shows "a = l + 1"
proof -
  have "(a - (l + 1)) mod 256 = 0" using assms(3) by (simp add: mod_diff_eq [symmetric])
  moreover have "0 \<le> a - (l + 1)" "a - (l + 1) < 256" using assms by simp_all
  ultimately show ?thesis by simp
qed

lemma tick_short:
  assumes ok: "short_ok fuel w S"
  shows "\<exists>w' j. tick fuel record_cb e w = Inr (e @ map (\<lambda>t. (t, last_ms w + 1)) (S 0 j), w') \<and>
    last_ms w' = last_ms w + 1 \<and> expiration w' = expiration w \<and> short_ok fuel w' (slots_set S 0 j []) \<and>
    (\<forall>t \<in> set (S 0 j). exp_ms w t = last_ms w + 1) \<and>
    (\<forall>j'. j' \<noteq> j \<longrightarrow> (\<forall>t \<in> set (S 0 j'). exp_ms w t \<noteq> last_ms w + 1))"
proof -
  let ?w = "w\<lparr>last_ms := last_ms w + 1\<rparr>"
  define j where "j = CalcTime (last_ms w + 1) 0"
  have w: "wheel_ok ?w S" using ok by (simp add: short_ok_def wheel_ok_last_ms)
  have "cascade fuel ?w js = Inr ?w" if "0 \<notin> set js" for js
    using that ok by (induction js) (auto simp: short_ok_def Let_def MoveTimerList_empty [OF w])
  then have c: "(if j = 0 then cascade fuel ?w [1..<kWheelNum] else Inr ?w) = Inr ?w" by simp
  obtain w' where w': "fire fuel record_cb e ?w (Head 0 j) = Inr (e @ map (\<lambda>t. (t, last_ms w + 1)) (S 0 j), w')"
      "wheel_ok w' (slots_set S 0 j [])" "last_ms w' = last_ms w + 1" "expiration w' = expiration w"
    using fire_records [OF w, of 0 j fuel e] ok by (auto simp: short_ok_def)
  have here: "exp_ms w t = last_ms w + 1 \<longleftrightarrow> j' = j" if "t \<in> set (S 0 j')" for t j'
  proof -
    have t: "j' = CalcTime (exp_ms w t) 0" "last_ms w < exp_ms w t" "exp_ms w t < last_ms w + 256"
      using ok that by (auto simp: short_ok_def)
    show ?thesis
    proof
      assume "j' = j"
      then have "exp_ms w t mod 256 = (last_ms w + 1) mod 256"
        using t(1) unfolding j_def CalcTime_slot0 by (simp add: eq_nat_nat_iff)
      then show "exp_ms w t = last_ms w + 1" using t by (intro same_slot)
    qed (use t(1) in \<open>simp add: j_def\<close>)
  qed
  have "short_ok fuel w' (slots_set S 0 j [])"
    unfolding short_ok_def
  proof (intro conjI allI impI ballI)
    fix j' t assume t: "t \<in> set (slots_set S 0 j [] 0 j')"
    then have t': "t \<in> set (S 0 j')" "j' \<noteq> j" by (auto simp: slots_set_def split: if_splits)
    then have "j' = CalcTime (exp_ms w t) 0" "last_ms w < exp_ms w t" "exp_ms w t < last_ms w + 256"
      using ok by (auto simp: short_ok_def)
    then show "j' = CalcTime (exp_ms w' t) 0" "last_ms w' < exp_ms w' t" "exp_ms w' t < last_ms w' + 256"
      using here [OF t'(1)] t'(2) w'(3,4) by (simp_all add: exp_ms_def)
  qed (use ok w'(2) in \<open>auto simp: short_ok_def slots_set_def\<close>)
  then show ?thesis
    using c w' here by (intro exI [of _ w'] exI [of _ j]) (auto simp: tick_def Let_def j_def)
qed

text \<open>What has fired after a number of ticks.\<close>

lemma ticks_short:
  assumes "short_ok fuel w S"
  shows "\<exists>tr w'. ticks fuel n record_cb e w = Inr (e @ tr, w') \<and> sorted (map snd tr) \<and>
    (\<forall>t x. (t, x) \<in> set tr \<longleftrightarrow> (\<exists>j. t \<in> set (S 0 j)) \<and> x = exp_ms w t \<and> x \<le> last_ms w + int n)"
  using assms
proof (induction n arbitrary: w S e)
  case 0
  then have "\<not> (t \<in> set (S 0 j) \<and> exp_ms w t \<le> last_ms w)" for t j by (fastforce simp: short_ok_def)
  then show ?case by auto
next
  case (Suc n)
  obtain w1 j where w1: "tick fuel record_cb e w = Inr (e @ map (\<lambda>t. (t, last_ms w + 1)) (S 0 j), w1)"
      "last_ms w1 = last_ms w + 1" "expiration w1 = expiration w" "short_ok fuel w1 (slots_set S 0 j [])"
      "\<forall>t \<in> set (S 0 j). exp_ms w t = last_ms w + 1"
      "\<forall>j'. j' \<noteq> j \<longrightarrow> (\<forall>t \<in> set (S 0 j'). exp_ms w t \<noteq> last_ms w + 1)"
    using tick_short [OF Suc.prems, of e] by blast
  let ?tr = "map (\<lambda>t. (t, last_ms w + 1)) (S 0 j)"
  obtain tr w2 where tr: "ticks fuel n record_cb (e @ ?tr) w1 = Inr ((e @ ?tr) @ tr, w2)" "sorted (map snd tr)"
      "\<forall>t x. (t, x) \<in> set tr \<longleftrightarrow> (\<exists>j'. t \<in> set (slots_set S 0 j [] 0 j')) \<and> x = exp_ms w1 t \<and> x \<le> last_ms w1 + int n"
    using Suc.IH [OF w1(4), of "e @ ?tr"] by blast
  have e1: "exp_ms w1 t = exp_ms w t" for t using w1(3) by (simp add: exp_ms_def)
  have later: "last_ms w + 1 \<le> x" if "(t, x) \<in> set tr" for t x
  proof -
    have "\<exists>j'. t \<in> set (S 0 j')" "x = exp_ms w t"
      using that tr(3) e1 by (auto simp: slots_set_def split: if_splits)
    then show ?thesis using Suc.prems by (fastforce simp: short_ok_def)
  qed
  have "(t, x) \<in> set (?tr @ tr) \<longleftrightarrow> (\<exists>j. t \<in> set (S 0 j)) \<and> x = exp_ms w t \<and> x \<le> last_ms w + int (Suc n)" for t x
  proof -
    have "(t, x) \<in> set tr \<longleftrightarrow> (\<exists>j'. j' \<noteq> j \<and> t \<in> set (S 0 j')) \<and> x = exp_ms w t \<and> x \<le> last_ms w + 1 + int n"
      using tr(3) e1 w1(2) by (auto simp: slots_set_def split: if_splits)
    moreover have "(t, x) \<in> set ?tr \<longleftrightarrow> t \<in> set (S 0 j) \<and> x = exp_ms w t" using w1(5) by auto
    ultimately show ?thesis using w1(5) by auto
  qed
  moreover have "sorted (map snd (?tr @ tr))"
    using tr(2) later by (auto simp: sorted_append comp_def map_replicate_const)
  ultimately show ?case using w1(1) tr(1) by (intro exI [of _ "?tr @ tr"] exI [of _ w2]) auto
qed

subsection \<open>Timers the cascade never reaches\<close>

text \<open>The callbacks run meanwhile may do anything that leaves timer \<open>t\<close> in its slot.\<close>

definition in_slot :: "TimeWheel \<Rightarrow> nat \<Rightarrow> nat \<Rightarrow> node \<Rightarrow> bool" where
  "in_slot w i j t \<longleftrightarrow> (\<exists>S. wheel_ok w S \<and> t \<in> set (S i j))"

definition leaves_alone :: "'e callback \<Rightarrow> nat \<Rightarrow> nat \<Rightarrow> node \<Rightarrow> bool" where
  "leaves_alone cb i j t \<longleftrightarrow>
     (\<forall>u e w r e' w'. u \<noteq> t \<longrightarrow> in_slot w i j t \<longrightarrow> cb u e w = Inr (r, e', w') \<longrightarrow> in_slot w' i j t)"

lemma wheel_ok_expiration: "wheel_ok (w\<lparr>expiration := x\<rparr>) S \<longleftrightarrow> wheel_ok w S"
proof -
  have "dlist (w\<lparr>expiration := x\<rparr>) p xs = dlist w p xs" for p xs by (rule dlist_cong) simp_all
  then show ?thesis by (simp add: wheel_ok_def)
qed

lemma in_slot_simps [simp]:
  "in_slot (w\<lparr>last_ms := n\<rparr>) i j t = in_slot w i j t" "in_slot (w\<lparr>expiration := x\<rparr>) i j t = in_slot w i j t"
  by (simp_all add: in_slot_def wheel_ok_last_ms wheel_ok_expiration)

lemma in_slot_Del: "in_slot w i j t \<Longrightarrow> is_timer u \<Longrightarrow> u \<noteq> t \<Longrightarrow> in_slot (DelTimer w u) i j t"
  unfolding in_slot_def using DelTimer_ok by (fastforce simp: slots_del_def)

lemma in_slot_Add: "in_slot w i j t \<Longrightarrow> is_timer u \<Longrightarrow> u \<noteq> t \<Longrightarrow> in_slot (AddTimer w u) i j t"
proof -
  assume a: "in_slot w i j t" "is_timer u" "u \<noteq> t"
  obtain S where S: "wheel_ok w S" "t \<in> set (S i j)" using a(1) by (auto simp: in_slot_def)
  have "t \<in> set (slots_add S (FindHead w u) u i j)"
    using S(2) a(3) by (auto simp: slots_add_def slots_del_def slots_set_def Let_def split: option.splits node.splits)
  then show ?thesis using AddTimer_ok [OF S(1) a(2)] by (auto simp: in_slot_def)
qed

lemma in_slot_Move:
  assumes "in_slot w i j t" "MoveTimerList fuel w (Head i' j') = Inr w'" "(i', j') \<noteq> (i, j)"
  shows "in_slot w' i j t" "last_ms w' = last_ms w"
proof -
  obtain S where S: "wheel_ok w S" "t \<in> set (S i j)" using assms(1) by (auto simp: in_slot_def)
  from MoveTimerList_cases [OF S(1) assms(2)] consider "w' = w"
    | S0 S' a b xs where "S0 = slots_set S i' j' []" "S' = slots_set S0 a b (S0 a b @ xs)" "wheel_ok w' S'" "last_ms w' = last_ms w"
    by (auto simp: Let_def)
  then have "in_slot w' i j t \<and> last_ms w' = last_ms w"
  proof cases
    case 2
    then have "t \<in> set (S' i j)" using S(2) assms(3) by (auto simp: slots_set_def)
    with 2 show ?thesis by (auto simp: in_slot_def)
  qed (use assms(1) in auto)
  then show "in_slot w' i j t" "last_ms w' = last_ms w" by simp_all
qed

lemma in_slot_fire:
  assumes "leaves_alone cb i j t" "0 < i"
  shows "in_slot w i j t \<Longrightarrow> fire fuel cb e w (Head 0 k) = Inr (e', w') \<Longrightarrow> in_slot w' i j t"
proof (induction fuel arbitrary: e w)
  case (Suc fuel)
  obtain S where S: "wheel_ok w S" "t \<in> set (S i j)" using Suc.prems(1) by (auto simp: in_slot_def)
  show ?case
  proof (cases "nxt w (Head 0 k)")
    case None
    then show ?thesis using Suc.prems by simp
  next
    case (Some u)
    then have "u \<in> set (S 0 k)" using dlist_nxt [OF wheel_okD(1) [OF S(1)]] by blast
    then have u: "is_timer u" "u \<noteq> t" using wheel_okD(3,4) [OF S(1)] S(2) assms(2) by blast+
    obtain r e1 w1 where c: "cb u e (DelTimer w u) = Inr (r, e1, w1)"
      using Suc.prems(2) Some by (auto simp: Timer_Run_def fbind_Inr_iff)
    then have "in_slot w1 i j t"
      using assms(1) in_slot_Del [OF Suc.prems(1) u] u(2) unfolding leaves_alone_def by blast
    then have "in_slot (if 0 < r then AddTimer (w1\<lparr>expiration := (expiration w1)(u := AddMs (expiration w1 u) r)\<rparr>) u else w1) i j t"
      using u by (auto intro!: in_slot_Add)
    then show ?thesis
      using Suc.IH Suc.prems(2) Some c by (cases "0 < r") (auto simp: Timer_Run_def)
  qed
qed simp

lemma in_slot_cascade:
  assumes "0 < s" "js = [] \<or> hd js \<noteq> 2 \<or> CalcTime (last_ms w) 1 = 0"
  shows "in_slot w 2 s t \<Longrightarrow> cascade fuel w js = Inr w' \<Longrightarrow> in_slot w' 2 s t"
  using assms(2)
proof (induction js arbitrary: w)
  case (Cons k js)
  let ?m = "CalcTime (last_ms w) 1"
  obtain w1 where w1: "MoveTimerList fuel w (Head k ?m) = Inr w1"
      "(if ?m \<noteq> 0 then Inr w1 else cascade fuel w1 js) = Inr w'"
    using Cons.prems(2) by (auto simp: Let_def fbind_Inr_iff)
  have "(k, ?m) \<noteq> (2, s)" using Cons.prems(3) assms(1) by auto
  from in_slot_Move [OF Cons.prems(1) w1(1) this] show ?case
    using Cons.IH [of w1] w1(2) by (cases "?m = 0") auto
qed simp

lemma in_slot_tick:
  assumes "leaves_alone cb 2 s t" "0 < s" "in_slot w 2 s t" "tick fuel cb e w = Inr (e', w')"
  shows "in_slot w' 2 s t"
proof -
  let ?w = "w\<lparr>last_ms := last_ms w + 1\<rparr>" and ?i = "CalcTime (last_ms w + 1) 0"
  obtain w1 where w1: "(if ?i = 0 then cascade fuel ?w [1..<kWheelNum] else Inr ?w) = Inr w1"
      "fire fuel cb e w1 (Head 0 ?i) = Inr (e', w')"
    using assms(4) by (auto simp: tick_def Let_def fbind_Inr_iff)
  have "hd [1..<kWheelNum] \<noteq> 2" by (simp add: kWheelNum_def upt_rec)
  then have "in_slot w1 2 s t"
    using w1(1) in_slot_cascade [OF assms(2), of "[1..<kWheelNum]" ?w t fuel w1] assms(3) by (auto split: if_splits)
  then show ?thesis using in_slot_fire [OF assms(1)] w1(2) by simp
qed

lemma in_slot_ticks:
  assumes "leaves_alone cb 2 s t" "0 < s"
  shows "in_slot w 2 s t \<Longrightarrow> ticks fuel n cb e w = Inr (e', w') \<Longrightarrow> in_slot w' 2 s t"
proof (induction n arbitrary: e w)
  case (Suc n)
  then obtain e1 w1 where "tick fuel cb e w = Inr (e1, w1)" "ticks fuel n cb e1 w1 = Inr (e', w')"
    by (auto simp: fbind_Inr_iff)
  then show ?case using Suc.IH in_slot_tick [OF assms] Suc.prems(1) by blast
qed simp

subsection \<open>Starting and stopping\<close>

datatype timer_op = OStart Timestamp nat int | OStop nat

fun wheel_op :: "timer_op \<Rightarrow> TimeWheel \<Rightarrow> TimeWheel" where
  "wheel_op (OStart now t ms) w = Timer_Start w now (Tm t) ms"
| "wheel_op (OStop t) w = Timer_Stop w (Tm t)"

text \<open>The same operation on the lists: the new expiration and the time of the wheel choose the slot.\<close>

fun slots_op :: "timer_op \<Rightarrow> int \<Rightarrow> slots \<Rightarrow> slots" where
  "slots_op (OStart now t ms) l S =
     (let x = stamp_ms (AddMs now ms) in
      case (if x < l then None else find_wheel (x - l) [0..<kWheelNum]) of
        None \<Rightarrow> slots_del S (Tm t)
      | Some i \<Rightarrow> (let S' = slots_del S (Tm t) in slots_set S' i (CalcTime x i) (Tm t # S' i (CalcTime x i))))"
| "slots_op (OStop t) l S = slots_del S (Tm t)"

lemma is_timer_Tm [simp]: "is_timer (Tm t)"
  by (simp add: is_timer_def)

lemma AddTimer_last_ms [simp]: "last_ms (AddTimer w t) = last_ms w"
  by (simp add: AddTimer_link split: option.splits)

lemma wheel_op_ok:
  assumes "wheel_ok w S"
  shows "wheel_ok (wheel_op p w) (slots_op p (last_ms w) S) \<and> last_ms (wheel_op p w) = last_ms w"
proof (cases p)
  case (OStart now t ms)
  let ?w = "w\<lparr>expiration := (expiration w)(Tm t := AddMs now ms)\<rparr>" and ?x = "stamp_ms (AddMs now ms)"
  have "wheel_ok (AddTimer ?w (Tm t)) (slots_add S (FindHead ?w (Tm t)) (Tm t))"
    using assms by (intro AddTimer_ok) (simp_all add: wheel_ok_expiration)
  moreover have "slots_add S (FindHead ?w (Tm t)) (Tm t) = slots_op p (last_ms w) S"
    by (auto simp: OStart slots_add_def FindHead_def Let_def split: option.splits)
  ultimately show ?thesis by (simp add: OStart Timer_Start_def)
qed (use DelTimer_ok [OF assms] in \<open>simp add: Timer_Stop_def\<close>)

lemma new_wheel_ok: "wheel_ok (TimeWheel_new now) (\<lambda>_ _. [])"
  by (rule wheel_okI) (auto simp: TimeWheel_new_def)

lemma wheel_ops_ok:
  "wheel_ok w S \<Longrightarrow> last_ms w = l \<Longrightarrow> wheel_ok (fold wheel_op ops w) (fold (\<lambda>p S. slots_op p l S) ops S)"
proof (induction ops arbitrary: w S)
  case (Cons p ops)
  then show ?case using wheel_op_ok [of w S p] by simp
qed simp

section \<open>Properties\<close>

text \<open>C9. The linked lists of the wheel implement one list of timers for each
  slot: after any sequence of starting and stopping timers on a new wheel, the
  pointers represent the lists that the same sequence gives, in both
  directions, with no timer in two places and no link to a timer in none.\<close>

theorem timer_ops_refine:
  "wheel_ok (fold wheel_op ops (TimeWheel_new now)) (fold (\<lambda>p S. slots_op p (stamp_ms now) S) ops (\<lambda>_ _. []))"
  using wheel_ops_ok [OF new_wheel_ok, of now "stamp_ms now" ops] by (simp add: TimeWheel_new_def)





text \<open>When a slot of an upper wheel is emptied, all of its timers go to the
  slot of the first one: a timer whose own expiration belongs to another slot is
  then in the wrong place.\<close>

theorem cascade_misplaces:
  assumes "wheel_ok w S" "S i j = t # ts" "u \<in> set ts" "FindHead w t = Some (Head a b)" "FindHead w u \<noteq> Some (Head a b)"
    and "length (S a b) < fuel"
  shows "\<exists>w'. MoveTimerList fuel w (Head i j) = Inr w' \<and> in_slot w' a b u \<and> FindHead w' u \<noteq> Some (Head a b)"
proof -
  obtain w' where w': "MoveTimerList fuel w (Head i j) = Inr w'"
    using MoveTimerList_returns [OF assms(1,2,4,6)] by blast
  from MoveTimerList_cases [OF assms(1) w'] assms(2,4) obtain S0
    where S0: "wheel_ok w' (slots_set S0 a b (S0 a b @ t # ts))" "last_ms w' = last_ms w" "expiration w' = expiration w"
    by (auto simp: Let_def)
  then have "in_slot w' a b u" using assms(3) by (auto simp: in_slot_def slots_set_def intro!: exI)
  moreover have "FindHead w' u = FindHead w u" using S0(2,3) by (intro FindHead_cong) simp_all
  ultimately show ?thesis using w' assms(5) by auto
qed

theorem cascade_misplaces_witness:
  "\<exists>w'. MoveTimerList 1 ((fold wheel_op [OStart 0 1 300, OStart 0 2 310] (TimeWheel_new 0))\<lparr>last_ms := 256\<rparr>) (Head 1 1) = Inr w' \<and>
     in_slot w' 0 54 (Tm 1)"
proof -
  let ?w = "fold wheel_op [OStart 0 1 300, OStart 0 2 310] (TimeWheel_new 0)"
  let ?S = "fold (\<lambda>p S. slots_op p 0 S) [OStart 0 1 300, OStart 0 2 310] (\<lambda>_ _. [])"
  have l: "stamp_ms 0 = 0" "stamp_ms 300000 = 300" "stamp_ms 310000 = 310"
    by (simp_all add: stamp_ms_def signed_divide_int_def)
  have "wheel_ok ?w ?S" by (rule wheel_ops_ok [OF new_wheel_ok]) (simp add: TimeWheel_new_def l)
  then have ok: "wheel_ok (?w\<lparr>last_ms := 256\<rparr>) ?S" by (simp add: wheel_ok_last_ms)
  have S: "?S = slots_set (\<lambda>_ _. []) 1 1 [Tm 2, Tm 1]"
    by (simp add: AddMs_def l Let_def kWheelNum_def upt_rec MaxTime_def CalcTime_def slots_del_def slots_set_def fun_eq_iff)
  have e: "expiration ?w (Tm 1) = 300000" "expiration ?w (Tm 2) = 310000"
    by (simp_all add: Timer_Start_def AddTimer_link AddMs_def split: option.splits)
  have f: "FindHead (?w\<lparr>last_ms := 256\<rparr>) (Tm 2) = Some (Head 0 54)" "FindHead (?w\<lparr>last_ms := 256\<rparr>) (Tm 1) = Some (Head 0 44)"
    unfolding FindHead_def using e by (simp_all add: l Let_def kWheelNum_def upt_rec MaxTime_def CalcTime_def)
  have "?S 1 1 = Tm 2 # [Tm 1]" "length (?S 0 54) < 1" by (simp_all only: S) (simp_all add: slots_set_def)
  from cascade_misplaces [OF ok this(1) _ f(1) _ this(2), of "Tm 1"] f(2) show ?thesis by auto
qed

end
