(* ===== verification/Civil_Time.thy ===== *)
theory Civil_Time
  imports Log_Stream Time_Wheel
begin

text \<open>
  The calendar that \<open>gmtime_r\<close> of the C library computes, and the functions of
  \<open>kernel/time/time_stamp.cc\<close>, \<open>kernel/log/logger.cc\<close> and \<open>kernel/log/log_file.cc\<close>
  that print times. The clock never shows a time before 1970.
\<close>

section \<open>Calendar\<close>

record tm =
  tm_year :: nat
  tm_mon :: nat
  tm_mday :: nat
  tm_hour :: nat
  tm_min :: nat
  tm_sec :: nat

definition leap :: "nat \<Rightarrow> bool" where
  "leap y \<longleftrightarrow> y mod 4 = 0 \<and> (y mod 100 \<noteq> 0 \<or> y mod 400 = 0)"

definition year_days :: "nat \<Rightarrow> nat" where
  "year_days y = (if leap y then 366 else 365)"

definition month_days :: "nat \<Rightarrow> nat list" where
  "month_days y = [31, if leap y then 29 else 28, 31, 30, 31, 30, 31, 31, 30, 31, 30, 31]"

text \<open>The year that day \<open>d\<close> after the start of year \<open>y\<close> falls into, and the day of that year.\<close>

function find_year :: "nat \<Rightarrow> nat \<Rightarrow> nat \<times> nat" where
  "find_year y d = (if d < year_days y then (y, d) else find_year (Suc y) (d - year_days y))"
  by pat_completeness auto
termination
  by (relation "measure snd") (auto simp: year_days_def split: if_splits)

declare find_year.simps [simp del]

fun find_month :: "nat list \<Rightarrow> nat \<Rightarrow> nat \<Rightarrow> nat \<times> nat" where
  "find_month [] m d = (m, d)"
| "find_month (n # ns) m d = (if d < n then (m, d) else find_month ns (Suc m) (d - n))"

text \<open>\<open>tm_year\<close> counts from 1900 and \<open>tm_mon\<close> from 0.\<close>

definition gmtime :: "nat \<Rightarrow> tm" where
  "gmtime secs =
     (let (y, yd) = find_year 1970 (secs div 86400); (m, md) = find_month (month_days y) 0 yd; s = secs mod 86400 in
      \<lparr>tm_year = y - 1900, tm_mon = m, tm_mday = Suc md, tm_hour = s div 3600, tm_min = s mod 3600 div 60, tm_sec = s mod 60\<rparr>)"

section \<open>Printing\<close>

text \<open>\<open>%0<w>d\<close> and \<open>%<w>d\<close> for a number that is not negative.\<close>

definition zero_padded :: "nat \<Rightarrow> nat \<Rightarrow> byte list" where
  "zero_padded w n = replicate (w - length (decimal n)) 0x30 @ decimal n"

definition space_padded :: "nat \<Rightarrow> nat \<Rightarrow> byte list" where
  "space_padded w n = replicate (w - length (decimal n)) 0x20 @ decimal n"

definition tm_text :: "tm \<Rightarrow> byte list" where
  "tm_text t = space_padded 4 (tm_year t + 1900) @ zero_padded 2 (tm_mon t + 1) @ zero_padded 2 (tm_mday t) @ str '' '' @
     zero_padded 2 (tm_hour t) @ str '':'' @ zero_padded 2 (tm_min t) @ str '':'' @ zero_padded 2 (tm_sec t)"

text \<open>\<open>Timestamp::date\<close>: the text goes through an array of 64 characters.\<close>

definition Timestamp_date :: "Timestamp \<Rightarrow> byte list res" where
  "Timestamp_date us =
     (let secs = nat (us div kUsPerSec); frac = nat (us mod kUsPerSec) in
      fbind (snprintf (replicate 64 0) 0 64 (tm_text (gmtime secs) @ str ''.'' @ zero_padded 6 frac)) (\<lambda>(buf, _).
      Inr (c_string buf)))"

section \<open>The calendar is right\<close>

text \<open>Days from the start of year 1 to the start of year \<open>y\<close>, in closed form.\<close>

definition days_to_year :: "nat \<Rightarrow> nat" where
  "days_to_year y = 365 * (y - 1) + (y - 1) div 4 - (y - 1) div 100 + (y - 1) div 400"

lemma days_to_year_Suc:
  assumes "0 < y"
  shows "days_to_year (Suc y) = days_to_year y + year_days y"
proof -
  obtain k where y: "y = Suc k" using assms by (cases y) auto
  define a b c where abc: "a \<longleftrightarrow> y mod 4 = 0" "b \<longleftrightarrow> y mod 100 = 0" "c \<longleftrightarrow> y mod 400 = 0"
  define p q r where pqr: "p = k div 4" "q = k div 100" "r = k div 400"
  have step: "y div n = k div n + (if y mod n = 0 then 1 else 0)" if "0 < n" for n
    unfolding y using div_Suc [of k n] by simp
  have "y div 4 = p + of_bool a" "y div 100 = q + of_bool b" "y div 400 = r + of_bool c"
    unfolding abc pqr of_bool_def by (rule step; simp)+
  moreover have "days_to_year (Suc y) = 365 * y + y div 4 - y div 100 + y div 400"
    "days_to_year y = 365 * k + p - q + r"
    unfolding days_to_year_def y diff_Suc_1 pqr by (rule refl)+
  moreover have "q \<le> p" unfolding pqr by (intro div_le_mono2) simp_all
  moreover have "c \<Longrightarrow> b" "b \<Longrightarrow> a"
    using dvd_trans [of 100 400 y] dvd_trans [of 4 100 y] by (simp_all add: abc mod_eq_0_iff_dvd)
  moreover have "year_days y = (if a \<and> (\<not> b \<or> c) then 366 else 365)"
    unfolding year_days_def leap_def abc by (rule refl)
  ultimately show ?thesis using y by (cases a; cases b; cases c; simp)
qed

lemma find_year_days:
  "0 < y \<Longrightarrow> find_year y d = (y', d') \<Longrightarrow> y \<le> y' \<and> d' < year_days y' \<and> days_to_year y' + d' = days_to_year y + d"
proof (induction y d rule: find_year.induct)
  case (1 y d)
  show ?case
  proof (cases "d < year_days y")
    case True
    then show ?thesis using 1(3) by (simp add: find_year.simps [of y d])
  next
    case False
    then have "find_year (Suc y) (d - year_days y) = (y', d')"
      using 1(3) by (simp add: find_year.simps [of y d])
    then show ?thesis using 1(1) [OF False] False days_to_year_Suc [OF 1(2)] by simp
  qed
qed

lemma find_month_days:
  "find_month ns m d = (m', d') \<Longrightarrow> d < sum_list ns \<Longrightarrow>
     m \<le> m' \<and> m' - m < length ns \<and> d' < ns ! (m' - m) \<and> sum_list (take (m' - m) ns) + d' = d"
proof (induction ns m d rule: find_month.induct)
  case (2 n ns m d)
  show ?case
  proof (cases "d < n")
    case False
    then have "Suc m \<le> m' \<and> m' - Suc m < length ns \<and> d' < ns ! (m' - Suc m) \<and> sum_list (take (m' - Suc m) ns) + d' = d - n"
      using 2 by auto
    then show ?thesis using False by (auto simp: Suc_diff_Suc [symmetric] dest!: Suc_le_lessD) 
  qed (use 2 in auto)
qed simp

lemma sum_month_days: "sum_list (month_days y) = year_days y"
  by (simp add: month_days_def year_days_def)


lemma clock_arith:
  "A * 86400 + s = secs \<Longrightarrow> B * 3600 + E = s \<Longrightarrow> C * 60 + D = E \<Longrightarrow> (A * 24 + B) * 3600 + C * 60 + D = secs" for A :: nat
  by (simp add: add_mult_distrib)

text \<open>The date of \<open>gmtime\<close> is the one whose distance from 1970 is the given time.\<close>

lemma gmtime_exact:
  fixes secs
  defines "t \<equiv> gmtime secs" and "y \<equiv> tm_year (gmtime secs) + 1900"
  shows "tm_mon t < 12" and "1 \<le> tm_mday t" and "tm_mday t \<le> month_days y ! tm_mon t"
    and "tm_hour t < 24" and "tm_min t < 60" and "tm_sec t < 60"
    and "((days_to_year y + sum_list (take (tm_mon t) (month_days y)) + (tm_mday t - 1) - days_to_year 1970) * 24 + tm_hour t) * 3600 +
      tm_min t * 60 + tm_sec t = secs"
proof -
  obtain yy yd where fy: "find_year 1970 (secs div 86400) = (yy, yd)" by (cases "find_year 1970 (secs div 86400)")
  obtain m md where fm: "find_month (month_days yy) 0 yd = (m, md)" by (cases "find_month (month_days yy) 0 yd")
  have y: "1970 \<le> yy" "yd < year_days yy" "days_to_year yy + yd = days_to_year 1970 + secs div 86400"
    using find_year_days [OF _ fy] by simp_all
  have m: "m < length (month_days yy)" "md < month_days yy ! m" "sum_list (take m (month_days yy)) + md = yd"
    using find_month_days [OF fm] y(2) sum_month_days [of yy] by simp_all
  have t: "gmtime secs = \<lparr>tm_year = yy - 1900, tm_mon = m, tm_mday = Suc md, tm_hour = secs mod 86400 div 3600,
      tm_min = secs mod 86400 mod 3600 div 60, tm_sec = secs mod 86400 mod 60\<rparr>"
    using fy fm by (simp add: gmtime_def Let_def)
  then have yy: "y = yy" using y(1) by (simp add: y_def)
  have "length (month_days yy) = 12" by (simp add: month_days_def)
  then show "tm_mon t < 12" "1 \<le> tm_mday t" "tm_mday t \<le> month_days y ! tm_mon t"
    using m(1,2) yy by (simp_all add: t_def t)
  show "tm_hour t < 24" "tm_min t < 60" "tm_sec t < 60"
    by (simp_all add: t_def t less_mult_imp_div_less)
  have "((secs div 86400) * 24 + s div 3600) * 3600 + s mod 3600 div 60 * 60 + s mod 60 = secs" if "s = secs mod 86400" for s
  proof -
    have 1: "secs div 86400 * 86400 + s = secs" "s mod 3600 mod 60 = s mod 60"
      unfolding that by (rule div_mult_mod_eq, rule mod_mod_cancel) simp
    have "s mod 3600 div 60 * 60 + s mod 60 = s mod 3600"
      unfolding 1(2) [symmetric] by (rule div_mult_mod_eq)
    then show ?thesis using clock_arith [OF 1(1) div_mult_mod_eq] by blast
  qed
  moreover have "days_to_year y + sum_list (take (tm_mon t) (month_days y)) + (tm_mday t - 1) - days_to_year 1970 = secs div 86400"
    using y(3) m(3) yy by (simp add: t_def t)
  ultimately show "((days_to_year y + sum_list (take (tm_mon t) (month_days y)) + (tm_mday t - 1) - days_to_year 1970) * 24 + tm_hour t) * 3600 +
      tm_min t * 60 + tm_sec t = secs"
    by (simp add: t_def t)
qed


lemma find_year_before:
  assumes "d + days_to_year 1970 < days_to_year n" and "0 < n"
  shows "fst (find_year 1970 d) < n"
proof (rule ccontr)
  obtain y d' where f: "find_year 1970 d = (y, d')" by (cases "find_year 1970 d")
  have mono: "days_to_year n \<le> days_to_year (n + k)" for k
    using assms(2) by (induction k) (auto simp: days_to_year_Suc intro: le_trans)
  assume "\<not> fst (find_year 1970 d) < n"
  then have "days_to_year n \<le> days_to_year y" using mono [of "y - n"] f by simp
  then show False using find_year_days [OF _ f] assms(1) by simp
qed

lemma decimal_width: "n < 10 ^ k \<Longrightarrow> 10 ^ (k - 1) \<le> n \<Longrightarrow> length (decimal n) = k"
proof (induction k arbitrary: n)
  case (Suc k)
  show ?case
  proof (cases "n < 10")
    case True
    then have "k = 0" using Suc.prems(2) self_le_power [of "10 :: nat" k] by (cases "0 < k") auto
    then show ?thesis using True by (simp add: decimal.simps [of n])
  next
    case False
    then obtain j where k: "k = Suc j" using Suc.prems(1) by (cases k) auto
    have "n div 10 < 10 ^ k" "10 ^ (k - 1) \<le> n div 10"
      using Suc.prems by (simp_all add: k less_mult_imp_div_less mult.commute less_eq_div_iff_mult_less_eq)
    then show ?thesis using Suc.IH [of "n div 10"] False by (simp add: decimal.simps [of n])
  qed
qed simp

lemma length_zero_padded: "n < 10 ^ w \<Longrightarrow> 0 < w \<Longrightarrow> length (zero_padded w n) = w"
  using length_decimal [of n w] by (simp add: zero_padded_def)

text \<open>Until the end of the year 9999 the printed time has 17 characters.\<close>

lemma length_tm_text:
  assumes "secs < 253402300800"
  shows "length (tm_text (gmtime secs)) = 17"
proof -
  let ?t = "gmtime secs" and ?y = "tm_year (gmtime secs) + 1900"
  have "fst (find_year 1970 (secs div 86400)) < 10000"
    using assms by (intro find_year_before) (simp_all add: days_to_year_def less_mult_imp_div_less)
  then have y: "?y < 10 ^ 4" "10 ^ (4 - 1) \<le> ?y"
    using find_year_days [of 1970 "secs div 86400"]
    by (auto simp: gmtime_def Let_def split: prod.splits)
  have "month_days ?y ! tm_mon ?t \<le> 31"
    using gmtime_exact(1) [of secs] by (auto simp: month_days_def nth_Cons less_Suc_eq numeral_eq_Suc split: nat.splits)
  then have "tm_mday ?t < 10 ^ 2" using gmtime_exact(3) [of secs] by simp
  then show ?thesis
    using y decimal_width [OF y] gmtime_exact(1,4,5,6) [of secs]
    by (simp add: tm_text_def space_padded_def length_zero_padded str_def)
qed

end
