(* ===== verification/Log_Backend.thy ===== *)
theory Log_Backend
  imports Civil_Time "HOL-Library.Signed_Division"
begin

text \<open>
  \<open>kernel/util/fixed_buffer.h\<close> and \<open>kernel/log/{append_file,log_file,async_logging}\<close>:
  the front end appends lines to a buffer under a lock, a background thread swaps
  the buffers out and writes them to files that are rolled by size and by day.
  The steps of the two threads are a transition relation; its invariant gives that
  no assertion fails and that lines reach the file whole and in order.
\<close>

section \<open>Buffers\<close>

record FixedBuffer =
  fb_data :: "byte list"
  fb_cur :: nat

definition FixedBuffer_new :: "nat \<Rightarrow> FixedBuffer" where
  "FixedBuffer_new SIZE = \<lparr>fb_data = replicate SIZE 0, fb_cur = 0\<rparr>"

definition fb_length :: "FixedBuffer \<Rightarrow> int" where
  "fb_length b = int (fb_cur b)"

definition fb_capacity :: "FixedBuffer \<Rightarrow> int" where
  "fb_capacity b = int (length (fb_data b))"

definition fb_avail :: "FixedBuffer \<Rightarrow> int" where
  "fb_avail b = int (length (fb_data b)) - int (fb_cur b)"

definition fb_append :: "FixedBuffer \<Rightarrow> byte list \<Rightarrow> FixedBuffer res" where
  "fb_append b buf =
     (if int (length buf) < to_size_t (fb_avail b) then
        fbind (mem_put (fb_data b) (int (fb_cur b)) buf) (\<lambda>m. Inr (b\<lparr>fb_data := m, fb_cur := fb_cur b + length buf\<rparr>))
      else Inr b)"

definition fb_add :: "FixedBuffer \<Rightarrow> nat \<Rightarrow> FixedBuffer" where
  "fb_add b len = b\<lparr>fb_cur := fb_cur b + len\<rparr>"

definition fb_reset :: "FixedBuffer \<Rightarrow> FixedBuffer" where
  "fb_reset b = b\<lparr>fb_cur := 0\<rparr>"

definition fb_bzero :: "FixedBuffer \<Rightarrow> FixedBuffer" where
  "fb_bzero b = b\<lparr>fb_data := replicate (length (fb_data b)) 0\<rparr>"

definition fb_AsString :: "FixedBuffer \<Rightarrow> byte list res" where
  "fb_AsString b = mem_get (fb_data b) 0 (fb_length b)"

section \<open>Files\<close>

text \<open>
  The host: \<open>fwrite\<close> accepts a number of bytes and tells whether the error
  indicator of the stream is set, the clock in seconds and in microseconds, and whether a file can be opened.
  Each call may change the state of the host.
\<close>

record 'w Host =
  host_fwrite :: "byte list \<Rightarrow> 'w \<Rightarrow> nat \<times> bool \<times> 'w"
  host_time :: "'w \<Rightarrow> nat \<times> 'w"
  host_now :: "'w \<Rightarrow> nat \<times> 'w"
  host_fopen :: "byte list \<Rightarrow> 'w \<Rightarrow> bool \<times> 'w"
  host_name :: "byte list option"
  host_pid :: nat

record AppendFile =
  af_name :: "byte list"
  af_text :: "byte list"
  af_flushed :: nat
  af_written :: int

definition AppendFile_new :: "'w Host \<Rightarrow> byte list \<Rightarrow> 'w \<Rightarrow> (AppendFile \<times> 'w) res" where
  "AppendFile_new os filename w =
     (let (ok, w) = host_fopen os filename w in
      fbind (assert_that ok) (\<lambda>_. Inr (\<lparr>af_name = filename, af_text = [], af_flushed = 0, af_written = 0\<rparr>, w)))"

definition AppendFile_write :: "'w Host \<Rightarrow> AppendFile \<Rightarrow> byte list \<Rightarrow> 'w \<Rightarrow> nat \<times> bool \<times> AppendFile \<times> 'w" where
  "AppendFile_write os f logline w =
     (let (n, err, w) = host_fwrite os logline w in (n, err, f\<lparr>af_text := af_text f @ take n logline\<rparr>, w))"

definition AppendFile_Flush :: "AppendFile \<Rightarrow> AppendFile" where
  "AppendFile_Flush f = f\<lparr>af_flushed := length (af_text f)\<rparr>"

text \<open>The loop of \<open>AppendFile::Append\<close>, from the bytes not written yet; the result is \<open>wn\<close>.\<close>

fun append_loop :: "nat \<Rightarrow> 'w Host \<Rightarrow> AppendFile \<Rightarrow> byte list \<Rightarrow> nat \<Rightarrow> 'w \<Rightarrow> (nat \<times> AppendFile \<times> 'w) res" where
  "append_loop fuel os f rest wn w =
     (if rest = [] then Inr (wn, f, w)
      else case fuel of
        0 \<Rightarrow> Inl Diverge
      | Suc k \<Rightarrow>
          (let (n, err, f, w) = AppendFile_write os f rest w in
           if n \<noteq> length rest \<and> err then Inr (wn, f, w)
           else append_loop k os f (drop n rest) (wn + n) w))"

declare append_loop.simps [simp del]

definition AppendFile_Append :: "'w Host \<Rightarrow> AppendFile \<Rightarrow> byte list \<Rightarrow> 'w \<Rightarrow> (AppendFile \<times> 'w) res" where
  "AppendFile_Append os f logline w =
     fbind (append_loop (length logline) os f logline 0 w) (\<lambda>(wn, f, w). Inr (f\<lparr>af_written := af_written f + int wn\<rparr>, w))"

text \<open>A log file with the files it has rolled away, which their destructor flushed and closed.\<close>

record LogFile =
  lf_basename :: "byte list"
  lf_rollSize :: int
  lf_flushInterval :: int
  lf_checkEveryN :: int
  lf_count :: int
  lf_startOfPeriod :: int
  lf_lastRoll :: int
  lf_lastFlush :: int
  lf_file :: "AppendFile option"
  lf_closed :: "AppendFile list"

definition kRollPerSeconds :: int where "kRollPerSeconds = 60 * 60 * 24"

text \<open>\<open>strftime\<close> with \<open>.%Y%m%d-%H%M%S.\<close>, the host name and the process id.\<close>

definition log_file_name :: "'w Host \<Rightarrow> byte list \<Rightarrow> 'w \<Rightarrow> byte list \<times> int \<times> 'w" where
  "log_file_name os basename w =
     (let (now, w) = host_time os w; t = gmtime now;
          timebuf = str ''.'' @ decimal (tm_year t + 1900) @ zero_padded 2 (tm_mon t + 1) @ zero_padded 2 (tm_mday t) @ str ''-'' @
            zero_padded 2 (tm_hour t) @ zero_padded 2 (tm_min t) @ zero_padded 2 (tm_sec t) @ str ''.'';
          hostname = (case host_name os of Some h \<Rightarrow> c_string h | None \<Rightarrow> str ''unknownhost'') in
      (basename @ timebuf @ hostname @ str ''.'' @ decimal (host_pid os) @ str ''.log'', int now, w))"

definition RollFile :: "'w Host \<Rightarrow> LogFile \<Rightarrow> 'w \<Rightarrow> (bool \<times> LogFile \<times> 'w) res" where
  "RollFile os lf w =
     (let (filename, now, w) = log_file_name os (lf_basename lf) w;
          start = now sdiv kRollPerSeconds * kRollPerSeconds in
      if lf_lastRoll lf < now then
        fbind (AppendFile_new os filename w) (\<lambda>(f, w).
        Inr (True, lf\<lparr>lf_lastRoll := now, lf_lastFlush := now, lf_startOfPeriod := start, lf_file := Some f,
               lf_closed := lf_closed lf @ (case lf_file lf of Some g \<Rightarrow> [AppendFile_Flush g] | None \<Rightarrow> [])\<rparr>, w))
      else Inr (False, lf, w))"

definition LogFile_new :: "'w Host \<Rightarrow> byte list \<Rightarrow> int \<Rightarrow> int \<Rightarrow> int \<Rightarrow> 'w \<Rightarrow> (LogFile \<times> 'w) res" where
  "LogFile_new os basename rollSize flushInterval checkEveryN w =
     fbind (RollFile os \<lparr>lf_basename = basename, lf_rollSize = rollSize, lf_flushInterval = flushInterval,
         lf_checkEveryN = checkEveryN, lf_count = 0, lf_startOfPeriod = 0, lf_lastRoll = 0, lf_lastFlush = 0,
         lf_file = None, lf_closed = []\<rparr> w) (\<lambda>(_, lf, w). Inr (lf, w))"

definition LogFile_Flush :: "LogFile \<Rightarrow> LogFile res" where
  "LogFile_Flush lf = (case lf_file lf of None \<Rightarrow> Inl NullDeref | Some f \<Rightarrow> Inr (lf\<lparr>lf_file := Some (AppendFile_Flush f)\<rparr>))"

definition LogFile_Append :: "'w Host \<Rightarrow> LogFile \<Rightarrow> byte list \<Rightarrow> 'w \<Rightarrow> (LogFile \<times> 'w) res" where
  "LogFile_Append os lf logline w =
     (case lf_file lf of
        None \<Rightarrow> Inl NullDeref
      | Some f \<Rightarrow>
          fbind (AppendFile_Append os f logline w) (\<lambda>(f, w).
          let lf = lf\<lparr>lf_file := Some f\<rparr> in
          if lf_rollSize lf < af_written f then fbind (RollFile os lf w) (\<lambda>(_, lf, w). Inr (lf, w))
          else
            let lf = lf\<lparr>lf_count := lf_count lf + 1\<rparr> in
            if lf_checkEveryN lf \<le> lf_count lf then
              let lf = lf\<lparr>lf_count := 0\<rparr>; (now, w) = host_time os w;
                  thisPeriod = int now sdiv kRollPerSeconds * kRollPerSeconds in
              if thisPeriod \<noteq> lf_startOfPeriod lf then fbind (RollFile os lf w) (\<lambda>(_, lf, w). Inr (lf, w))
              else if lf_flushInterval lf < int now - lf_lastFlush lf then
                fbind (LogFile_Flush (lf\<lparr>lf_lastFlush := int now\<rparr>)) (\<lambda>lf. Inr (lf, w))
              else Inr (lf, w)
            else Inr (lf, w)))"

section \<open>The asynchronous log\<close>

text \<open>A \<open>BufferPtr\<close>; \<open>None\<close> is the null pointer that a move leaves behind.\<close>

type_synonym BufferPtr = "FixedBuffer option"

definition kLogBufferSize :: nat where "kLogBufferSize = 4096 * 1024"

definition Buffer_make :: FixedBuffer where
  "Buffer_make = FixedBuffer_new kLogBufferSize"

text \<open>Where the background thread is: at the head of its loop, in the locked section, writing, or ended.\<close>

datatype pc = AtTop | InLock | Writing | Ended

record 'w AsyncLogging =
  running :: bool
  currentBuffer :: BufferPtr
  nextBuffer :: BufferPtr
  buffers :: "BufferPtr list"
  log_output :: LogFile
  newBuffer1 :: BufferPtr
  newBuffer2 :: BufferPtr
  buffersToWrite :: "BufferPtr list"
  thread_pc :: pc
  host_state :: 'w

text \<open>The constructor and \<open>Start\<close>, which returns when the thread has passed \<open>wg_.Done\<close>.\<close>

definition AsyncLogging_start :: "'w Host \<Rightarrow> byte list \<Rightarrow> int \<Rightarrow> 'w \<Rightarrow> 'w AsyncLogging res" where
  "AsyncLogging_start os basename rollsize w =
     fbind (LogFile_new os basename rollsize 3 1024 w) (\<lambda>(lf, w).
     Inr \<lparr>running = True, currentBuffer = Some Buffer_make, nextBuffer = Some Buffer_make, buffers = [], log_output = lf,
       newBuffer1 = Some Buffer_make, newBuffer2 = Some Buffer_make, buffersToWrite = [], thread_pc = AtTop, host_state = w\<rparr>)"

definition AsyncLogging_Append :: "byte list \<Rightarrow> 'w AsyncLogging \<Rightarrow> 'w AsyncLogging res" where
  "AsyncLogging_Append logline s =
     (case currentBuffer s of
        None \<Rightarrow> Inl NullDeref
      | Some cur \<Rightarrow>
          if int (length logline) < fb_avail cur then
            fbind (fb_append cur logline) (\<lambda>b. Inr (s\<lparr>currentBuffer := Some b\<rparr>))
          else
            fbind (fb_append (case nextBuffer s of Some b \<Rightarrow> b | None \<Rightarrow> Buffer_make) logline) (\<lambda>b.
            Inr (s\<lparr>buffers := buffers s @ [Some cur], currentBuffer := Some b, nextBuffer := None\<rparr>)))"

definition AsyncLogging_Flush :: "'w AsyncLogging \<Rightarrow> 'w AsyncLogging res" where
  "AsyncLogging_Flush s = fbind (LogFile_Flush (log_output s)) (\<lambda>lf. Inr (s\<lparr>log_output := lf\<rparr>))"

text \<open>\<open>Stop\<close> up to the join.\<close>

definition AsyncLogging_Stop :: "'w AsyncLogging \<Rightarrow> 'w AsyncLogging" where
  "AsyncLogging_Stop s = s\<lparr>running := False\<rparr>"

definition empty_buffer :: "BufferPtr \<Rightarrow> bool" where
  "empty_buffer p = (case p of Some b \<Rightarrow> fb_length b = 0 | None \<Rightarrow> False)"

text \<open>\<open>ThreadFunc\<close>: the head of the loop with its assertions,\<close>

definition thread_top :: "'w AsyncLogging \<Rightarrow> 'w AsyncLogging res" where
  "thread_top s =
     (if running s then
        fbind (assert_that (empty_buffer (newBuffer1 s))) (\<lambda>_.
        fbind (assert_that (empty_buffer (newBuffer2 s))) (\<lambda>_.
        fbind (assert_that (buffersToWrite s = [])) (\<lambda>_. Inr (s\<lparr>thread_pc := InLock\<rparr>))))
      else fbind (LogFile_Flush (log_output s)) (\<lambda>lf. Inr (s\<lparr>log_output := lf, thread_pc := Ended\<rparr>)))"

text \<open>the locked section after the wait,\<close>

definition thread_swap :: "'w AsyncLogging \<Rightarrow> 'w AsyncLogging" where
  "thread_swap s =
     (let s = s\<lparr>buffersToWrite := buffers s @ [currentBuffer s], buffers := [], currentBuffer := newBuffer1 s,
                newBuffer1 := None, thread_pc := Writing\<rparr> in
      if nextBuffer s = None then s\<lparr>nextBuffer := newBuffer2 s, newBuffer2 := None\<rparr> else s)"

text \<open>and the section that writes and recycles the buffers.\<close>

fun write_buffers :: "'w Host \<Rightarrow> BufferPtr list \<Rightarrow> LogFile \<Rightarrow> 'w \<Rightarrow> (LogFile \<times> 'w) res" where
  "write_buffers os [] lf w = Inr (lf, w)"
| "write_buffers os (None # bs) lf w = Inl NullDeref"
| "write_buffers os (Some b # bs) lf w =
     fbind (fb_AsString b) (\<lambda>t. fbind (LogFile_Append os lf t w) (\<lambda>(lf, w). write_buffers os bs lf w))"

definition dropped_text :: "byte list \<Rightarrow> nat \<Rightarrow> byte list" where
  "dropped_text date n = str ''Dropped log messages at '' @ date @ str '', '' @ decimal n @ str '' larger buffers'' @ [0x0A]"

definition drop_excess :: "'w Host \<Rightarrow> BufferPtr list \<Rightarrow> LogFile \<Rightarrow> 'w \<Rightarrow> (BufferPtr list \<times> LogFile \<times> 'w) res" where
  "drop_excess os bs lf w =
     (if 25 < length bs then
        let (now, w) = host_now os w in
        fbind (Timestamp_date (int now)) (\<lambda>date.
        fbind (snprintf (replicate 256 0) 0 256 (dropped_text date (length bs - 2))) (\<lambda>(buf, _).
        fbind (LogFile_Append os lf (c_string buf) w) (\<lambda>(lf, w). Inr (take 2 bs, lf, w))))
      else Inr (bs, lf, w))"

definition recycle :: "BufferPtr \<Rightarrow> BufferPtr list \<Rightarrow> (BufferPtr \<times> BufferPtr list) res" where
  "recycle new bs =
     (if new \<noteq> None then Inr (new, bs)
      else fbind (assert_that (bs \<noteq> [])) (\<lambda>_.
        case last bs of None \<Rightarrow> Inl NullDeref | Some b \<Rightarrow> Inr (Some (fb_reset b), butlast bs)))"

definition thread_write :: "'w Host \<Rightarrow> 'w AsyncLogging \<Rightarrow> 'w AsyncLogging res" where
  "thread_write os s =
     fbind (assert_that (buffersToWrite s \<noteq> [])) (\<lambda>_.
     fbind (drop_excess os (buffersToWrite s) (log_output s) (host_state s)) (\<lambda>(bs, lf, w).
     fbind (write_buffers os bs lf w) (\<lambda>(lf, w).
     let bs = take 2 bs in
     fbind (recycle (newBuffer1 s) bs) (\<lambda>(n1, bs).
     fbind (recycle (newBuffer2 s) bs) (\<lambda>(n2, bs).
     fbind (LogFile_Flush lf) (\<lambda>lf.
     Inr (s\<lparr>log_output := lf, host_state := w, newBuffer1 := n1, newBuffer2 := n2, buffersToWrite := [], thread_pc := AtTop\<rparr>)))))))"

text \<open>
  The interleavings: any thread appends a line or stops the log at any time, the
  background thread does its next step. \<open>calm\<close> executions are those in which the
  backlog never exceeds 25 buffers. The index collects the lines appended.
\<close>

inductive log_reach :: "'w Host \<Rightarrow> bool \<Rightarrow> 'w AsyncLogging \<Rightarrow> byte list list \<Rightarrow> 'w AsyncLogging \<Rightarrow> bool"
  for os calm s0
where
  started: "log_reach os calm s0 [] s0"
| appended: "log_reach os calm s0 ls s \<Longrightarrow> length l < kLogBufferSize \<Longrightarrow> AsyncLogging_Append l s = Inr s' \<Longrightarrow>
    log_reach os calm s0 (ls @ [l]) s'"
| stopping: "log_reach os calm s0 ls s \<Longrightarrow> log_reach os calm s0 ls (AsyncLogging_Stop s)"
| looped: "log_reach os calm s0 ls s \<Longrightarrow> thread_pc s = AtTop \<Longrightarrow> thread_top s = Inr s' \<Longrightarrow> log_reach os calm s0 ls s'"
| swapped: "log_reach os calm s0 ls s \<Longrightarrow> thread_pc s = InLock \<Longrightarrow> log_reach os calm s0 ls (thread_swap s)"
| written: "log_reach os calm s0 ls s \<Longrightarrow> thread_pc s = Writing \<Longrightarrow> \<not> calm \<or> length (buffersToWrite s) \<le> 25 \<Longrightarrow>
    thread_write os s = Inr s' \<Longrightarrow> log_reach os calm s0 ls s'"


section \<open>Assumptions on the host and the invariant\<close>

text \<open>What POSIX says of the calls: a short count of \<open>fwrite\<close> comes with the error indicator; the clock is past 1970; the file can be opened.\<close>

definition host_ok :: "'w Host \<Rightarrow> bool" where
  "host_ok os \<longleftrightarrow>
     (\<forall>bs w n err w'. host_fwrite os bs w = (n, err, w') \<longrightarrow> n \<le> length bs \<and> (n < length bs \<longrightarrow> err)) \<and>
     (\<forall>w. 0 < fst (host_time os w)) \<and> (\<forall>nm w. fst (host_fopen os nm w))"

text \<open>The disk takes every byte.\<close>

definition disk_ok :: "'w Host \<Rightarrow> bool" where
  "disk_ok os \<longleftrightarrow> (\<forall>bs w. fst (host_fwrite os bs w) = length bs)"

definition fb_ok :: "FixedBuffer \<Rightarrow> bool" where
  "fb_ok b \<longleftrightarrow> length (fb_data b) = kLogBufferSize \<and> fb_cur b \<le> kLogBufferSize"

definition fb_text :: "FixedBuffer \<Rightarrow> byte list" where
  "fb_text b = take (fb_cur b) (fb_data b)"

fun ptr_ok :: "BufferPtr \<Rightarrow> bool" where
  "ptr_ok None \<longleftrightarrow> False"
| "ptr_ok (Some b) \<longleftrightarrow> fb_ok b"

fun ptr_text :: "BufferPtr \<Rightarrow> byte list" where
  "ptr_text None = []"
| "ptr_text (Some b) = fb_text b"

definition fresh_ptr :: "BufferPtr \<Rightarrow> bool" where
  "fresh_ptr p \<longleftrightarrow> ptr_ok p \<and> empty_buffer p"

text \<open>Everything written, over all files, and everything on its way.\<close>

definition lf_all :: "LogFile \<Rightarrow> byte list" where
  "lf_all lf = concat (map af_text (lf_closed lf)) @ (case lf_file lf of Some f \<Rightarrow> af_text f | None \<Rightarrow> [])"

definition pending :: "'w AsyncLogging \<Rightarrow> byte list" where
  "pending s = concat (map ptr_text (buffersToWrite s)) @ concat (map ptr_text (buffers s)) @ ptr_text (currentBuffer s)"

definition thread_ok :: "'w AsyncLogging \<Rightarrow> bool" where
  "thread_ok s \<longleftrightarrow>
     (case thread_pc s of
        Writing \<Rightarrow> newBuffer1 s = None \<and> buffersToWrite s \<noteq> [] \<and> list_all ptr_ok (buffersToWrite s) \<and>
          (if newBuffer2 s = None then 2 \<le> length (buffersToWrite s) else fresh_ptr (newBuffer2 s))
      | Ended \<Rightarrow> buffersToWrite s = []
      | _ \<Rightarrow> fresh_ptr (newBuffer1 s) \<and> fresh_ptr (newBuffer2 s) \<and> buffersToWrite s = [])"

definition log_ok :: "'w AsyncLogging \<Rightarrow> bool" where
  "log_ok s \<longleftrightarrow> ptr_ok (currentBuffer s) \<and> (if nextBuffer s = None then buffers s \<noteq> [] else fresh_ptr (nextBuffer s)) \<and>
     list_all ptr_ok (buffers s) \<and> lf_file (log_output s) \<noteq> None \<and> thread_ok s"

section \<open>The steps keep it\<close>

lemma host_okD:
  assumes "host_ok os"
  shows "host_fwrite os bs w = (n, err, w') \<Longrightarrow> n \<le> length bs \<and> (n < length bs \<longrightarrow> err)"
    and "host_time os w = (now, w') \<Longrightarrow> 0 < now"
    and "host_fopen os nm w = (ok, w') \<Longrightarrow> ok"
  using assms unfolding host_ok_def by (blast, metis fst_conv, metis fst_conv)

lemma fb_append_ok:
  assumes "fb_ok b" and "int (length l) < fb_avail b"
  shows "\<exists>b'. fb_append b l = Inr b' \<and> fb_ok b' \<and> fb_text b' = fb_text b @ l"
proof -
  have "to_size_t (fb_avail b) = fb_avail b"
    using assms by (simp add: to_size_t_def fb_avail_def fb_ok_def kLogBufferSize_def)
  moreover have "fb_cur b + length l \<le> length (fb_data b)" using assms by (simp add: fb_avail_def)
  moreover from this have "take (fb_cur b + length l) (window (fb_data b) (fb_cur b) l) = take (fb_cur b) (fb_data b) @ l"
    by (subst take_window) simp_all
  ultimately show ?thesis
    using assms by (auto simp: fb_append_def mem_put_inside fb_ok_def fb_text_def)
qed

lemma Buffer_make_fresh: "fresh_ptr (Some Buffer_make)"
  by (simp add: fresh_ptr_def empty_buffer_def fb_ok_def fb_length_def Buffer_make_def FixedBuffer_new_def)

lemma fresh_append:
  assumes "fresh_ptr (Some b)" and "length l < kLogBufferSize"
  shows "\<exists>b'. fb_append b l = Inr b' \<and> fb_ok b' \<and> fb_text b' = l"
  using fb_append_ok [of b l] assms by (auto simp: fresh_ptr_def empty_buffer_def fb_length_def fb_avail_def fb_ok_def fb_text_def)

lemma fb_AsString_ok: "fb_ok b \<Longrightarrow> fb_AsString b = Inr (fb_text b)"
  by (simp add: fb_AsString_def mem_get_def fb_length_def fb_ok_def fb_text_def sub_def)

lemma snprintf_fits: "0 < sz \<Longrightarrow> sz \<le> int (length m) \<Longrightarrow> sz < 2 ^ 64 \<Longrightarrow> returns (snprintf m 0 sz t)"
  by (auto simp: snprintf_def to_size_t_def Let_def mem_put_def)

lemma snprintf_array: "0 < n \<Longrightarrow> n < 2 ^ 64 \<Longrightarrow> \<exists>buf len. snprintf (replicate n 0) 0 (int n) t = Inr (buf, len)"
  using snprintf_fits [of "int n" "replicate n 0" t] by (auto simp: returns_def)

lemma Timestamp_date_returns: "\<exists>d. Timestamp_date us = Inr d"
  unfolding Timestamp_date_def Let_def
  using snprintf_array [of 64 "tm_text (gmtime (nat (us div kUsPerSec))) @ str ''.'' @ zero_padded 6 (nat (us mod kUsPerSec))"] by auto

lemma append_loop_simps:
  "append_loop fuel os f [] wn w = Inr (wn, f, w)"
  "append_loop (Suc k) os f (b # bs) wn w =
     (let (n, err, f, w) = AppendFile_write os f (b # bs) w in
      if n \<noteq> length (b # bs) \<and> err then Inr (wn, f, w)
      else append_loop k os f (drop n (b # bs)) (wn + n) w)"
  by (subst append_loop.simps; simp)+

lemma AppendFile_Append_ok:
  assumes "host_ok os"
  shows "\<exists>f' w'. AppendFile_Append os f l w = Inr (f', w') \<and> (disk_ok os \<longrightarrow> af_text f' = af_text f @ l)"
proof (cases l)
  case (Cons b bs)
  obtain n err w' where h: "host_fwrite os l w = (n, err, w')" by (cases "host_fwrite os l w") auto
  with host_okD(1) [OF assms] have "n \<le> length l" "n < length l \<longrightarrow> err" by blast+
  moreover have "disk_ok os \<longrightarrow> n = length l" using h by (metis disk_ok_def fst_conv)
  ultimately show ?thesis
    using h Cons by (auto simp: AppendFile_Append_def AppendFile_write_def append_loop_simps Let_def)
qed (simp add: AppendFile_Append_def append_loop_simps)

lemma RollFile_ok:
  assumes "host_ok os"
  shows "\<exists>b lf' w'. RollFile os lf w = Inr (b, lf', w') \<and> lf_all lf' = lf_all lf \<and> (lf_file lf \<noteq> None \<or> b \<longrightarrow> lf_file lf' \<noteq> None) \<and>
    (lf_lastRoll lf = 0 \<longrightarrow> b)"
proof -
  obtain nm now w' where n: "log_file_name os (lf_basename lf) w = (nm, now, w')" by (cases "log_file_name os (lf_basename lf) w") auto
  obtain ok w'' where o: "host_fopen os nm w' = (ok, w'')" by (cases "host_fopen os nm w'") auto
  have "ok" using host_okD(3) [OF assms o] .
  moreover have "0 < now" using host_okD(2) [OF assms] n by (auto simp: log_file_name_def Let_def split: prod.splits)
  ultimately show ?thesis
    using n o by (auto simp: RollFile_def AppendFile_new_def Let_def lf_all_def AppendFile_Flush_def split: option.splits)
qed

lemma roll_ok:
  assumes "host_ok os" and "lf_file lf \<noteq> None"
  shows "\<exists>lf' w'. fbind (RollFile os lf w) (\<lambda>(_, lf, w). Inr (lf, w)) = Inr (lf', w') \<and> lf_file lf' \<noteq> None \<and> lf_all lf' = lf_all lf"
  using RollFile_ok [OF assms(1), of lf w] assms(2) by auto

lemma LogFile_Append_ok:
  assumes "host_ok os" and "lf_file lf \<noteq> None"
  shows "\<exists>lf' w'. LogFile_Append os lf l w = Inr (lf', w') \<and> lf_file lf' \<noteq> None \<and> (disk_ok os \<longrightarrow> lf_all lf' = lf_all lf @ l)"
proof -
  obtain f where f: "lf_file lf = Some f" using assms(2) by auto
  obtain f' w' where a: "AppendFile_Append os f l w = Inr (f', w')" "disk_ok os \<longrightarrow> af_text f' = af_text f @ l"
    using AppendFile_Append_ok [OF assms(1)] by blast
  obtain now w'' where t: "host_time os w' = (now, w'')" by (cases "host_time os w'")
  define lf1 where "lf1 = lf\<lparr>lf_file := Some f'\<rparr>"
  have 1: "lf_file lf1 \<noteq> None" "disk_ok os \<longrightarrow> lf_all lf1 = lf_all lf @ l" using a(2) f by (simp_all add: lf1_def lf_all_def)
  have all: "lf_all (lf1\<lparr>lf_count := c\<rparr>) = lf_all lf1" "lf_all (lf1\<lparr>lf_count := c, lf_lastFlush := d, lf_file := Some (AppendFile_Flush f')\<rparr>) = lf_all lf1" for c d
    by (simp_all add: lf_all_def lf1_def AppendFile_Flush_def)
  show ?thesis
    using 1 a(1) f t roll_ok [OF assms(1), of lf1 w'] roll_ok [OF assms(1), of "lf1\<lparr>lf_count := 0\<rparr>" w''] all
    by (auto simp: LogFile_Append_def Let_def LogFile_Flush_def lf1_def)
qed

lemma LogFile_Flush_ok:
  assumes "lf_file lf \<noteq> None"
  shows "\<exists>lf'. LogFile_Flush lf = Inr lf' \<and> lf_file lf' \<noteq> None \<and> lf_all lf' = lf_all lf"
  using assms by (auto simp: LogFile_Flush_def lf_all_def AppendFile_Flush_def)

lemma write_buffers_ok:
  assumes "host_ok os"
  shows "lf_file lf \<noteq> None \<Longrightarrow> list_all ptr_ok bs \<Longrightarrow>
    \<exists>lf' w'. write_buffers os bs lf w = Inr (lf', w') \<and> lf_file lf' \<noteq> None \<and> (disk_ok os \<longrightarrow> lf_all lf' = lf_all lf @ concat (map ptr_text bs))"
proof (induction bs arbitrary: lf w)
  case (Cons p bs)
  obtain b where b: "p = Some b" "fb_ok b" using Cons.prems(2) by (cases p) auto
  obtain lf1 w1 where 1: "LogFile_Append os lf (fb_text b) w = Inr (lf1, w1)" "lf_file lf1 \<noteq> None"
      "disk_ok os \<longrightarrow> lf_all lf1 = lf_all lf @ fb_text b"
    using LogFile_Append_ok [OF assms Cons.prems(1)] by blast
  show ?case using Cons.IH [OF 1(2), of w1] Cons.prems(2) b 1 by (auto simp: fb_AsString_ok)
qed simp

lemma drop_excess_ok:
  assumes "host_ok os" and "lf_file lf \<noteq> None" and "list_all ptr_ok bs"
  shows "\<exists>bs' lf' w'. drop_excess os bs lf w = Inr (bs', lf', w') \<and> lf_file lf' \<noteq> None \<and> list_all ptr_ok bs' \<and>
    take 2 bs' = take 2 bs \<and> (length bs \<le> 25 \<longrightarrow> bs' = bs \<and> lf' = lf)"
proof (cases "25 < length bs")
  case True
  obtain now w1 where t: "host_now os w = (now, w1)" by (cases "host_now os w")
  obtain d where d: "Timestamp_date (int now) = Inr d"
    using Timestamp_date_returns by blast
  obtain buf n where b: "snprintf (replicate 256 0) 0 256 (dropped_text d (length bs - 2)) = Inr (buf, n)"
    using snprintf_array [of 256 "dropped_text d (length bs - 2)"] by auto
  obtain lf' w' where "LogFile_Append os lf (c_string buf) w1 = Inr (lf', w')" "lf_file lf' \<noteq> None"
    using LogFile_Append_ok [OF assms(1,2)] by blast
  then show ?thesis using True t d b assms(3) by (auto simp: drop_excess_def list_all_iff dest: in_set_takeD)
qed (use assms in \<open>simp add: drop_excess_def\<close>)

lemma recycle_ok:
  assumes "new = None \<Longrightarrow> bs \<noteq> [] \<and> list_all ptr_ok bs" and "new \<noteq> None \<Longrightarrow> fresh_ptr new"
  shows "\<exists>new' bs'. recycle new bs = Inr (new', bs') \<and> fresh_ptr new' \<and> bs' = (if new = None then butlast bs else bs)"
proof (cases new)
  case None
  then have "ptr_ok (last bs)" using assms(1) by (auto simp: list_all_iff)
  then obtain b where "last bs = Some b" "fb_ok b" by (cases "last bs") auto
  then show ?thesis
    using None assms(1) by (simp add: recycle_def fresh_ptr_def empty_buffer_def fb_reset_def fb_ok_def fb_length_def)
qed (use assms in \<open>simp add: recycle_def\<close>)

lemma thread_write_ok:
  assumes os: "host_ok os" and ok: "log_ok s" and pc: "thread_pc s = Writing"
  shows "\<exists>s'. thread_write os s = Inr s' \<and> log_ok s' \<and> thread_pc s' = AtTop \<and>
    (disk_ok os \<and> length (buffersToWrite s) \<le> 25 \<longrightarrow> lf_all (log_output s') @ pending s' = lf_all (log_output s) @ pending s)"
proof -
  let ?b = "buffersToWrite s"
  have t: "newBuffer1 s = None" "?b \<noteq> []" "list_all ptr_ok ?b" "newBuffer2 s = None \<longrightarrow> 2 \<le> length ?b"
    "newBuffer2 s \<noteq> None \<longrightarrow> fresh_ptr (newBuffer2 s)" and lf: "lf_file (log_output s) \<noteq> None"
    using ok pc by (auto simp: log_ok_def thread_ok_def split: if_splits)
  obtain bs lf1 w1 where 1: "drop_excess os ?b (log_output s) (host_state s) = Inr (bs, lf1, w1)" "lf_file lf1 \<noteq> None" "list_all ptr_ok bs"
      "take 2 bs = take 2 ?b" "length ?b \<le> 25 \<longrightarrow> bs = ?b \<and> lf1 = log_output s"
    using drop_excess_ok [OF os lf t(3)] by blast
  obtain lf2 w2 where 2: "write_buffers os bs lf1 w1 = Inr (lf2, w2)" "lf_file lf2 \<noteq> None"
      "disk_ok os \<longrightarrow> lf_all lf2 = lf_all lf1 @ concat (map ptr_text bs)"
    using write_buffers_ok [OF os 1(2,3)] by blast
  have ok2: "list_all ptr_ok (take 2 ?b)" "take 2 ?b \<noteq> []" using t by (auto simp: list_all_iff dest: in_set_takeD)
  obtain n1 where 3: "recycle (newBuffer1 s) (take 2 bs) = Inr (n1, butlast (take 2 ?b))" "fresh_ptr n1"
    using recycle_ok [of None "take 2 ?b"] t(1) ok2 1(4) by auto
  have "newBuffer2 s = None \<Longrightarrow> butlast (take 2 ?b) \<noteq> [] \<and> list_all ptr_ok (butlast (take 2 ?b))"
    using t(4) ok2(1) by (auto simp: list_all_iff dest: in_set_butlastD simp flip: length_greater_0_conv)
  then obtain n2 bs' where 4: "recycle (newBuffer2 s) (butlast (take 2 ?b)) = Inr (n2, bs')" "fresh_ptr n2"
    using recycle_ok [of "newBuffer2 s" "butlast (take 2 ?b)"] t(5) by auto
  obtain lf3 where 5: "LogFile_Flush lf2 = Inr lf3" "lf_file lf3 \<noteq> None" "lf_all lf3 = lf_all lf2"
    using LogFile_Flush_ok [OF 2(2)] by blast
  show ?thesis
    using t(2) 1 2 3 4 5 ok by (auto simp: thread_write_def Let_def log_ok_def thread_ok_def pending_def)
qed

lemma thread_top_ok:
  assumes "log_ok s" and "thread_pc s = AtTop"
  shows "\<exists>s'. thread_top s = Inr s' \<and> log_ok s' \<and> lf_all (log_output s') = lf_all (log_output s) \<and> pending s' = pending s"
proof -
  have "fresh_ptr (newBuffer1 s)" "fresh_ptr (newBuffer2 s)" "buffersToWrite s = []" and lf: "lf_file (log_output s) \<noteq> None"
    using assms by (simp_all add: log_ok_def thread_ok_def)
  moreover obtain lf' where "LogFile_Flush (log_output s) = Inr lf'" "lf_file lf' \<noteq> None" "lf_all lf' = lf_all (log_output s)"
    using LogFile_Flush_ok [OF lf] by blast
  ultimately show ?thesis
    using assms by (auto simp: thread_top_def log_ok_def thread_ok_def pending_def fresh_ptr_def)
qed

lemma thread_swap_ok:
  assumes "log_ok s" and "thread_pc s = InLock"
  shows "log_ok (thread_swap s) \<and> log_output (thread_swap s) = log_output s \<and> pending (thread_swap s) = pending s"
proof -
  have f: "fresh_ptr (newBuffer1 s)" "fresh_ptr (newBuffer2 s)" "buffersToWrite s = []"
    using assms by (simp_all add: log_ok_def thread_ok_def)
  then obtain b1 b2 where b: "newBuffer1 s = Some b1" "newBuffer2 s = Some b2" "fb_ok b1" "fb_text b1 = []"
    by (cases "newBuffer1 s"; cases "newBuffer2 s") (auto simp: fresh_ptr_def empty_buffer_def fb_text_def fb_length_def)
  have "nextBuffer s = None \<longrightarrow> 2 \<le> length (buffers s @ [currentBuffer s])"
    using assms by (cases "buffers s") (auto simp: log_ok_def split: if_splits)
  then show ?thesis
    using assms f b by (auto simp: thread_swap_def Let_def log_ok_def thread_ok_def pending_def)
qed

lemma Append_ok:
  assumes "log_ok s" and "length l < kLogBufferSize"
  shows "\<exists>s'. AsyncLogging_Append l s = Inr s' \<and> log_ok s' \<and> log_output s' = log_output s \<and> thread_pc s' = thread_pc s \<and>
    running s' = running s \<and> pending s' = pending s @ l"
proof -
  obtain cur where c: "currentBuffer s = Some cur" "fb_ok cur" using assms(1) by (cases "currentBuffer s") (auto simp: log_ok_def)
  have th: "thread_ok (s\<lparr>currentBuffer := x\<rparr>) = thread_ok s" "thread_ok (s\<lparr>buffers := y, currentBuffer := x, nextBuffer := z\<rparr>) = thread_ok s" for x y z
    by (cases "thread_pc s"; cases "newBuffer2 s"; simp add: thread_ok_def)+
  show ?thesis
  proof (cases "int (length l) < fb_avail cur")
    case True
    then obtain b where "fb_append cur l = Inr b" "fb_ok b" "fb_text b = fb_text cur @ l"
      using fb_append_ok c(2) by blast
    then show ?thesis using True assms(1) c th by (simp add: AsyncLogging_Append_def log_ok_def pending_def)
  next
    case False
    define nb where "nb = (case nextBuffer s of Some b \<Rightarrow> b | None \<Rightarrow> Buffer_make)"
    have "fresh_ptr (Some nb)"
      using assms(1) Buffer_make_fresh by (auto simp: nb_def log_ok_def split: option.splits if_splits)
    then obtain b where "fb_append nb l = Inr b" "fb_ok b" "fb_text b = l"
      using fresh_append assms(2) by blast
    then show ?thesis using False assms(1) c th by (simp add: AsyncLogging_Append_def log_ok_def pending_def flip: nb_def)
  qed
qed

lemma start_ok:
  assumes "host_ok os"
  shows "\<exists>s. AsyncLogging_start os basename rollsize w = Inr s \<and> log_ok s \<and> thread_pc s = AtTop \<and> running s \<and>
    lf_all (log_output s) = [] \<and> pending s = []"
proof -
  have e: "ptr_text (Some Buffer_make) = []" by (simp add: fb_text_def Buffer_make_def FixedBuffer_new_def)
  let ?lf = "\<lparr>lf_basename = basename, lf_rollSize = rollsize, lf_flushInterval = 3, lf_checkEveryN = 1024, lf_count = 0,
      lf_startOfPeriod = 0, lf_lastRoll = 0, lf_lastFlush = 0, lf_file = None, lf_closed = []\<rparr>"
  obtain b lf w' where "RollFile os ?lf w = Inr (b, lf, w')" "lf_all lf = []" "lf_file lf \<noteq> None"
    using RollFile_ok [OF assms, of ?lf w] by (auto simp: lf_all_def)
  then show ?thesis
    using Buffer_make_fresh e
    by (auto simp: AsyncLogging_start_def LogFile_new_def log_ok_def thread_ok_def pending_def fresh_ptr_def)
qed

lemma log_reach_ok:
  assumes os: "host_ok os" and s0: "AsyncLogging_start os basename rollsize w = Inr s0"
  shows "log_reach os calm s0 ls s \<Longrightarrow>
    log_ok s \<and> (calm \<and> disk_ok os \<longrightarrow> lf_all (log_output s) @ pending s = concat ls)"
proof (induction rule: log_reach.induct)
  case started
  then show ?case using start_ok [OF os, of basename rollsize w] s0 by auto
next
  case (appended ls s l s')
  then show ?case using Append_ok [of s l] by auto
next
  case (stopping ls s)
  then show ?case by (auto simp: log_ok_def thread_ok_def AsyncLogging_Stop_def pending_def split: pc.splits)
next
  case (looped ls s s')
  then show ?case using thread_top_ok [of s] by auto
next
  case (swapped ls s)
  then show ?case using thread_swap_ok [of s] by auto
next
  case (written ls s s')
  then show ?case using thread_write_ok [OF os, of s] by auto
qed


text \<open>One round of the background thread empties everything that was pending.\<close>

lemma round_ok:
  assumes os: "host_ok os" and ok: "log_ok s" and pc: "thread_pc s = AtTop" and run: "running s"
    and few: "length (buffers s) < 25"
  shows "\<exists>s1 s2. thread_top s = Inr s1 \<and> thread_pc s1 = InLock \<and> thread_write os (thread_swap s1) = Inr s2 \<and> log_ok s2 \<and>
    (disk_ok os \<longrightarrow> lf_all (log_output s2) = lf_all (log_output s) @ pending s) \<and> pending s2 = []"
proof -
  have f: "fresh_ptr (newBuffer1 s)" "fresh_ptr (newBuffer2 s)" "buffersToWrite s = []"
    using ok pc by (simp_all add: log_ok_def thread_ok_def)
  let ?s1 = "s\<lparr>thread_pc := InLock\<rparr>"
  have 1: "thread_top s = Inr ?s1" using f run by (simp add: thread_top_def fresh_ptr_def)
  then have ok1: "log_ok ?s1" "pending ?s1 = pending s" using thread_top_ok [OF ok pc] by auto
  note sw = thread_swap_ok [OF ok1(1), simplified]
  have pw: "thread_pc (thread_swap ?s1) = Writing" "length (buffersToWrite (thread_swap ?s1)) \<le> 25"
    using few by (simp_all add: thread_swap_def Let_def)
  obtain s2 where 2: "thread_write os (thread_swap ?s1) = Inr s2" "log_ok s2"
      "disk_ok os \<longrightarrow> lf_all (log_output s2) @ pending s2 = lf_all (log_output (thread_swap ?s1)) @ pending (thread_swap ?s1)"
    using thread_write_ok [OF os _ pw(1)] sw pw(2) by blast
  have "pending s2 = []"
  proof -
    have "buffers (thread_swap ?s1) = []" "currentBuffer (thread_swap ?s1) = newBuffer1 s" by (simp_all add: thread_swap_def Let_def)
    moreover have "buffers s2 = buffers (thread_swap ?s1)" "currentBuffer s2 = currentBuffer (thread_swap ?s1)" "buffersToWrite s2 = []"
      using 2(1) by (auto simp: thread_write_def Let_def fbind_Inr_iff split: prod.splits)
    ultimately show ?thesis
      using f(1) by (cases "newBuffer1 s") (auto simp: pending_def fresh_ptr_def empty_buffer_def fb_text_def fb_length_def)
  qed
  then show ?thesis using 1 2 sw ok1 by auto
qed

text \<open>A host whose disk takes everything.\<close>

definition sample_host :: "unit Host" where
  "sample_host = \<lparr>host_fwrite = (\<lambda>bs w. (length bs, False, w)), host_time = (\<lambda>w. (1700000000, w)), host_now = (\<lambda>w. (1700000000000000, w)),
     host_fopen = (\<lambda>nm w. (True, w)), host_name = None, host_pid = 42\<rparr>"

lemma sample_host_ok: "host_ok sample_host" "disk_ok sample_host"
  by (simp_all add: host_ok_def disk_ok_def sample_host_def)

section \<open>Properties\<close>





text \<open>C35. \<open>Stop\<close> ends the background thread at the head of its loop without a last
  swap: lines appended while it was writing are never written. Here the only line
  of the log is lost.\<close>

theorem Stop_loses_lines:
  assumes "host_ok os" and "disk_ok os" and "l \<noteq> []" and "length l < kLogBufferSize"
    and "AsyncLogging_start os basename rollsize w = Inr s0"
  shows "\<exists>s. log_reach os True s0 [l] s \<and> thread_pc s = Ended \<and> lf_all (log_output s) = [] \<and> pending s = l"
proof -
  have s0: "log_ok s0" "thread_pc s0 = AtTop" "lf_all (log_output s0) = []" "pending s0 = []"
    using start_ok [OF assms(1), of basename rollsize w] assms(5) by auto
  obtain s1 where 1: "AsyncLogging_Append l s0 = Inr s1" "log_ok s1" "thread_pc s1 = AtTop" "pending s1 = l" "log_output s1 = log_output s0"
    using Append_ok [OF s0(1) assms(4)] s0 by auto
  let ?s2 = "AsyncLogging_Stop s1"
  have ok2: "log_ok ?s2" "thread_pc ?s2 = AtTop" using 1 by (simp_all add: log_ok_def thread_ok_def AsyncLogging_Stop_def)
  obtain s3 where 3: "thread_top ?s2 = Inr s3" "lf_all (log_output s3) = lf_all (log_output ?s2)" "pending s3 = pending ?s2"
    using thread_top_ok [OF ok2] by auto
  moreover have "thread_pc s3 = Ended" using 3(1) by (auto simp: thread_top_def AsyncLogging_Stop_def fbind_Inr_iff)
  moreover have "log_reach os True s0 ([] @ [l]) s3"
    using log_reach.looped [OF log_reach.stopping [OF log_reach.appended [OF log_reach.started assms(4) 1(1)]] ok2(2) 3(1)] .
  ultimately show ?thesis using 1 s0 by (auto simp: AsyncLogging_Stop_def pending_def)
qed

theorem Stop_loses_lines_witness:
  "\<exists>s0 s. AsyncLogging_start sample_host [] 1000 () = Inr s0 \<and> log_reach sample_host True s0 [str ''bye''] s \<and> thread_pc s = Ended \<and>
     lf_all (log_output s) = []"
proof -
  obtain s0 where s0: "AsyncLogging_start sample_host [] 1000 () = Inr s0"
    using start_ok [OF sample_host_ok(1), of "[]" 1000 "()"] by auto
  then show ?thesis
    using Stop_loses_lines [OF sample_host_ok _ _ s0, of "str ''bye''"] by (auto simp: str_def kLogBufferSize_def)
qed

end
