(* ===== verification/Routine_Runtime.thy ===== *)
theory Routine_Runtime
  imports Baize_Prelude
begin

text \<open>
  \<open>kernel/runtime/{routine,routine_pool,async_park,event_loop}.{h,cc}\<close>: stackful
  coroutines, the pool that runs tasks on them, the parks where they wait for a
  file descriptor, and the loop. The context switches belong to a library: a
  \<open>Call\<close> runs the coroutine from where it stopped until it returns to the main
  one, which is what \<open>resume\<close> does. A task is the tree of the runtime calls its
  code makes, branching on the timeout flag that a timed wait stores.
\<close>

section \<open>Tasks and the state of the runtime\<close>

datatype task =
    Finish
  | WaitRead nat "int option" "bool \<Rightarrow> task"
  | WaitWrite nat "int option" "bool \<Rightarrow> task"
  | CheckTicks task
  | Spawn task "byte list" task
  | SchedRead nat task
  | SchedWrite nat task
  | ClosePark nat task

text \<open>Where a coroutine stopped: at the head of the pool's loop, in a wait on a park (timed or not), or in \<open>CheckTicks\<close>.\<close>

datatype stop =
    AtLoop
  | AfterRead nat bool "bool \<Rightarrow> task"
  | AfterWrite nat bool "bool \<Rightarrow> task"
  | AfterTick task

record Routine =
  routine_name :: "byte list"
  ticks_max :: int
  ticks_now :: int
  timeout :: bool
  timer_ms :: "int option"
  stopped :: stop

datatype loop_fn = FCall nat | FStart task "byte list"

record Runtime =
  rt_current :: "nat option"
  routines :: "nat \<Rightarrow> Routine"
  free_list :: "nat list"
  active_list :: "nat list"
  rt_tasks :: "task list"
  loop_functions :: "loop_fn list"
  read_routine :: "nat \<Rightarrow> nat option"
  write_routine :: "nat \<Rightarrow> nat option"
  park_live :: "nat \<Rightarrow> bool"

section \<open>The code\<close>

definition kRoutineTicks :: int where "kRoutineTicks = 10"
definition kMainRoutineId :: nat where "kMainRoutineId = 0"

definition Routine_new :: Routine where
  "Routine_new = \<lparr>routine_name = str ''routine'', ticks_max = kRoutineTicks, ticks_now = 0, timeout = False,
     timer_ms = None, stopped = AtLoop\<rparr>"

definition is_main_routine :: "Runtime \<Rightarrow> bool" where
  "is_main_routine st \<longleftrightarrow> rt_current st = None"

definition current_routineid :: "Runtime \<Rightarrow> nat" where
  "current_routineid st = (case rt_current st of Some r \<Rightarrow> r | None \<Rightarrow> kMainRoutineId)"

definition current_routine_name :: "Runtime \<Rightarrow> byte list" where
  "current_routine_name st = (case rt_current st of Some r \<Rightarrow> routine_name (routines st r) | None \<Rightarrow> str ''main_routine'')"

definition upd_routine :: "Runtime \<Rightarrow> nat \<Rightarrow> (Routine \<Rightarrow> Routine) \<Rightarrow> Runtime" where
  "upd_routine st r f = st\<lparr>routines := (routines st)(r := f (routines st r))\<rparr>"

definition Tick :: "Routine \<Rightarrow> bool \<times> Routine" where
  "Tick c =
     (let c = c\<lparr>ticks_now := ticks_now c + 1\<rparr> in
      if ticks_max c \<le> ticks_now c then (True, c\<lparr>ticks_now := 0\<rparr>) else (False, c))"

text \<open>\<open>Routine::Return\<close>: control goes back to the main coroutine, and the coroutine stops at \<open>s\<close>.\<close>

definition Routine_Return :: "Runtime \<Rightarrow> stop \<Rightarrow> Runtime res" where
  "Routine_Return st s =
     (case rt_current st of
        None \<Rightarrow> Inl Fatal
      | Some r \<Rightarrow> Inr ((upd_routine st r (\<lambda>c. c\<lparr>stopped := s\<rparr>))\<lparr>rt_current := None\<rparr>))"

text \<open>\<open>Return(ms, timeout)\<close> up to the switch: the flag is cleared and the timer started.\<close>

definition Routine_Return_timed :: "Runtime \<Rightarrow> int \<Rightarrow> stop \<Rightarrow> Runtime res" where
  "Routine_Return_timed st ms s =
     Routine_Return (case rt_current st of
        None \<Rightarrow> st
      | Some r \<Rightarrow> upd_routine st r (\<lambda>c. c\<lparr>timeout := False, timer_ms := Some ms\<rparr>)) s"

definition wait_return :: "Runtime \<Rightarrow> int option \<Rightarrow> stop \<Rightarrow> Runtime res" where
  "wait_return st ms s = (case ms of None \<Rightarrow> Routine_Return st s | Some n \<Rightarrow> Routine_Return_timed st n s)"

text \<open>\<open>EventLoop::RunInLoop\<close> outside the main coroutine, which queues the function.\<close>

definition queue_function :: "Runtime \<Rightarrow> loop_fn \<Rightarrow> Runtime" where
  "queue_function st f = st\<lparr>loop_functions := loop_functions st @ [f]\<rparr>"

definition queue_call :: "Runtime \<Rightarrow> nat option \<Rightarrow> Runtime" where
  "queue_call st q = (case q of None \<Rightarrow> st | Some r \<Rightarrow> queue_function st (FCall r))"

definition use_park :: "Runtime \<Rightarrow> nat \<Rightarrow> Runtime res" where
  "use_park st p = (if park_live st p then Inr st else Inl BadPointer)"

text \<open>Runs a task on coroutine \<open>r\<close> until the coroutine returns to the main one.\<close>

primrec exec :: "nat \<Rightarrow> task \<Rightarrow> Runtime \<Rightarrow> Runtime res" where
  "exec r Finish st =
     Routine_Return (st\<lparr>free_list := insort r (free_list st), active_list := remove1 r (active_list st)\<rparr>) AtLoop"
| "exec r (WaitRead p ms k) st =
     fbind (use_park st p) (\<lambda>st.
     wait_return (st\<lparr>read_routine := (read_routine st)(p := rt_current st)\<rparr>) ms (AfterRead p (ms \<noteq> None) k))"
| "exec r (WaitWrite p ms k) st =
     fbind (use_park st p) (\<lambda>st.
     wait_return (st\<lparr>write_routine := (write_routine st)(p := rt_current st)\<rparr>) ms (AfterWrite p (ms \<noteq> None) k))"
| "exec r (CheckTicks t) st =
     fbind (assert_that (\<not> is_main_routine st)) (\<lambda>_.
     let (full, c) = Tick (routines st r); st = upd_routine st r (\<lambda>_. c) in
     if full then Routine_Return (queue_call st (rt_current st)) (AfterTick t) else exec r t st)"
| "exec r (Spawn t nm k) st = exec r k (queue_function st (FStart t nm))"
| "exec r (SchedRead p k) st = fbind (use_park st p) (\<lambda>st. exec r k (queue_call st (read_routine st p)))"
| "exec r (SchedWrite p k) st = fbind (use_park st p) (\<lambda>st. exec r k (queue_call st (write_routine st p)))"
| "exec r (ClosePark p k) st = exec r k (st\<lparr>park_live := (park_live st)(p := False)\<rparr>)"

text \<open>One round of \<open>RoutinePool::RoutineProcess\<close>.\<close>

definition RoutineProcess :: "nat \<Rightarrow> Runtime \<Rightarrow> Runtime res" where
  "RoutineProcess r st =
     fbind (assert_that (r \<in> set (free_list st))) (\<lambda>_.
     fbind (assert_that (r \<notin> set (active_list st))) (\<lambda>_.
     case rt_tasks st of
       [] \<Rightarrow> Inl AssertFail
     | t # ts \<Rightarrow>
         exec r t (st\<lparr>rt_tasks := ts, active_list := insort r (active_list st), free_list := remove1 r (free_list st)\<rparr>)))"

text \<open>After the switch back: a timed wait stops the timer and reads the flag, then the park forgets the coroutine.\<close>

definition timed_wakeup :: "Runtime \<Rightarrow> nat \<Rightarrow> bool \<Rightarrow> bool \<times> Runtime" where
  "timed_wakeup st r timed =
     (if timed then (timeout (routines st r), upd_routine st r (\<lambda>c. c\<lparr>timer_ms := None\<rparr>)) else (False, st))"

text \<open>\<open>Routine::Call\<close>.\<close>

definition resume :: "nat \<Rightarrow> Runtime \<Rightarrow> Runtime res" where
  "resume r st =
     (if \<not> is_main_routine st then Inl Fatal
      else
        let st = st\<lparr>rt_current := Some r\<rparr> in
        case stopped (routines st r) of
          AtLoop \<Rightarrow> RoutineProcess r st
        | AfterRead p timed k \<Rightarrow>
            (let (flag, st) = timed_wakeup st r timed in
             fbind (use_park st p) (\<lambda>st. exec r (k flag) (st\<lparr>read_routine := (read_routine st)(p := None)\<rparr>)))
        | AfterWrite p timed k \<Rightarrow>
            (let (flag, st) = timed_wakeup st r timed in
             fbind (use_park st p) (\<lambda>st. exec r (k flag) (st\<lparr>write_routine := (write_routine st)(p := None)\<rparr>)))
        | AfterTick t \<Rightarrow> exec r t st)"

definition OnTimer :: "nat \<Rightarrow> Runtime \<Rightarrow> Runtime res" where
  "OnTimer r st = resume r (upd_routine st r (\<lambda>c. c\<lparr>timeout := True\<rparr>))"

definition RoutinePool_new :: "nat \<Rightarrow> Runtime" where
  "RoutinePool_new poolsize =
     \<lparr>rt_current = None, routines = (\<lambda>_. Routine_new), free_list = [1..<Suc poolsize], active_list = [], rt_tasks = [],
      loop_functions = [], read_routine = (\<lambda>_. None), write_routine = (\<lambda>_. None), park_live = (\<lambda>_. True)\<rparr>"

text \<open>The loop of \<open>RoutinePool::Start\<close>; the fuel is the number of tasks, each round takes one.\<close>

fun start_loop :: "nat \<Rightarrow> byte list \<Rightarrow> Runtime \<Rightarrow> Runtime res" where
  "start_loop fuel nm st =
     (if rt_tasks st \<noteq> [] \<and> free_list st \<noteq> [] then
        (case fuel of
           0 \<Rightarrow> Inl Diverge
         | Suc n \<Rightarrow>
             let r = hd (free_list st) in
             fbind (resume r (upd_routine st r (\<lambda>c. c\<lparr>routine_name := nm\<rparr>))) (start_loop n nm))
      else Inr st)"

declare start_loop.simps [simp del]

definition RoutinePool_Start :: "task \<Rightarrow> byte list \<Rightarrow> Runtime \<Rightarrow> Runtime res" where
  "RoutinePool_Start t nm st =
     (let st = st\<lparr>rt_tasks := rt_tasks st @ [t]\<rparr> in start_loop (length (rt_tasks st)) nm st)"

definition call_function :: "loop_fn \<Rightarrow> Runtime \<Rightarrow> Runtime res" where
  "call_function f st = (case f of FCall r \<Rightarrow> resume r st | FStart t nm \<Rightarrow> RoutinePool_Start t nm st)"

definition RunInLoop :: "loop_fn \<Rightarrow> Runtime \<Rightarrow> Runtime res" where
  "RunInLoop f st = (if is_main_routine st then call_function f st else Inr (queue_function st f))"

definition RunRoutineInLoop :: "nat option \<Rightarrow> Runtime \<Rightarrow> Runtime res" where
  "RunRoutineInLoop q st = (case q of None \<Rightarrow> Inr st | Some r \<Rightarrow> RunInLoop (FCall r) st)"

definition EventLoop_Do :: "task \<Rightarrow> byte list \<Rightarrow> Runtime \<Rightarrow> Runtime res" where
  "EventLoop_Do t nm st = RunInLoop (FStart t nm) st"

definition EPOLLIN :: u32 where "EPOLLIN = 0x001"
definition EPOLLPRI :: u32 where "EPOLLPRI = 0x002"
definition EPOLLOUT :: u32 where "EPOLLOUT = 0x004"
definition EPOLLERR :: u32 where "EPOLLERR = 0x008"
definition EPOLLHUP :: u32 where "EPOLLHUP = 0x010"
definition EPOLLRDHUP :: u32 where "EPOLLRDHUP = 0x2000"

definition ScheduleRead :: "nat \<Rightarrow> Runtime \<Rightarrow> Runtime res" where
  "ScheduleRead p st = fbind (use_park st p) (\<lambda>st. RunRoutineInLoop (read_routine st p) st)"

definition ScheduleWrite :: "nat \<Rightarrow> Runtime \<Rightarrow> Runtime res" where
  "ScheduleWrite p st = fbind (use_park st p) (\<lambda>st. RunRoutineInLoop (write_routine st p) st)"

definition Schedule :: "nat \<times> u32 \<Rightarrow> Runtime \<Rightarrow> Runtime res" where
  "Schedule ev st =
     (case ev of (p, events) \<Rightarrow>
      fbind (assert_that (is_main_routine st)) (\<lambda>_.
      fbind (use_park st p) (\<lambda>st.
      fbind (if events AND (EPOLLIN OR EPOLLPRI OR EPOLLRDHUP OR EPOLLHUP OR EPOLLERR) \<noteq> 0
             then ScheduleRead p st else Inr st) (\<lambda>st.
      if events AND (EPOLLOUT OR EPOLLHUP OR EPOLLERR) \<noteq> 0 then ScheduleWrite p st else Inr st))))"

definition epoll_event_string :: "u32 \<Rightarrow> byte list" where
  "epoll_event_string events =
     (let s = concat (map (\<lambda>(b, t). if events AND b \<noteq> 0 then t else [])
        [(EPOLLIN, str '' EPOLLIN''), (EPOLLOUT, str '' EPOLLOUT''), (EPOLLPRI, str '' EPOLLPRI''),
         (EPOLLRDHUP, str '' EPOLLRDHUP''), (EPOLLHUP, str '' EPOLLHUP''), (EPOLLERR, str '' EPOLLERR'')]) in
      if s = [] then str '' EMPTY '' else s @ str '' '')"

fun fold_res :: "('a \<Rightarrow> 's \<Rightarrow> 's res) \<Rightarrow> 'a list \<Rightarrow> 's \<Rightarrow> 's res" where
  "fold_res f [] st = Inr st"
| "fold_res f (x # xs) st = fbind (f x st) (fold_res f xs)"

text \<open>
  One iteration of \<open>EventLoop::Start\<close>: the queued functions, the events that
  \<open>epoll_wait\<close> reports, and the coroutines whose timers the wheel fires.
\<close>

definition loop_iteration :: "(nat \<times> u32) list \<Rightarrow> nat list \<Rightarrow> Runtime \<Rightarrow> Runtime res" where
  "loop_iteration events timers st =
     fbind (fold_res call_function (loop_functions st) (st\<lparr>loop_functions := []\<rparr>)) (\<lambda>st.
     fbind (fold_res Schedule events st) (\<lambda>st.
     fold_res (\<lambda>r st. if timer_ms (routines st r) \<noteq> None then OnTimer r st else Inr st) timers st))"


text \<open>What reaches the loop from outside: a call of \<open>EventLoop::Do\<close>, or an iteration with its events and expired timers.\<close>

datatype input = IDo task "byte list" | IIter "(nat \<times> u32) list" "nat list"

definition input_step :: "input \<Rightarrow> Runtime \<Rightarrow> Runtime res" where
  "input_step i st = (case i of IDo t nm \<Rightarrow> EventLoop_Do t nm st | IIter evs tms \<Rightarrow> loop_iteration evs tms st)"

definition run_loop :: "nat \<Rightarrow> input list \<Rightarrow> Runtime res" where
  "run_loop poolsize is = fold_res input_step is (RoutinePool_new poolsize)"

section \<open>The invariant\<close>

text \<open>Tasks that do not wake coroutines themselves; \<open>c\<close> says whether they may destroy parks.\<close>

primrec plain :: "bool \<Rightarrow> task \<Rightarrow> bool" where
  "plain c Finish \<longleftrightarrow> True"
| "plain c (WaitRead p ms k) \<longleftrightarrow> (\<forall>b. plain c (k b))"
| "plain c (WaitWrite p ms k) \<longleftrightarrow> (\<forall>b. plain c (k b))"
| "plain c (CheckTicks t) \<longleftrightarrow> plain c t"
| "plain c (Spawn t nm k) \<longleftrightarrow> plain c t \<and> plain c k"
| "plain c (SchedRead p k) \<longleftrightarrow> False"
| "plain c (SchedWrite p k) \<longleftrightarrow> False"
| "plain c (ClosePark p k) \<longleftrightarrow> c \<and> plain c k"

fun plain_stop :: "bool \<Rightarrow> stop \<Rightarrow> bool" where
  "plain_stop c AtLoop \<longleftrightarrow> True"
| "plain_stop c (AfterRead p timed k) \<longleftrightarrow> (\<forall>b. plain c (k b))"
| "plain_stop c (AfterWrite p timed k) \<longleftrightarrow> (\<forall>b. plain c (k b))"
| "plain_stop c (AfterTick t) \<longleftrightarrow> plain c t"

fun plain_fn :: "bool \<Rightarrow> loop_fn \<Rightarrow> bool" where
  "plain_fn c (FCall r) \<longleftrightarrow> True"
| "plain_fn c (FStart t nm) \<longleftrightarrow> plain c t"

fun plain_input :: "bool \<Rightarrow> input \<Rightarrow> bool" where
  "plain_input c (IDo t nm) \<longleftrightarrow> plain c t"
| "plain_input c (IIter evs tms) \<longleftrightarrow> True"

fun waits_read :: "stop \<Rightarrow> nat \<Rightarrow> bool" where
  "waits_read (AfterRead q timed k) p \<longleftrightarrow> q = p"
| "waits_read s p \<longleftrightarrow> False"

fun waits_write :: "stop \<Rightarrow> nat \<Rightarrow> bool" where
  "waits_write (AfterWrite q timed k) p \<longleftrightarrow> q = p"
| "waits_write s p \<longleftrightarrow> False"

fun timed_wait :: "stop \<Rightarrow> bool" where
  "timed_wait (AfterRead p timed k) \<longleftrightarrow> timed"
| "timed_wait (AfterWrite p timed k) \<longleftrightarrow> timed"
| "timed_wait s \<longleftrightarrow> False"

fun yielded :: "stop \<Rightarrow> bool" where
  "yielded (AfterTick t) \<longleftrightarrow> True"
| "yielded s \<longleftrightarrow> False"

fun calls :: "loop_fn list \<Rightarrow> nat list" where
  "calls [] = []"
| "calls (FCall r # fs) = r # calls fs"
| "calls (FStart t nm # fs) = calls fs"

text \<open>
  The coroutines are split between the two lists; the ones of the pool wait at
  the loop head, the active ones elsewhere; a call is queued exactly for those
  that yielded; parks and timers point only to coroutines that wait there.
\<close>

definition lists_ok :: "nat \<Rightarrow> Runtime \<Rightarrow> bool" where
  "lists_ok n st \<longleftrightarrow> sorted_wrt (<) (free_list st) \<and> sorted_wrt (<) (active_list st) \<and>
     set (free_list st) \<inter> set (active_list st) = {} \<and> set (free_list st) \<union> set (active_list st) = {1..n}"

definition plain_ok :: "bool \<Rightarrow> loop_fn list \<Rightarrow> Runtime \<Rightarrow> bool" where
  "plain_ok c pend st \<longleftrightarrow> (\<forall>r. plain_stop c (stopped (routines st r))) \<and> list_all (plain c) (rt_tasks st) \<and>
     list_all (plain_fn c) (pend @ loop_functions st) \<and> (c \<or> (\<forall>p. park_live st p))"

definition idle :: "Runtime \<Rightarrow> nat \<Rightarrow> bool" where
  "idle st r \<longleftrightarrow> r \<in> set (active_list st) \<and> rt_current st \<noteq> Some r"

definition stops_ok :: "loop_fn list \<Rightarrow> Runtime \<Rightarrow> bool" where
  "stops_ok pend st \<longleftrightarrow>
     (\<forall>r \<in> set (free_list st). stopped (routines st r) = AtLoop) \<and>
     (\<forall>r. idle st r \<longrightarrow> stopped (routines st r) \<noteq> AtLoop) \<and>
     distinct (calls (pend @ loop_functions st)) \<and>
     (\<forall>r. r \<in> set (calls (pend @ loop_functions st)) \<longleftrightarrow> idle st r \<and> yielded (stopped (routines st r))) \<and>
     (\<forall>r. timer_ms (routines st r) \<noteq> None \<longrightarrow> idle st r \<and> timed_wait (stopped (routines st r)))"

definition parks_ok :: "Runtime \<Rightarrow> bool" where
  "parks_ok st \<longleftrightarrow>
     (\<forall>p r. read_routine st p = Some r \<longrightarrow> idle st r \<and> waits_read (stopped (routines st r)) p) \<and>
     (\<forall>p r. write_routine st p = Some r \<longrightarrow> idle st r \<and> waits_write (stopped (routines st r)) p)"

definition rt_ok :: "bool \<Rightarrow> nat \<Rightarrow> loop_fn list \<Rightarrow> Runtime \<Rightarrow> bool" where
  "rt_ok c n pend st \<longleftrightarrow> lists_ok n st \<and> plain_ok c pend st \<and> stops_ok pend st \<and> parks_ok st \<and>
     (\<forall>r. rt_current st = Some r \<longrightarrow> r \<in> set (active_list st))"

text \<open>The outcome of a step: the invariant in the main coroutine, or the use of a destroyed park.\<close>

definition good :: "bool \<Rightarrow> nat \<Rightarrow> loop_fn list \<Rightarrow> Runtime res \<Rightarrow> bool" where
  "good c n pend res \<longleftrightarrow> (case res of Inl e \<Rightarrow> c \<and> e = BadPointer | Inr st \<Rightarrow> rt_ok c n pend st \<and> rt_current st = None)"

lemmas rt_ok_defs = rt_ok_def lists_ok_def plain_ok_def stops_ok_def parks_ok_def idle_def

section \<open>Preservation\<close>

lemma calls_append [simp]: "calls (fs @ gs) = calls fs @ calls gs"
  by (induction fs rule: calls.induct) auto

lemma good_simps [simp]:
  "good c n pend (Inl e) \<longleftrightarrow> c \<and> e = BadPointer"
  "good c n pend (Inr st) \<longleftrightarrow> rt_ok c n pend st \<and> rt_current st = None"
  by (simp_all add: good_def)

lemma good_bind:
  assumes "good c n pend res" and "\<And>st. \<lbrakk>rt_ok c n pend st; rt_current st = None\<rbrakk> \<Longrightarrow> good c n pend' (f st)"
  shows "good c n pend' (fbind res f)"
  using assms by (cases res) (auto simp: good_def)

lemma sorted_insort_remove:
  fixes xs :: "nat list"
  assumes "sorted_wrt (<) xs"
  shows "sorted_wrt (<) (remove1 r xs)" and "r \<notin> set xs \<Longrightarrow> sorted_wrt (<) (insort r xs)"
    and "set (remove1 r xs) = set xs - {r}"
  using assms by (auto simp: strict_sorted_iff sorted_remove1 distinct_insort sorted_insort)

lemma use_park_cases: "use_park st p = Inr st \<or> use_park st p = Inl BadPointer \<and> \<not> park_live st p"
  by (simp add: use_park_def)

lemma rt_ok_live: "rt_ok c n pend st \<Longrightarrow> \<not> park_live st p \<Longrightarrow> c"
  by (auto simp: rt_ok_def plain_ok_def)

lemma rt_ok_pointers:
  assumes "rt_ok c n pend st"
  shows "read_routine st p = Some r \<Longrightarrow> r \<in> set (active_list st) \<and> waits_read (stopped (routines st r)) p"
    and "write_routine st p = Some r \<Longrightarrow> r \<in> set (active_list st) \<and> waits_write (stopped (routines st r)) p"
    and "timer_ms (routines st r) = Some ms \<Longrightarrow> r \<in> set (active_list st) \<and> timed_wait (stopped (routines st r))"
  using assms by (auto simp: rt_ok_def parks_ok_def stops_ok_def idle_def)

lemma good_use_park:
  assumes "rt_ok c n pend st" and "good c n pend' (f st)"
  shows "good c n pend' (fbind (use_park st p) f)"
  using use_park_cases [of st p] assms rt_ok_live [OF assms(1), of p] by (auto simp: good_def)

lemma exec_Finish_ok:
  assumes "rt_ok c n pend st" and cur: "rt_current st = Some r"
  shows "good c n pend (exec r Finish st)"
proof -
  have act: "r \<in> set (active_list st)" "r \<notin> set (free_list st)" and srt: "sorted_wrt (<) (free_list st)" "sorted_wrt (<) (active_list st)"
    using assms by (auto simp: rt_ok_defs)
  note sets = sorted_insort_remove [OF srt(1)] sorted_insort_remove [OF srt(2)]
  show ?thesis
    using assms act sets by (auto simp: good_def Routine_Return_def upd_routine_def rt_ok_defs set_insort_key)
qed

lemma exec_ok:
  "\<lbrakk>rt_ok c n pend st; rt_current st = Some r; plain c t\<rbrakk> \<Longrightarrow> good c n pend (exec r t st)"
proof (induction t arbitrary: st)
  case Finish
  then show ?case by (simp only: exec_Finish_ok)
next
  case (WaitRead p ms k)
  then have "good c n pend (wait_return (st\<lparr>read_routine := (read_routine st)(p := Some r)\<rparr>) ms (AfterRead p (ms \<noteq> None) k))"
    by (cases ms) (auto simp: good_def wait_return_def Routine_Return_timed_def Routine_Return_def upd_routine_def rt_ok_defs)
  then show ?case using WaitRead by (simp add: good_use_park)
next
  case (WaitWrite p ms k)
  then have "good c n pend (wait_return (st\<lparr>write_routine := (write_routine st)(p := Some r)\<rparr>) ms (AfterWrite p (ms \<noteq> None) k))"
    by (cases ms) (auto simp: good_def wait_return_def Routine_Return_timed_def Routine_Return_def upd_routine_def rt_ok_defs)
  then show ?case using WaitWrite by (simp add: good_use_park)
next
  case (CheckTicks t)
  obtain full ch where tk: "Tick (routines st r) = (full, ch)" by (cases "Tick (routines st r)")
  have same: "stopped ch = stopped (routines st r)" "timer_ms ch = timer_ms (routines st r)"
    using tk by (auto simp: Tick_def Let_def split: if_splits)
  have ok: "rt_ok c n pend (upd_routine st r (\<lambda>_. ch))"
    using CheckTicks.prems same by (auto simp: rt_ok_defs upd_routine_def)
  have "good c n pend (Routine_Return (queue_call (upd_routine st r (\<lambda>_. ch)) (Some r)) (AfterTick t))"
    using CheckTicks.prems same
    by (auto simp: good_def Routine_Return_def queue_call_def queue_function_def upd_routine_def rt_ok_defs)
  then show ?case
    using CheckTicks ok tk by (auto simp: is_main_routine_def upd_routine_def Let_def)
next
  case (Spawn t nm k)
  have "rt_ok c n pend (queue_function st (FStart t nm))"
    using Spawn.prems by (auto simp: rt_ok_defs queue_function_def)
  then show ?case using Spawn by (simp add: queue_function_def)
next
  case (ClosePark p k)
  have "rt_ok c n pend (st\<lparr>park_live := (park_live st)(p := False)\<rparr>)"
    using ClosePark.prems by (auto simp: rt_ok_defs)
  then have "good c n pend (exec r k (st\<lparr>park_live := (park_live st)(p := False)\<rparr>))"
    using ClosePark.prems by (intro ClosePark.IH) auto
  then show ?case by simp
qed (simp_all)


lemma exec_tasks: "exec r t st = Inr st' \<Longrightarrow> rt_tasks st' = rt_tasks st"
  by (induction t arbitrary: st)
    (auto simp: Routine_Return_def wait_return_def Routine_Return_timed_def queue_call_def queue_function_def use_park_def
      upd_routine_def Let_def fbind_Inr_iff split: option.splits if_splits prod.splits)

text \<open>A waiting coroutine that is resumed forgets its timer and is forgotten by the park.\<close>

lemma wake_ok:
  assumes ok: "rt_ok c n pend st" and cur: "rt_current st = None" and act: "r \<in> set (active_list st)"
    and ny: "\<not> yielded (stopped (routines st r))"
    and rr: "\<And>p q. rr p = Some q \<Longrightarrow> read_routine st p = Some q \<and> q \<noteq> r"
    and ww: "\<And>p q. ww p = Some q \<Longrightarrow> write_routine st p = Some q \<and> q \<noteq> r"
  shows "rt_ok c n pend (st\<lparr>rt_current := Some r, routines := (routines st)(r := (routines st r)\<lparr>timer_ms := None\<rparr>),
           read_routine := rr, write_routine := ww\<rparr>)" (is "rt_ok c n pend ?st")
proof -
  have "lists_ok n ?st" using ok by (simp add: rt_ok_def lists_ok_def)
  moreover have "plain_ok c pend ?st" using ok by (auto simp: rt_ok_def plain_ok_def)
  moreover have "stops_ok pend ?st"
    using ok cur act ny by (auto simp: rt_ok_def stops_ok_def idle_def lists_ok_def)
  moreover have "parks_ok ?st"
    using rt_ok_pointers [OF ok] rr ww by (fastforce simp: parks_ok_def idle_def)
  ultimately show ?thesis using act by (simp add: rt_ok_def)
qed

lemma resume_wait_ok:
  assumes ok: "rt_ok c n pend st" and cur: "rt_current st = None" and act: "r \<in> set (active_list st)"
    and ny: "\<not> yielded (stopped (routines st r))"
  shows "good c n pend (resume r st)"
proof -
  let ?r = "(routines st r)\<lparr>timer_ms := None\<rparr>"
  let ?s = "st\<lparr>rt_current := Some r\<rparr>"
  have tm: "timer_ms (routines st r) = None \<Longrightarrow> (routines st)(r := ?r) = routines st"
    by (rule ext) (cases "routines st r", simp)
  have rw: "read_routine st q = Some r' \<longrightarrow> waits_read (stopped (routines st r')) q"
    "write_routine st q = Some r' \<longrightarrow> waits_write (stopped (routines st r')) q" for q r'
    using ok by (auto simp: rt_ok_def parks_ok_def)
  have pl: "plain_stop c (stopped (routines st r))" and tw: "timer_ms (routines st r) \<noteq> None \<Longrightarrow> timed_wait (stopped (routines st r))"
    using ok by (auto simp: rt_ok_def plain_ok_def stops_ok_def)
  have untimed: "st\<lparr>rt_current := Some r, routines := (routines st)(r := ?r), read_routine := x\<rparr> = ?s\<lparr>read_routine := x\<rparr>"
    "st\<lparr>rt_current := Some r, routines := (routines st)(r := ?r), write_routine := x\<rparr> = ?s\<lparr>write_routine := x\<rparr>"
    if "\<not> timed_wait (stopped (routines st r))" for x
    using that tm tw by (cases st; auto)+
  have "stopped (routines st r) \<noteq> AtLoop" using ok cur act by (auto simp: rt_ok_defs)
  then consider (R) p timed k where "stopped (routines st r) = AfterRead p timed k"
    | (W) p timed k where "stopped (routines st r) = AfterWrite p timed k"
    using ny by (cases "stopped (routines st r)") auto
  then show ?thesis
  proof cases
    case R
    have "rt_ok c n pend (st\<lparr>rt_current := Some r, routines := (routines st)(r := ?r),
        read_routine := (read_routine st)(p := None), write_routine := write_routine st\<rparr>)"
      using R rw by (intro wake_ok [OF ok cur act ny]) (fastforce split: if_splits)+
    then have g: "good c n pend (exec r (k b) (st\<lparr>rt_current := Some r, routines := (routines st)(r := ?r),
        read_routine := (read_routine st)(p := None)\<rparr>))" for b
      using pl R exec_ok by auto
    have "good c n pend (exec r (k b) ((if timed then upd_routine ?s r (\<lambda>c. c\<lparr>timer_ms := None\<rparr>) else ?s)
        \<lparr>read_routine := (read_routine st)(p := None)\<rparr>))" for b
      using untimed g [of b] R by (cases timed) (simp_all add: upd_routine_def)
    then show ?thesis
      using R cur rt_ok_live [OF ok, of p]
      by (cases timed; cases "park_live st p")
        (simp_all add: resume_def is_main_routine_def timed_wakeup_def use_park_def upd_routine_def Let_def)
  next
    case W
    have "rt_ok c n pend (st\<lparr>rt_current := Some r, routines := (routines st)(r := ?r),
        read_routine := read_routine st, write_routine := (write_routine st)(p := None)\<rparr>)"
      using W rw by (intro wake_ok [OF ok cur act ny]) (fastforce split: if_splits)+
    then have g: "good c n pend (exec r (k b) (st\<lparr>rt_current := Some r, routines := (routines st)(r := ?r),
        write_routine := (write_routine st)(p := None)\<rparr>))" for b
      using pl W exec_ok by auto
    have "good c n pend (exec r (k b) ((if timed then upd_routine ?s r (\<lambda>c. c\<lparr>timer_ms := None\<rparr>) else ?s)
        \<lparr>write_routine := (write_routine st)(p := None)\<rparr>))" for b
      using untimed g [of b] W by (cases timed) (simp_all add: upd_routine_def)
    then show ?thesis
      using W cur rt_ok_live [OF ok, of p]
      by (cases timed; cases "park_live st p")
        (simp_all add: resume_def is_main_routine_def timed_wakeup_def use_park_def upd_routine_def Let_def)
  qed
qed

lemma resume_tick_ok:
  assumes ok: "rt_ok c n (FCall r # pend) st" and cur: "rt_current st = None"
  shows "good c n pend (resume r st)"
proof -
  have act: "r \<in> set (active_list st)" and y: "yielded (stopped (routines st r))"
    using ok cur by (auto simp: rt_ok_defs)
  then obtain t where t: "stopped (routines st r) = AfterTick t" by (cases "stopped (routines st r)") auto
  have "timer_ms (routines st r) = None" "read_routine st p \<noteq> Some r" "write_routine st p \<noteq> Some r" for p
    using rt_ok_pointers [OF ok] t by fastforce+
  moreover have "ra \<in> set (calls (pend @ loop_functions st)) \<longleftrightarrow> ra \<noteq> r \<and> ra \<in> set (active_list st) \<and> yielded (stopped (routines st ra))" for ra
    using ok cur by (auto simp: rt_ok_def stops_ok_def idle_def dest!: spec [of _ ra])
  ultimately have "rt_ok c n pend (st\<lparr>rt_current := Some r\<rparr>)"
    using ok cur act t by (auto simp: rt_ok_def lists_ok_def plain_ok_def stops_ok_def idle_def parks_ok_def)
  moreover have "plain c t" using ok t by (auto simp: rt_ok_def plain_ok_def dest: spec [of _ r])
  ultimately have "good c n pend (exec r t (st\<lparr>rt_current := Some r\<rparr>))" by (intro exec_ok) auto
  then show ?thesis using t cur by (simp add: resume_def is_main_routine_def Let_def)
qed

lemma resume_free_ok:
  assumes ok: "rt_ok c n pend st" and cur: "rt_current st = None" and fr: "r \<in> set (free_list st)" and tk: "rt_tasks st = t # ts"
  shows "good c n pend (resume r st)" and "resume r st = Inr st' \<Longrightarrow> rt_tasks st' = ts"
proof -
  let ?st = "st\<lparr>rt_current := Some r, rt_tasks := ts, active_list := insort r (active_list st), free_list := remove1 r (free_list st)\<rparr>"
  have srt: "sorted_wrt (<) (free_list st)" "sorted_wrt (<) (active_list st)" and na: "r \<notin> set (active_list st)"
    and s: "stopped (routines st r) = AtLoop"
    using ok fr by (auto simp: rt_ok_defs)
  note sets = sorted_insort_remove [OF srt(1)] sorted_insort_remove [OF srt(2)]
  have "rt_ok c n pend ?st"
    using ok cur fr tk na sets by (auto simp: rt_ok_defs set_insort_key)
  moreover have "plain c t" using ok tk by (simp add: rt_ok_def plain_ok_def)
  ultimately have "good c n pend (exec r t ?st)" by (intro exec_ok) auto
  moreover have eq: "resume r st = exec r t ?st"
    using fr na s tk cur by (simp add: resume_def is_main_routine_def RoutineProcess_def)
  ultimately show "good c n pend (resume r st)" by simp
  show "resume r st = Inr st' \<Longrightarrow> rt_tasks st' = ts" using eq exec_tasks by fastforce
qed


lemma start_loop_ok:
  "\<lbrakk>rt_ok c n pend st; rt_current st = None; length (rt_tasks st) \<le> fuel\<rbrakk> \<Longrightarrow> good c n pend (start_loop fuel nm st)"
proof (induction fuel arbitrary: st)
  case 0
  then show ?case by (simp add: start_loop.simps)
next
  case (Suc m)
  show ?case
  proof (cases "rt_tasks st \<noteq> [] \<and> free_list st \<noteq> []")
    case True
    then obtain t ts r rs where t: "rt_tasks st = t # ts" and r: "free_list st = r # rs" by (meson neq_Nil_conv)
    let ?st = "upd_routine st r (\<lambda>c. c\<lparr>routine_name := nm\<rparr>)"
    have ok: "rt_ok c n pend ?st" using Suc.prems by (auto simp: rt_ok_defs upd_routine_def)
    have st: "rt_current ?st = None" "r \<in> set (free_list ?st)" "rt_tasks ?st = t # ts"
      using Suc.prems t r by (auto simp: upd_routine_def)
    have "good c n pend (fbind (resume r ?st) (start_loop m nm))"
      using resume_free_ok [OF ok st] Suc.IH Suc.prems(3) t
      by (cases "resume r ?st") auto
    then show ?thesis using t r by (subst start_loop.simps) simp
  next
    case False
    then show ?thesis using Suc.prems by (subst start_loop.simps) auto
  qed
qed

lemma Start_ok:
  assumes "rt_ok c n pend st" and "rt_current st = None" and "plain c t"
  shows "good c n pend (RoutinePool_Start t nm st)"
  unfolding RoutinePool_Start_def Let_def
  by (rule start_loop_ok) (use assms in \<open>auto simp: rt_ok_defs\<close>)

lemma call_function_ok:
  assumes "rt_ok c n (f # pend) st" and "rt_current st = None"
  shows "good c n pend (call_function f st)"
proof (cases f)
  case (FCall r)
  then show ?thesis using resume_tick_ok assms by (simp add: call_function_def)
next
  case (FStart t nm)
  have "rt_ok c n pend st" "plain c t" using assms FStart by (auto simp: rt_ok_defs)
  then show ?thesis using FStart assms by (simp add: call_function_def Start_ok)
qed

lemma functions_ok:
  "\<lbrakk>rt_ok c n fs st; rt_current st = None\<rbrakk> \<Longrightarrow> good c n [] (fold_res call_function fs st)"
  by (induction fs arbitrary: st) (auto intro: good_bind call_function_ok)

lemma RunRoutine_ok:
  assumes "rt_ok c n pend st" and "rt_current st = None"
    and "\<And>r. q = Some r \<Longrightarrow> r \<in> set (active_list st) \<and> \<not> yielded (stopped (routines st r))"
  shows "good c n pend (RunRoutineInLoop q st)"
  using assms by (cases q)
    (auto simp: RunRoutineInLoop_def RunInLoop_def is_main_routine_def call_function_def intro: resume_wait_ok)

lemma waits_not_yielded: "waits_read s p \<Longrightarrow> \<not> yielded s" "waits_write s p \<Longrightarrow> \<not> yielded s" "timed_wait s \<Longrightarrow> \<not> yielded s"
  by (cases s; simp)+

lemma Schedule_ok:
  assumes "rt_ok c n pend st" and "rt_current st = None"
  shows "good c n pend (Schedule ev st)"
proof -
  have R: "good c n pend (ScheduleRead p s)" and W: "good c n pend (ScheduleWrite p s)"
    if "rt_ok c n pend s" "rt_current s = None" for p s
    using that rt_ok_pointers [OF that(1)] waits_not_yielded unfolding ScheduleRead_def ScheduleWrite_def
    by (auto intro!: good_use_park RunRoutine_ok) blast+
  obtain p e where ev: "ev = (p, e)" by (cases ev)
  have "good c n pend (fbind (if e AND (EPOLLIN OR EPOLLPRI OR EPOLLRDHUP OR EPOLLHUP OR EPOLLERR) \<noteq> 0 then ScheduleRead p st else Inr st)
     (\<lambda>st. if e AND (EPOLLOUT OR EPOLLHUP OR EPOLLERR) \<noteq> 0 then ScheduleWrite p st else Inr st))"
    by (rule good_bind [of c n pend]) (use assms R W in auto)
  then show ?thesis
    using assms good_use_park [OF assms(1)] by (simp add: Schedule_def ev is_main_routine_def)
qed

lemma Schedules_ok:
  "\<lbrakk>rt_ok c n pend st; rt_current st = None\<rbrakk> \<Longrightarrow> good c n pend (fold_res Schedule evs st)"
  by (induction evs arbitrary: st) (auto intro: good_bind Schedule_ok)

lemma OnTimer_ok:
  assumes ok: "rt_ok c n pend st" and "rt_current st = None" and tm: "timer_ms (routines st r) \<noteq> None"
  shows "good c n pend (OnTimer r st)"
proof -
  have "r \<in> set (active_list st)" "timed_wait (stopped (routines st r))"
    using rt_ok_pointers(3) [OF ok] tm by auto
  moreover have "rt_ok c n pend (upd_routine st r (\<lambda>c. c\<lparr>timeout := True\<rparr>))"
    using ok by (auto simp: rt_ok_defs upd_routine_def)
  ultimately show ?thesis
    unfolding OnTimer_def using assms waits_not_yielded by (intro resume_wait_ok) (auto simp: upd_routine_def)
qed

lemma timers_ok:
  "\<lbrakk>rt_ok c n pend st; rt_current st = None\<rbrakk> \<Longrightarrow>
     good c n pend (fold_res (\<lambda>r st. if timer_ms (routines st r) \<noteq> None then OnTimer r st else Inr st) tms st)"
  by (induction tms arbitrary: st) (auto intro!: good_bind [of c n pend] OnTimer_ok)

lemma loop_iteration_ok:
  assumes "rt_ok c n [] st" and "rt_current st = None"
  shows "good c n [] (loop_iteration evs tms st)"
proof -
  have "rt_ok c n (loop_functions st) (st\<lparr>loop_functions := []\<rparr>)"
    using assms by (auto simp: rt_ok_defs)
  then have "good c n [] (fold_res call_function (loop_functions st) (st\<lparr>loop_functions := []\<rparr>))"
    using assms by (intro functions_ok) auto
  then show ?thesis
    unfolding loop_iteration_def by (rule good_bind) (rule good_bind, rule Schedules_ok, assumption+, rule timers_ok)
qed

lemma input_step_ok:
  assumes "rt_ok c n [] st" and "rt_current st = None" and "plain_input c i"
  shows "good c n [] (input_step i st)"
  using assms by (cases i)
    (auto simp: input_step_def EventLoop_Do_def RunInLoop_def is_main_routine_def call_function_def Start_ok intro: loop_iteration_ok)

lemma new_pool_ok: "rt_ok c n [] (RoutinePool_new n)"
proof -
  have "lists_ok n (RoutinePool_new n)"
    by (auto simp: lists_ok_def RoutinePool_new_def simp del: upt_Suc)
  then show ?thesis
    by (auto simp: rt_ok_def plain_ok_def stops_ok_def parks_ok_def idle_def RoutinePool_new_def Routine_new_def simp del: upt_Suc)
qed

lemma inputs_ok:
  "\<lbrakk>rt_ok c n [] st; rt_current st = None; list_all (plain_input c) is\<rbrakk> \<Longrightarrow> good c n [] (fold_res input_step is st)"
  by (induction "is" arbitrary: st) (auto intro: good_bind input_step_ok)


text \<open>A free coroutine and a task without anything that would start it: no iteration changes that.\<close>

definition stranded :: "task \<Rightarrow> Runtime \<Rightarrow> bool" where
  "stranded t st \<longleftrightarrow> rt_current st = None \<and> rt_tasks st = [t] \<and> free_list st = [1] \<and> loop_functions st = [] \<and>
     read_routine st = (\<lambda>_. None) \<and> write_routine st = (\<lambda>_. None) \<and> (\<forall>r. timer_ms (routines st r) = None) \<and> (\<forall>p. park_live st p)"

lemma stranded_Schedule: "stranded t st \<Longrightarrow> Schedule ev st = Inr st"
  by (cases ev) (simp add: stranded_def Schedule_def ScheduleRead_def ScheduleWrite_def RunRoutineInLoop_def use_park_def is_main_routine_def)

lemma stranded_iteration:
  assumes "stranded t st"
  shows "loop_iteration evs tms st = Inr st"
proof -
  have "loop_functions st = []" "st\<lparr>loop_functions := []\<rparr> = st" using assms by (cases st; simp add: stranded_def)+
  moreover have "fold_res Schedule evs st = Inr st"
    by (induction evs) (simp_all add: stranded_Schedule [OF assms])
  moreover have "fold_res (\<lambda>r st. if timer_ms (routines st r) \<noteq> None then OnTimer r st else Inr st) tms st = Inr st"
    using assms by (induction tms) (simp_all add: stranded_def)
  ultimately show ?thesis by (simp only: loop_iteration_def fold_res.simps fbind_simps)
qed

lemma stranded_run: "stranded t st \<Longrightarrow> fold_res input_step (map (\<lambda>(evs, tms). IIter evs tms) its) st = Inr st"
  by (induction its) (auto simp: input_step_def stranded_iteration)

lemma fold_res_append: "fold_res f (xs @ ys) st = fbind (fold_res f xs st) (fold_res f ys)"
proof (induction xs arbitrary: st)
  case (Cons x xs)
  then show ?case by (cases "f x st") simp_all
qed simp

lemma count_list_distinct: "distinct xs \<Longrightarrow> x \<in> set xs \<Longrightarrow> count_list xs x = 1"
  by (induction xs) auto

lemmas runtime_code = run_loop_def input_step_def EventLoop_Do_def RunInLoop_def is_main_routine_def call_function_def
  RoutinePool_Start_def RoutinePool_new_def Routine_new_def resume_def RoutineProcess_def Routine_Return_def wait_return_def
  upd_routine_def use_park_def loop_iteration_def Schedule_def ScheduleRead_def ScheduleWrite_def RunRoutineInLoop_def
  queue_call_def queue_function_def timed_wakeup_def start_loop.simps
  EPOLLIN_def EPOLLOUT_def EPOLLPRI_def EPOLLRDHUP_def EPOLLHUP_def EPOLLERR_def

section \<open>Properties\<close>



text \<open>C34. When the pool is exhausted a task waits in the list; a coroutine that
  becomes free does not take it: \<open>Start\<close> alone looks at the list. Here the second
  task is still waiting, with the only coroutine free, after any number of further
  iterations.\<close>

theorem waiting_task_is_stranded:
  "\<exists>st. run_loop 1 ([IDo (WaitRead 0 None (\<lambda>_. Finish)) a, IDo t b, IIter [(0, EPOLLIN)] []] @ map (\<lambda>(evs, tms). IIter evs tms) its) = Inr st \<and>
     rt_tasks st = [t] \<and> free_list st = [1]"
proof -
  obtain st where st: "run_loop 1 [IDo (WaitRead 0 None (\<lambda>_. Finish)) a, IDo t b, IIter [(0, EPOLLIN)] []] = Inr st" "stranded t st"
    by (simp add: runtime_code stranded_def)
  then show ?thesis using stranded_run [of t st] unfolding run_loop_def fold_res_append by (auto simp: stranded_def)
qed

text \<open>A server coroutine that wakes on a readable and writable descriptor,
  closes the stream and ends leaves \<open>Schedule\<close> with a destroyed park, whose
  \<open>write_routine_\<close> it then reads.\<close>

theorem Schedule_uses_destroyed_park:
  "run_loop 1 [IDo (WaitRead p None (\<lambda>_. ClosePark p Finish)) nm, IIter [(p, EPOLLIN OR EPOLLOUT)] []] = Inl BadPointer"
  by (simp add: runtime_code)

text \<open>Waking a reader twice from another coroutine queues two calls; when the
  reader ends at the first, the second one enters the loop of the pool without a
  task and fails its assertion.\<close>

theorem double_wakeup_fails_assertion:
  "run_loop 2 [IDo (WaitRead p None (\<lambda>_. Finish)) a, IDo (SchedRead p (SchedRead p Finish)) b, IIter [] []] = Inl AssertFail"
  by (simp add: runtime_code Let_def upt_rec)

end
