(* ===== verification/Logger_Line.thy ===== *)
theory Logger_Line
  imports Civil_Time Routine_Runtime
begin

text \<open>
  \<open>kernel/log/logger.{h,cc}\<close>: one log statement, from the \<open>Logger\<close> that the macro
  constructs, through the items streamed into it, to the destructor that adds the
  place and hands the line to the output function.
\<close>

section \<open>The code\<close>

datatype LogLevel = TRACE | DEBUG | INFO | WARN | ERROR | FATAL

fun level_value :: "LogLevel \<Rightarrow> nat" where
  "level_value TRACE = 0" | "level_value DEBUG = 1" | "level_value INFO = 2"
| "level_value WARN = 3" | "level_value ERROR = 4" | "level_value FATAL = 5"

definition log_level_name :: "byte list list" where
  "log_level_name = [str ''TRACE '', str ''DEBUG '', str ''INFO  '', str ''WARN  '', str ''ERROR '', str ''FATAL '']"

text \<open>The variables a thread has for formatting times, and its name and id.\<close>

record LogThread =
  t_time :: "byte list"
  t_last_second :: int
  t_threadname :: "byte list"
  t_tidstring :: "byte list"

record Logger =
  lg_filename :: "byte list"
  lg_line :: "32 word"
  lg_func :: "byte list"
  lg_level :: LogLevel
  lg_stream :: LogStream

definition FormatTime :: "Timestamp \<Rightarrow> LogThread \<Rightarrow> LogStream \<Rightarrow> (LogThread \<times> LogStream) res" where
  "FormatTime now th stream =
     (let seconds = now div kUsPerSec; us = now mod kUsPerSec in
      fbind (if seconds \<noteq> t_last_second th then
               fbind (snprintf (t_time th) 0 64 (tm_text (gmtime (nat seconds)))) (\<lambda>(m, len).
               fbind (assert_that (len = 17)) (\<lambda>_. Inr (th\<lparr>t_time := m, t_last_second := seconds\<rparr>)))
             else Inr th) (\<lambda>th.
      fbind (Fmt_new (str ''.'' @ zero_padded 6 (nat us) @ str '' '')) (\<lambda>(fmt_us, len).
      fbind (assert_that (len = 8)) (\<lambda>_.
      fbind (put_piece stream (SP_range (t_time th) 0 17)) (\<lambda>stream.
      fbind (put_piece stream (SP_range fmt_us 0 8)) (\<lambda>stream.
      Inr (th, stream)))))))"

text \<open>The items the constructor streams after the time; \<open>strerror\<close> is the message of the C library.\<close>

definition head_items :: "(32 word \<Rightarrow> byte list) \<Rightarrow> LogLevel \<Rightarrow> 32 word \<Rightarrow> log_item list" where
  "head_items strerror level savedErrno =
     LCstr (Some (log_level_name ! level_value level)) #
     (if savedErrno \<noteq> 0 then [LCstr (Some (strerror savedErrno)), LCstr (Some (str '' (errno='')), LInt savedErrno, LCstr (Some (str '') ''))]
      else [])"

definition Logger_new ::
  "(32 word \<Rightarrow> byte list) \<Rightarrow> Timestamp \<Rightarrow> LogThread \<Rightarrow> byte list \<Rightarrow> byte list \<Rightarrow> 32 word \<Rightarrow> byte list \<Rightarrow> LogLevel \<Rightarrow> 32 word \<Rightarrow>
     (LogThread \<times> Logger) res" where
  "Logger_new strerror now th logbuffer filename line func level savedErrno =
     fbind (FormatTime now th (LogStream_new logbuffer)) (\<lambda>(th, stream).
     fbind (put_items stream (head_items strerror level savedErrno)) (\<lambda>stream.
     Inr (th, \<lparr>lg_filename = filename, lg_line = line, lg_func = func, lg_level = level, lg_stream = stream\<rparr>)))"

definition tail_items :: "Runtime \<Rightarrow> LogThread \<Rightarrow> Logger \<Rightarrow> log_item list" where
  "tail_items rt th lg =
     [LCstr (Some (str '' - '')), LCstr (Some (lg_filename lg)), LCstr (Some (str '':'')), LInt (lg_line lg), LCstr (Some (str '':'')),
      LCstr (Some (lg_func lg)), LCstr (Some (str '' - '')), LString (current_routine_name rt), LCstr (Some (str '':'')),
      LULong (word_of_nat (current_routineid rt)), LCstr (Some (str '' - '')), LString (t_threadname th), LCstr (Some (str '':'')),
      LString (t_tidstring th), LCstr (Some [0x0A])]"

text \<open>The destructor: what the output function receives, and whether the process is aborted after a flush.\<close>

definition Logger_delete :: "Runtime \<Rightarrow> LogThread \<Rightarrow> Logger \<Rightarrow> (byte list \<times> bool) res" where
  "Logger_delete rt th lg =
     fbind (put_items (lg_stream lg) (tail_items rt th lg)) (\<lambda>stream.
     fbind (mem_get (LogStream_buffer stream) 0 (LogStream_length stream)) (\<lambda>text.
     Inr (text, lg_level lg = FATAL)))"

text \<open>The macros: the first three levels are filtered, \<open>None\<close> is no output.\<close>

definition level_enabled :: "LogLevel \<Rightarrow> LogLevel \<Rightarrow> bool" where
  "level_enabled loglevel level \<longleftrightarrow> level \<in> {WARN, ERROR, FATAL} \<or> level_value loglevel \<le> level_value level"

definition log_statement ::
  "(32 word \<Rightarrow> byte list) \<Rightarrow> LogLevel \<Rightarrow> Timestamp \<Rightarrow> Runtime \<Rightarrow> LogThread \<Rightarrow> byte list \<Rightarrow> byte list \<Rightarrow> 32 word \<Rightarrow> byte list \<Rightarrow>
     LogLevel \<Rightarrow> 32 word \<Rightarrow> log_item list \<Rightarrow> (LogThread \<times> (byte list \<times> bool) option) res" where
  "log_statement strerror loglevel now rt th logbuffer filename line func level savedErrno is =
     (if level_enabled loglevel level then
        fbind (Logger_new strerror now th logbuffer filename line func level savedErrno) (\<lambda>(th, lg).
        fbind (put_items (lg_stream lg) is) (\<lambda>stream.
        fbind (Logger_delete rt th (lg\<lparr>lg_stream := stream\<rparr>)) (\<lambda>out. Inr (th, Some out))))
      else Inr (th, None))"

section \<open>What a line is\<close>

text \<open>The cached time is the text of the cached second.\<close>

definition time_ok :: "LogThread \<Rightarrow> bool" where
  "time_ok th \<longleftrightarrow> length (t_time th) = 64 \<and> (t_last_second th \<noteq> 0 \<longrightarrow> take 17 (t_time th) = tm_text (gmtime (nat (t_last_second th))))"

definition time_text :: "Timestamp \<Rightarrow> byte list" where
  "time_text now = tm_text (gmtime (nat (now div kUsPerSec))) @ str ''.'' @ zero_padded 6 (nat (now mod kUsPerSec)) @ str '' ''"

abbreviation items_text :: "log_item list \<Rightarrow> byte list" where
  "items_text is \<equiv> concat (map item_text is)"

definition line_text ::
  "(32 word \<Rightarrow> byte list) \<Rightarrow> Timestamp \<Rightarrow> Runtime \<Rightarrow> LogThread \<Rightarrow> byte list \<Rightarrow> 32 word \<Rightarrow> byte list \<Rightarrow> LogLevel \<Rightarrow> 32 word \<Rightarrow> log_item list \<Rightarrow> byte list" where
  "line_text strerror now rt th filename line func level savedErrno is =
     time_text now @ items_text (head_items strerror level savedErrno) @ items_text is @
     str '' - '' @ c_string filename @ str '':'' @ signed_decimal (sint line) @ str '':'' @ c_string func @ str '' - '' @
     current_routine_name rt @ str '':'' @ decimal (unat (word_of_nat (current_routineid rt) :: u64)) @ str '' - '' @
     t_threadname th @ str '':'' @ t_tidstring th @ [0x0A]"

lemma c_string_str:
  "c_string (str '' - '') = str '' - ''" "c_string (str '':'') = str '':''" "c_string [0x0A] = [0x0A]"
  by (simp_all add: c_string_def str_def)

lemma put_range:
  assumes "log_inv s" and "n \<le> length m" and "ls_cur s + int n \<le> klogBufferLen"
  shows "\<exists>s'. put_piece s (SP_range m 0 (int n)) = Inr s' \<and> log_inv s' \<and> logged s' = logged s @ take n m"
  using assms LogStream_Append_spec [OF assms(1), of "take n m"]
  by (auto simp: put_piece_def AsString_def SP_range_def mem_get_def sub_def sp_begin_def sp_end_def)

lemma second_text:
  assumes "time_ok th" and "0 < sec" "sec < 253402300800"
  shows "\<exists>th'. (if sec \<noteq> t_last_second th then
               fbind (snprintf (t_time th) 0 64 (tm_text (gmtime (nat sec)))) (\<lambda>(m, len).
               fbind (assert_that (len = 17)) (\<lambda>_. Inr (th\<lparr>t_time := m, t_last_second := sec\<rparr>)))
             else Inr th) = Inr th' \<and> time_ok th' \<and> take 17 (t_time th') = tm_text (gmtime (nat sec)) \<and> length (t_time th') = 64 \<and>
     t_threadname th' = t_threadname th \<and> t_tidstring th' = t_tidstring th"
proof (cases "sec = t_last_second th")
  case True
  then show ?thesis using assms by (auto simp: time_ok_def)
next
  case False
  let ?t = "tm_text (gmtime (nat sec))"
  have l: "length ?t = 17" using assms by (intro length_tm_text) simp
  have m: "length (t_time th) = 64" using assms(1) by (simp add: time_ok_def)
  let ?m = "window (t_time th) 0 (?t @ [0])"
  have "snprintf (t_time th) 0 64 ?t = Inr (?m, 17)"
    using l m by (simp add: snprintf_def to_size_t_def Let_def mem_put_inside)
  moreover have "length ?m = 64" using l m by simp
  moreover have "take 17 ?m = ?t" using l by (simp add: window_def)
  ultimately show ?thesis using False by (auto simp: time_ok_def)
qed

lemma micro_text:
  assumes "us < 1000000"
  shows "\<exists>buf. Fmt_new (str ''.'' @ zero_padded 6 us @ str '' '') = Inr (buf, 8) \<and> 8 \<le> length buf \<and>
    take 8 buf = str ''.'' @ zero_padded 6 us @ str '' ''"
proof -
  let ?t = "str ''.'' @ zero_padded 6 us @ str '' ''"
  have l: "length ?t = 8" using length_zero_padded [of us 6] assms by (simp add: str_def)
  let ?m = "window (replicate 32 0) 0 (?t @ [0])"
  have "snprintf (replicate 32 0) 0 32 ?t = Inr (?m, 8)"
    using l by (simp add: snprintf_def to_size_t_def Let_def mem_put_inside)
  moreover have "take 8 ?m = ?t" "8 \<le> length ?m" using l by (simp_all add: window_def)
  ultimately show ?thesis by (simp add: Fmt_new_def)
qed

lemma FormatTime_ok:
  assumes th: "time_ok th" and now: "0 < now div kUsPerSec" "now div kUsPerSec < 253402300800"
    and s: "log_inv s" "ls_cur s + 25 \<le> klogBufferLen"
  shows "\<exists>th' s'. FormatTime now th s = Inr (th', s') \<and> time_ok th' \<and> t_threadname th' = t_threadname th \<and> t_tidstring th' = t_tidstring th \<and>
    log_inv s' \<and> logged s' = logged s @ time_text now \<and> length (time_text now) = 25"
proof -
  let ?us = "nat (now mod kUsPerSec)"
  have us: "?us < 1000000" by (simp add: kUsPerSec_def nat_less_iff)
  obtain th' where 1: "(if now div kUsPerSec \<noteq> t_last_second th then
               fbind (snprintf (t_time th) 0 64 (tm_text (gmtime (nat (now div kUsPerSec))))) (\<lambda>(m, len).
               fbind (assert_that (len = 17)) (\<lambda>_. Inr (th\<lparr>t_time := m, t_last_second := now div kUsPerSec\<rparr>)))
             else Inr th) = Inr th'" "time_ok th'" "take 17 (t_time th') = tm_text (gmtime (nat (now div kUsPerSec)))" "length (t_time th') = 64"
      "t_threadname th' = t_threadname th" "t_tidstring th' = t_tidstring th"
    using second_text [OF th now] by blast
  obtain buf where 2: "Fmt_new (str ''.'' @ zero_padded 6 ?us @ str '' '') = Inr (buf, 8)" "8 \<le> length buf"
      "take 8 buf = str ''.'' @ zero_padded 6 ?us @ str '' ''"
    using micro_text [OF us] by blast
  obtain s1 where 3: "put_piece s (SP_range (t_time th') 0 17) = Inr s1" "log_inv s1" "logged s1 = logged s @ take 17 (t_time th')"
    using put_range [OF s(1), of 17 "t_time th'"] s(2) 1(4) by auto
  have c1: "ls_cur s1 = ls_cur s + 17"
    using length_logged [OF 3(2)] length_logged [OF s(1)] 3(3) 1(4) by simp
  obtain s2 where 4: "put_piece s1 (SP_range buf 0 8) = Inr s2" "log_inv s2" "logged s2 = logged s1 @ take 8 buf"
    using put_range [OF 3(2), of 8 buf] s(2) 2(2) c1 by auto
  have "FormatTime now th s = Inr (th', s2)"
    unfolding FormatTime_def Let_def 1(1) by (simp add: 2(1) 3(1) 4(1))
  moreover have tt: "time_text now = take 17 (t_time th') @ take 8 buf" by (simp add: time_text_def 1(3) 2(3))
  moreover have "length (time_text now) = 25" unfolding tt using 1(4) 2(2) by simp
  moreover have "logged s2 = logged s @ time_text now" unfolding tt using 3(3) 4(3) by simp
  ultimately show ?thesis using 1(2,5,6) 4(2) by blast
qed

lemma items_step:
  assumes "log_inv s" and "length (logged s) + length (items_text is) < nat klogBufferLen"
  shows "\<exists>s'. put_items s is = Inr s' \<and> log_inv s' \<and> logged s' = logged s @ items_text is"
  using put_items_spec [OF assms(1), of "is"] assms(2) length_logged [OF assms(1)] by (simp add: klogBufferLen_def)

lemma Logger_new_ok:
  assumes th: "time_ok th" and now: "0 < now div kUsPerSec" "now div kUsPerSec < 253402300800"
    and m: "int (length m) = klogBufferLen" and sz: "25 + length (items_text (head_items strerror level err)) < nat klogBufferLen"
  shows "\<exists>th' lg. Logger_new strerror now th m filename line func level err = Inr (th', lg) \<and> time_ok th' \<and>
    t_threadname th' = t_threadname th \<and> t_tidstring th' = t_tidstring th \<and>
    lg_filename lg = filename \<and> lg_line lg = line \<and> lg_func lg = func \<and> lg_level lg = level \<and>
    log_inv (lg_stream lg) \<and> logged (lg_stream lg) = time_text now @ items_text (head_items strerror level err) \<and> length (time_text now) = 25"
proof -
  have s0: "log_inv (LogStream_new m)" "logged (LogStream_new m) = []" "ls_cur (LogStream_new m) = 0"
    using m by (simp_all add: log_inv_def LogStream_new_def logged_def klogBufferLen_def)
  obtain th' s1 where 1: "FormatTime now th (LogStream_new m) = Inr (th', s1)" "time_ok th'" "t_threadname th' = t_threadname th"
      "t_tidstring th' = t_tidstring th" "log_inv s1" "logged s1 = time_text now" "length (time_text now) = 25"
    using FormatTime_ok [OF th now s0(1)] s0 by (auto simp: klogBufferLen_def)
  obtain s2 where "put_items s1 (head_items strerror level err) = Inr s2" "log_inv s2"
      "logged s2 = time_text now @ items_text (head_items strerror level err)"
    using items_step [OF 1(5), of "head_items strerror level err"] 1(6,7) sz by auto
  then show ?thesis using 1 by (auto simp: Logger_new_def)
qed

section \<open>Properties\<close>


text \<open>A thread that has not logged yet.\<close>

definition sample_thread :: LogThread where
  "sample_thread = \<lparr>t_time = replicate 64 0, t_last_second = 0, t_threadname = str ''main_thread'', t_tidstring = str ''7''\<rparr>"


end
