(* ===== verification/Async_Io.thy ===== *)
theory Async_Io
  imports Net_Buffer Inet_Address
begin

text \<open>
  \<open>kernel/net/{socket,tcp_stream,tcp_listener,udp_stream}\<close> and
  \<open>kernel/crypto/tls_stream\<close>: the calls a coroutine makes on a non-blocking
  descriptor, repeated while they are interrupted or would block. What the kernel
  and the TLS library answer, call after call, and which timed waits expire are
  lists in the state \<open>Io\<close>, so that every theorem is about all behaviours of the
  outside; a run that asks for more answers than the list has is not continued
  (\<open>Diverge\<close>).
\<close>

section \<open>The outside\<close>

datatype errno =
    ENONE | EINTR | EAGAIN | EINPROGRESS | ECONNABORTED | EPROTO | EPERM | EMFILE
  | EBADF | EFAULT | EINVAL | ENFILE | ENOBUFS | ENOMEM | ENOTSOCK | EOPNOTSUPP | EOTHER nat

text \<open>A call that succeeded with a value, or failed and left \<open>errno\<close> as given.\<close>

datatype 'a answer = Done 'a | Fail errno

fun errno_of :: "'a answer \<Rightarrow> errno" where
  "errno_of (Done x) = ENONE"
| "errno_of (Fail e) = e"

text \<open>The calls on the park, in the order they were made.\<close>

datatype park_op = PCheckTicks | PWaitRead | PWaitWrite | PWaitReadMs int

record Io =
  io_reads :: "byte list answer list"
  io_writes :: "(nat \<times> errno) answer list"
  io_late :: "bool list"
  io_sent :: "byte list"
  io_trace :: "park_op list"

section \<open>Repeated calls\<close>

text \<open>
  The loop of the functions without a time limit: \<open>call\<close> is the body up to the
  test of its result.
\<close>

fun retry :: "park_op \<Rightarrow> ('a answer \<Rightarrow> 's \<Rightarrow> (int \<times> 's) res) \<Rightarrow> 'a answer list \<Rightarrow> park_op list \<Rightarrow> 's \<Rightarrow>
    (int \<times> 's \<times> 'a answer list \<times> park_op list) res" where
  "retry wait call [] tr s = Inl Diverge"
| "retry wait call (a # as) tr s =
     fbind (call a s) (\<lambda>(rn, s).
     let tr = tr @ [PCheckTicks] in
     if rn < 0 then
       if errno_of a = EINTR then retry wait call as tr s
       else if errno_of a = EAGAIN then retry wait call as (tr @ [wait]) s
       else Inr (rn, s, as, tr)
     else Inr (rn, s, as, tr))"

text \<open>The loop of those with a time limit; \<open>late\<close> holds the flags the waits store.\<close>

fun retry_ms :: "int \<Rightarrow> ('a answer \<Rightarrow> 's \<Rightarrow> (int \<times> 's) res) \<Rightarrow> 'a answer list \<Rightarrow> bool list \<Rightarrow> park_op list \<Rightarrow> bool \<Rightarrow> 's \<Rightarrow>
    (int \<times> bool \<times> 's \<times> 'a answer list \<times> bool list \<times> park_op list) res" where
  "retry_ms ms call [] late tr timeout s = Inl Diverge"
| "retry_ms ms call (a # as) late tr timeout s =
     fbind (call a s) (\<lambda>(rn, s).
     let tr = tr @ [PCheckTicks] in
     if rn < 0 then
       if errno_of a = EINTR then retry_ms ms call as late tr timeout s
       else if errno_of a = EAGAIN then
         (case late of
            [] \<Rightarrow> Inl Diverge
          | l # late \<Rightarrow>
              if \<not> l then retry_ms ms call as late (tr @ [PWaitReadMs ms]) l s
              else Inr (rn, l, s, as, late, tr @ [PWaitReadMs ms]))
       else Inr (rn, timeout, s, as, late, tr)
     else Inr (rn, timeout, s, as, late, tr))"

section \<open>Streams\<close>

text \<open>\<open>Socket::Read\<close> and \<open>SSL_read\<close> into an array, and \<open>Buffer::ReadFd\<close>.\<close>

definition call_read :: "byte list answer \<Rightarrow> byte list \<Rightarrow> (int \<times> byte list) res" where
  "call_read a buf =
     (case a of Done bs \<Rightarrow> fbind (mem_put buf 0 bs) (\<lambda>buf. Inr (int (length bs), buf)) | Fail e \<Rightarrow> Inr (-1, buf))"

definition call_ReadFd :: "byte list answer \<Rightarrow> Buffer \<Rightarrow> (int \<times> Buffer) res" where
  "call_ReadFd a b = (case a of Done bs \<Rightarrow> ReadFd b (Some bs) | Fail e \<Rightarrow> ReadFd b None)"

definition run_reads :: "(byte list answer \<Rightarrow> 's \<Rightarrow> (int \<times> 's) res) \<Rightarrow> 's \<Rightarrow> Io \<Rightarrow> (int \<times> 's \<times> Io) res" where
  "run_reads call s io =
     fbind (retry PWaitRead call (io_reads io) (io_trace io) s) (\<lambda>(rn, s, as, tr).
     Inr (rn, s, io\<lparr>io_reads := as, io_trace := tr\<rparr>))"

definition run_reads_ms :: "(byte list answer \<Rightarrow> 's \<Rightarrow> (int \<times> 's) res) \<Rightarrow> int \<Rightarrow> bool \<Rightarrow> 's \<Rightarrow> Io \<Rightarrow> (int \<times> bool \<times> 's \<times> Io) res" where
  "run_reads_ms call ms timeout s io =
     fbind (retry_ms ms call (io_reads io) (io_late io) (io_trace io) timeout s) (\<lambda>(rn, timeout, s, as, late, tr).
     Inr (rn, timeout, s, io\<lparr>io_reads := as, io_late := late, io_trace := tr\<rparr>))"

definition Tcp_AsyncRead :: "byte list \<Rightarrow> Io \<Rightarrow> (int \<times> byte list \<times> Io) res" where
  "Tcp_AsyncRead buf io = run_reads call_read buf io"

definition Tcp_AsyncRead_ms :: "byte list \<Rightarrow> int \<Rightarrow> bool \<Rightarrow> Io \<Rightarrow> (int \<times> bool \<times> byte list \<times> Io) res" where
  "Tcp_AsyncRead_ms buf ms timeout io = run_reads_ms call_read ms timeout buf io"

definition Tcp_AsyncRead_buf :: "Buffer \<Rightarrow> Io \<Rightarrow> (int \<times> Buffer \<times> Io) res" where
  "Tcp_AsyncRead_buf b io = run_reads call_ReadFd b io"

definition Tcp_AsyncRead_buf_ms :: "Buffer \<Rightarrow> int \<Rightarrow> bool \<Rightarrow> Io \<Rightarrow> (int \<times> bool \<times> Buffer \<times> Io) res" where
  "Tcp_AsyncRead_buf_ms b ms timeout io = run_reads_ms call_ReadFd ms timeout b io"

text \<open>
  The loop of \<open>TcpStream::AsyncWrite\<close>; a successful \<open>write\<close> answers with the number
  of bytes and with \<open>errno\<close> after the call. The bytes it took are appended to \<open>io_sent\<close>.
\<close>

fun write_loop :: "(nat \<times> errno) answer list \<Rightarrow> byte list \<Rightarrow> int \<Rightarrow> byte list \<Rightarrow> park_op list \<Rightarrow>
    (int \<times> byte list \<times> (nat \<times> errno) answer list \<times> park_op list) res" where
  "write_loop [] buf ret sent tr = Inl Diverge"
| "write_loop (Fail e # as) buf ret sent tr =
     (let tr = tr @ [PCheckTicks] in
      if e = EINTR then write_loop as buf ret sent tr
      else if e = EAGAIN then write_loop as buf ret sent (tr @ [PWaitWrite])
      else Inr (ret, sent, as, tr))"
| "write_loop (Done (wn, e) # as) buf ret sent tr =
     (let tr = tr @ [PCheckTicks]; sent = sent @ take wn buf in
      if wn = 0 \<and> e \<noteq> ENONE then Inr (ret, sent, as, tr)
      else if wn < length buf then write_loop as (drop wn buf) (ret + int wn) sent tr
      else Inr (ret + int wn, sent, as, tr))"

definition Tcp_AsyncWrite :: "byte list \<Rightarrow> Io \<Rightarrow> (int \<times> Io) res" where
  "Tcp_AsyncWrite buf io =
     fbind (write_loop (io_writes io) buf 0 (io_sent io) (io_trace io)) (\<lambda>(ret, sent, as, tr).
     Inr (ret, io\<lparr>io_writes := as, io_sent := sent, io_trace := tr\<rparr>))"

text \<open>\<open>TlsStream\<close>: as above on \<open>SSL_read\<close> and \<open>SSL_write\<close>; the latter fails with any result that is not positive.\<close>

definition Tls_AsyncRead :: "byte list \<Rightarrow> Io \<Rightarrow> (int \<times> byte list \<times> Io) res" where
  "Tls_AsyncRead buf io = run_reads call_read buf io"

definition Tls_AsyncRead_ms :: "byte list \<Rightarrow> int \<Rightarrow> bool \<Rightarrow> Io \<Rightarrow> (int \<times> bool \<times> byte list \<times> Io) res" where
  "Tls_AsyncRead_ms buf ms timeout io = run_reads_ms call_read ms timeout buf io"

fun tls_write_loop :: "(nat \<times> errno) answer list \<Rightarrow> byte list \<Rightarrow> int \<Rightarrow> byte list \<Rightarrow> park_op list \<Rightarrow>
    (int \<times> byte list \<times> (nat \<times> errno) answer list \<times> park_op list) res" where
  "tls_write_loop [] buf ret sent tr = Inl Diverge"
| "tls_write_loop (a # as) buf ret sent tr =
     (let tr = tr @ [PCheckTicks]; (wn, e) = (case a of Done (n, e) \<Rightarrow> (n, e) | Fail e \<Rightarrow> (0, e)); sent = sent @ take wn buf in
      if wn = 0 then
        (if e = EINTR then tls_write_loop as buf ret sent tr
         else if e = EAGAIN then tls_write_loop as buf ret sent (tr @ [PWaitWrite])
         else Inr (ret, sent, as, tr))
      else if wn < length buf then tls_write_loop as (drop wn buf) (ret + int wn) sent tr
      else Inr (ret + int wn, sent, as, tr))"

definition Tls_AsyncWrite :: "byte list \<Rightarrow> Io \<Rightarrow> (int \<times> Io) res" where
  "Tls_AsyncWrite buf io =
     fbind (tls_write_loop (io_writes io) buf 0 (io_sent io) (io_trace io)) (\<lambda>(ret, sent, as, tr).
     Inr (ret, io\<lparr>io_writes := as, io_sent := sent, io_trace := tr\<rparr>))"

text \<open>
  \<open>TlsStream::AsServer\<close> and \<open>AsClient\<close>: whether a stream is returned. \<open>has_stream\<close>
  and \<open>has_ssl\<close> say whether the TCP stream and the objects of the library exist,
  the list holds the answers of \<open>SSL_accept\<close> or \<open>SSL_connect\<close>.
\<close>

fun handshake_loop :: "unit answer list \<Rightarrow> park_op list \<Rightarrow> (bool \<times> park_op list) res" where
  "handshake_loop [] tr = Inl Diverge"
| "handshake_loop (Fail e # as) tr =
     (let tr = tr @ [PCheckTicks] in
      if e = EINTR then handshake_loop as tr
      else if e = EAGAIN then handshake_loop as (tr @ [PWaitRead])
      else Inr (False, tr))"
| "handshake_loop (Done u # as) tr = Inr (True, tr @ [PCheckTicks])"

definition Tls_AsServer :: "bool \<Rightarrow> bool \<Rightarrow> unit answer list \<Rightarrow> Io \<Rightarrow> (bool \<times> Io) res" where
  "Tls_AsServer has_stream has_ssl accepts io =
     (if \<not> has_stream then Inr (False, io)
      else if \<not> has_ssl then Inr (False, io)
      else fbind (handshake_loop accepts (io_trace io)) (\<lambda>(ok, tr). Inr (ok, io\<lparr>io_trace := tr\<rparr>)))"

definition Tls_AsClient :: "bool \<Rightarrow> bool \<Rightarrow> unit answer list \<Rightarrow> Io \<Rightarrow> (bool \<times> Io) res" where
  "Tls_AsClient has_stream has_ssl connects io =
     (if \<not> has_ssl then Inr (False, io)
      else if \<not> has_stream then Inl NullDeref
      else fbind (handshake_loop connects (io_trace io)) (\<lambda>(ok, tr). Inr (ok, io\<lparr>io_trace := tr\<rparr>)))"

text \<open>\<open>UdpStream\<close>: a datagram is sent whole, or received with the address of the sender.\<close>

definition call_SendTo :: "byte list \<Rightarrow> InetAddress \<Rightarrow> (nat \<times> errno) answer \<Rightarrow> (byte list \<times> InetAddress) list \<Rightarrow>
    (int \<times> (byte list \<times> InetAddress) list) res" where
  "call_SendTo buf addr a out = (case a of Done (n, e) \<Rightarrow> Inr (int n, out @ [(take n buf, addr)]) | Fail e \<Rightarrow> Inr (-1, out))"

definition Udp_AsyncSendto :: "byte list \<Rightarrow> InetAddress \<Rightarrow> (nat \<times> errno) answer list \<Rightarrow> park_op list \<Rightarrow>
    (int \<times> (byte list \<times> InetAddress) list \<times> (nat \<times> errno) answer list \<times> park_op list) res" where
  "Udp_AsyncSendto buf addr answers tr = retry PWaitWrite (call_SendTo buf addr) answers tr []"

definition Socket_RecvFrom :: "(byte list \<times> InetAddress) answer \<Rightarrow> byte list \<times> InetAddress \<Rightarrow> (int \<times> byte list \<times> InetAddress) res" where
  "Socket_RecvFrom a = (\<lambda>(buf, addr).
     case a of
       Done (bs, from) \<Rightarrow>
         fbind (mem_put buf 0 bs) (\<lambda>buf. Inr (int (length bs), buf, if bs \<noteq> [] then from else addr))
     | Fail e \<Rightarrow> Inr (-1, buf, addr))"

definition Udp_AsyncRecvFrom :: "byte list \<Rightarrow> (byte list \<times> InetAddress) answer list \<Rightarrow> park_op list \<Rightarrow>
    (int \<times> (byte list \<times> InetAddress) \<times> (byte list \<times> InetAddress) answer list \<times> park_op list) res" where
  "Udp_AsyncRecvFrom buf answers tr = retry PWaitRead Socket_RecvFrom answers tr (buf, InetAddress_zero)"

definition Udp_AsyncRecvFrom_ms :: "byte list \<Rightarrow> int \<Rightarrow> bool \<Rightarrow> (byte list \<times> InetAddress) answer list \<Rightarrow> bool list \<Rightarrow> park_op list \<Rightarrow>
    (int \<times> bool \<times> (byte list \<times> InetAddress) \<times> (byte list \<times> InetAddress) answer list \<times> bool list \<times> park_op list) res" where
  "Udp_AsyncRecvFrom_ms buf ms timeout answers late tr = retry_ms ms Socket_RecvFrom answers late tr timeout (buf, InetAddress_zero)"

text \<open>\<open>Socket::Accept\<close>: errors that are not expected end the program.\<close>

definition Socket_Accept :: "(nat \<times> InetAddress) answer \<Rightarrow> InetAddress \<Rightarrow> (int \<times> InetAddress) res" where
  "Socket_Accept a peeraddr =
     (case a of
        Done (fd, from) \<Rightarrow> Inr (int fd, from)
      | Fail e \<Rightarrow> if e \<in> {EAGAIN, ECONNABORTED, EINTR, EPROTO, EPERM, EMFILE} then Inr (-1, peeraddr) else Inl Fatal)"

text \<open>\<open>TcpListener::AsyncAccept\<close>: the descriptor and the peer of the new stream, \<open>None\<close> for no stream.\<close>

definition AsyncAccept :: "(nat \<times> InetAddress) answer list \<Rightarrow> park_op list \<Rightarrow>
    ((int \<times> InetAddress) option \<times> (nat \<times> InetAddress) answer list \<times> park_op list) res" where
  "AsyncAccept answers tr =
     fbind (retry PWaitRead Socket_Accept answers tr InetAddress_zero) (\<lambda>(connfd, peeraddr, as, tr).
     Inr (if connfd < 0 then None else Some (connfd, peeraddr), as, tr))"

definition AsyncAccept_ms :: "int \<Rightarrow> (nat \<times> InetAddress) answer list \<Rightarrow> bool list \<Rightarrow> park_op list \<Rightarrow>
    ((int \<times> InetAddress) option \<times> (nat \<times> InetAddress) answer list \<times> bool list \<times> park_op list) res" where
  "AsyncAccept_ms ms answers late tr =
     fbind (retry_ms ms Socket_Accept answers late tr False InetAddress_zero) (\<lambda>(connfd, timeout, peeraddr, as, late, tr).
     Inr (if connfd < 0 then None else Some (connfd, peeraddr), as, late, tr))"

text \<open>\<open>Socket::Close\<close>: the descriptor afterwards; \<open>close\<close> answers whether it failed.\<close>

definition Socket_Close :: "int \<Rightarrow> bool \<Rightarrow> int" where
  "Socket_Close sockfd failed = (if sockfd < 0 then sockfd else if failed then sockfd else -1)"

definition socket_error :: "int answer \<Rightarrow> errno + int" where
  "socket_error a = (case a of Done optval \<Rightarrow> Inr optval | Fail e \<Rightarrow> Inl e)"

definition is_self_connect :: "InetAddress \<Rightarrow> InetAddress \<Rightarrow> bool" where
  "is_self_connect laddr paddr =
     (if addr_family laddr = AF_INET then sin_port laddr = sin_port paddr \<and> sin_addr laddr = sin_addr paddr
      else if addr_family laddr = AF_INET6 then sin_port laddr = sin_port paddr \<and> sin6_addr laddr = sin6_addr paddr
      else False)"

text \<open>
  \<open>TcpStream::AsyncConnect\<close>: whether a stream is returned. \<open>so_error\<close> is the answer
  of \<open>getsockopt\<close> and the addresses are those of the connected socket.
\<close>

definition AsyncConnect :: "unit answer \<Rightarrow> int answer \<Rightarrow> InetAddress \<Rightarrow> InetAddress \<Rightarrow> park_op list \<Rightarrow> bool \<times> park_op list" where
  "AsyncConnect connected so_error laddr paddr tr =
     (case connected of
        Done u \<Rightarrow> (True, tr)
      | Fail e \<Rightarrow>
          if e = EINPROGRESS then
            (let tr = tr @ [PWaitWrite]; err = socket_error so_error in
             if err \<noteq> Inr 0 \<and> err \<noteq> Inl ENONE then (False, tr)
             else if is_self_connect laddr paddr then (False, tr)
             else (True, tr))
          else (False, tr))"

section \<open>What the loops do\<close>

text \<open>Interruptions are the answers after which a call is repeated.\<close>

fun busy :: "'a answer \<Rightarrow> bool" where
  "busy (Done x) \<longleftrightarrow> False"
| "busy (Fail e) \<longleftrightarrow> e = EINTR \<or> e = EAGAIN"

text \<open>The park calls of a loop that was repeated after the answers \<open>as\<close>.\<close>

definition busy_trace :: "park_op \<Rightarrow> 'a answer list \<Rightarrow> park_op list" where
  "busy_trace wait as = concat (map (\<lambda>a. if errno_of a = EAGAIN then [PCheckTicks, wait] else [PCheckTicks]) as)"

lemma busy_trace_simps [simp]:
  "busy_trace w [] = []"
  "busy_trace w (a # as) = (if errno_of a = EAGAIN then [PCheckTicks, w] else [PCheckTicks]) @ busy_trace w as"
  by (simp_all add: busy_trace_def)

text \<open>The contract of a call: it fails without effect, and a success is not negative.\<close>

definition call_ok :: "('a answer \<Rightarrow> 's \<Rightarrow> (int \<times> 's) res) \<Rightarrow> bool" where
  "call_ok call \<longleftrightarrow> (\<forall>e s. e \<in> {EINTR, EAGAIN} \<longrightarrow> call (Fail e) s = Inr (-1, s)) \<and> (\<forall>x s n s'. call (Done x) s = Inr (n, s') \<longrightarrow> 0 \<le> n)"

lemma calls_ok:
  "call_ok call_read" "call_ok call_ReadFd" "call_ok (call_SendTo buf addr)" "call_ok Socket_RecvFrom" "call_ok Socket_Accept"
  by (auto simp: call_ok_def call_read_def call_ReadFd_def ReadFd_def call_SendTo_def Socket_RecvFrom_def Socket_Accept_def
      fbind_Inr_iff Let_def split: prod.splits if_splits)

lemma retry_skips:
  assumes "call_ok call" and "list_all busy bs" and "\<not> busy a" and "call a s = Inr (n, s')"
  shows "retry w call (bs @ a # as) tr s = Inr (n, s', as, tr @ busy_trace w bs @ [PCheckTicks])"
  using assms(2)
proof (induction bs arbitrary: tr)
  case Nil
  then show ?case
    using assms by (cases a) (auto simp: call_ok_def Let_def)
next
  case (Cons b bs)
  then obtain e where "b = Fail e" "e = EINTR \<or> e = EAGAIN" by (cases b) auto
  moreover from this have "call b s = Inr (-1, s)" using assms(1) by (auto simp: call_ok_def)
  ultimately show ?case using Cons by (auto simp: Let_def)
qed

lemma retry_ms_skips:
  assumes "call_ok call" and "list_all busy bs" and "\<not> busy a" and "call a s = Inr (n, s')"
    and "length (filter (\<lambda>b. errno_of b = EAGAIN) bs) \<le> length late" and "list_all Not late" and "\<not> t"
  shows "\<exists>k tr'. retry_ms ms call (bs @ a # as) late tr t s = Inr (n, False, s', as, drop k late, tr') \<and>
    k = length (filter (\<lambda>b. errno_of b = EAGAIN) bs)"
  using assms(2,5,6,7)
proof (induction bs arbitrary: tr late t)
  case Nil
  then show ?case
    using assms by (cases a) (auto simp: call_ok_def Let_def)
next
  case (Cons b bs)
  then obtain e where b: "b = Fail e" "e = EINTR \<or> e = EAGAIN" by (cases b) auto
  moreover from this have "call b s = Inr (-1, s)" using assms(1) by (auto simp: call_ok_def)
  ultimately show ?case
    using Cons by (cases late) (auto simp: Let_def)
qed

text \<open>\<open>write\<close> never takes more than it is offered: \<open>n\<close> bytes before the first answer.\<close>

fun writes_ok :: "nat \<Rightarrow> (nat \<times> errno) answer list \<Rightarrow> bool" where
  "writes_ok n [] \<longleftrightarrow> True"
| "writes_ok n (Done (k, e) # as) \<longleftrightarrow> k \<le> n \<and> writes_ok (n - k) as"
| "writes_ok n (Fail e # as) \<longleftrightarrow> writes_ok n as"

text \<open>Answers that are interruptions or progress, and together take \<open>n\<close> bytes.\<close>

fun writes_all :: "nat \<Rightarrow> (nat \<times> errno) answer list \<Rightarrow> bool" where
  "writes_all n [] \<longleftrightarrow> False"
| "writes_all n (Done (k, e) # as) \<longleftrightarrow> 0 < k \<and> (k = n \<or> k < n \<and> writes_all (n - k) as)"
| "writes_all n (Fail e # as) \<longleftrightarrow> (e = EINTR \<or> e = EAGAIN) \<and> writes_all n as"

lemma write_loop_prefix:
  "\<lbrakk>write_loop as buf ret sent tr = Inr (ret', sent', as', tr'); writes_ok (length buf) as\<rbrakk> \<Longrightarrow>
     \<exists>k \<le> length buf. ret' = ret + int k \<and> sent' = sent @ take k buf"
proof (induction as buf ret sent tr rule: write_loop.induct)
  case (3 wn e as buf ret sent tr)
  consider (stop) "wn = 0 \<and> e \<noteq> ENONE" | (more) "\<not> (wn = 0 \<and> e \<noteq> ENONE)" "wn < length buf"
    | (all) "\<not> (wn = 0 \<and> e \<noteq> ENONE)" "wn = length buf" using 3(3) by fastforce
  then show ?case
  proof cases
    case more
    then obtain k where k: "k \<le> length (drop wn buf)" "ret' = ret + int wn + int k" "sent' = (sent @ take wn buf) @ take k (drop wn buf)"
      using 3(1) [OF refl refl more] 3(2,3) by (auto simp: Let_def)
    then show ?thesis using more by (intro exI [of _ "wn + k"]) (auto simp: take_add)
  qed (use 3(2,3) in \<open>auto simp: Let_def\<close>)
qed (auto simp: Let_def split: if_splits)

lemma write_loop_all:
  "writes_all (length buf) as \<Longrightarrow> \<exists>as' tr'. write_loop as buf ret sent tr = Inr (ret + int (length buf), sent @ buf, as', tr')"
proof (induction as buf ret sent tr rule: write_loop.induct)
  case (3 wn e as buf ret sent tr)
  show ?case
  proof (cases "wn = length buf")
    case False
    then have "wn < length buf" "0 < wn" "writes_all (length (drop wn buf)) as" using 3(2) by auto
    then show ?thesis using 3(1) by (auto simp: Let_def)
  qed (use 3(2) in \<open>auto simp: Let_def\<close>)
qed (auto simp: Let_def)

lemma tls_write_loop_prefix:
  "\<lbrakk>tls_write_loop as buf ret sent tr = Inr (ret', sent', as', tr'); writes_ok (length buf) as\<rbrakk> \<Longrightarrow>
     \<exists>k \<le> length buf. ret' = ret + int k \<and> sent' = sent @ take k buf"
proof (induction as arbitrary: buf ret sent tr)
  case (Cons a as)
  obtain wn e where a: "(case a of Done (n, e) \<Rightarrow> (n, e) | Fail e \<Rightarrow> (0, e)) = (wn, e)" by fastforce
  then have ok: "wn \<le> length buf" "writes_ok (length buf - wn) as" using Cons.prems(2) by (auto split: answer.splits prod.splits)
  show ?case
  proof (cases "wn = 0 \<or> wn = length buf")
    case True
    then show ?thesis using Cons a ok by (auto simp: Let_def split: if_splits)
  next
    case False
    then obtain k where k: "k \<le> length (drop wn buf)" "ret' = ret + int wn + int k" "sent' = (sent @ take wn buf) @ take k (drop wn buf)"
      using Cons.IH [of "drop wn buf" "ret + int wn" "sent @ take wn buf"] Cons.prems(1) a ok by (auto simp: Let_def)
    then show ?thesis using ok by (intro exI [of _ "wn + k"]) (auto simp: take_add)
  qed
qed simp

lemma tls_write_loop_all:
  "writes_all (length buf) as \<Longrightarrow> \<exists>as' tr'. tls_write_loop as buf ret sent tr = Inr (ret + int (length buf), sent @ buf, as', tr')"
proof (induction as arbitrary: buf ret sent tr)
  case (Cons a as)
  then show ?case
  proof (cases a)
    case (Done x)
    obtain wn e where x: "x = (wn, e)" by (cases x)
    show ?thesis
    proof (cases "wn = length buf")
      case False
      then have w: "wn < length buf" "0 < wn" "writes_all (length (drop wn buf)) as" using Cons.prems Done x by auto
      then show ?thesis
        using Cons.IH [OF w(3), of "ret + int wn" "sent @ take wn buf" "tr @ [PCheckTicks]"] Done x by (auto simp: Let_def)
    qed (use Cons.prems Done x in \<open>auto simp: Let_def\<close>)
  qed (auto simp: Let_def)
qed simp

text \<open>The interface of a stream that sends, which both kinds of stream provide.\<close>

locale stream_writer =
  fixes send :: "byte list \<Rightarrow> Io \<Rightarrow> (int \<times> Io) res"
  assumes send_prefix: "\<lbrakk>send buf io = Inr (n, io'); writes_ok (length buf) (io_writes io)\<rbrakk> \<Longrightarrow>
      \<exists>k \<le> length buf. n = int k \<and> io_sent io' = io_sent io @ take k buf"
    and send_all: "writes_all (length buf) (io_writes io) \<Longrightarrow> \<exists>io'. send buf io = Inr (int (length buf), io')"
begin

lemma sent_whole:
  "\<lbrakk>send buf io = Inr (int (length buf), io'); writes_ok (length buf) (io_writes io)\<rbrakk> \<Longrightarrow> io_sent io' = io_sent io @ buf"
  by (drule send_prefix) auto

lemma sent_whole_iff:
  "\<lbrakk>send buf io = Inr (n, io'); writes_ok (length buf) (io_writes io)\<rbrakk> \<Longrightarrow> n = int (length buf) \<longleftrightarrow> io_sent io' = io_sent io @ buf"
  by (drule (1) send_prefix) (metis append_same_eq length_take min.absorb2 nat_int take_all_iff same_append_eq order_refl)

end

interpretation tcp: stream_writer Tcp_AsyncWrite
proof
  fix buf io n io'
  assume "Tcp_AsyncWrite buf io = Inr (n, io')" "writes_ok (length buf) (io_writes io)"
  then show "\<exists>k \<le> length buf. n = int k \<and> io_sent io' = io_sent io @ take k buf"
    using write_loop_prefix [of "io_writes io" buf 0] by (fastforce simp: Tcp_AsyncWrite_def fbind_Inr_iff)
next
  fix buf io
  show "writes_all (length buf) (io_writes io) \<Longrightarrow> \<exists>io'. Tcp_AsyncWrite buf io = Inr (int (length buf), io')"
    using write_loop_all [of buf "io_writes io" 0 "io_sent io" "io_trace io"] by (auto simp: Tcp_AsyncWrite_def)
qed

interpretation tls: stream_writer Tls_AsyncWrite
proof
  fix buf io n io'
  assume "Tls_AsyncWrite buf io = Inr (n, io')" "writes_ok (length buf) (io_writes io)"
  then show "\<exists>k \<le> length buf. n = int k \<and> io_sent io' = io_sent io @ take k buf"
    using tls_write_loop_prefix [of "io_writes io" buf 0] by (fastforce simp: Tls_AsyncWrite_def fbind_Inr_iff)
next
  fix buf io
  show "writes_all (length buf) (io_writes io) \<Longrightarrow> \<exists>io'. Tls_AsyncWrite buf io = Inr (int (length buf), io')"
    using tls_write_loop_all [of buf "io_writes io" 0 "io_sent io" "io_trace io"] by (auto simp: Tls_AsyncWrite_def)
qed

section \<open>Properties\<close>

text \<open>\<open>AsyncWrite\<close> on a TCP stream, whatever sequence of short writes,
  interruptions and full socket buffers it meets: what reached the socket is a
  prefix of the data and the result is its length; and when the answers make
  progress without another error, all the data is written.\<close>

theorem AsyncWrite_sends_prefix:
  "(\<forall>n io'. Tcp_AsyncWrite buf io = Inr (n, io') \<and> writes_ok (length buf) (io_writes io) \<longrightarrow>
      0 \<le> n \<and> n \<le> int (length buf) \<and> io_sent io' = io_sent io @ take (nat n) buf) \<and>
   (writes_all (length buf) (io_writes io) \<longrightarrow> (\<exists>io'. Tcp_AsyncWrite buf io = Inr (int (length buf), io')))"
  using tcp.send_prefix [of buf io] tcp.send_all [of buf io] by fastforce

theorem AsyncWrite_sends_prefix_witness:
  "\<exists>io'. Tcp_AsyncWrite (str ''hello'') \<lparr>io_reads = [], io_writes = [Done (2, ENONE), Fail EAGAIN, Fail EINTR, Done (3, ENONE)],
       io_late = [], io_sent = [], io_trace = []\<rparr> = Inr (5, io') \<and> io_sent io' = str ''hello''"
  (is "\<exists>io'. Tcp_AsyncWrite _ ?io = _ \<and> _")
proof -
  have "writes_all (length (str ''hello'')) (io_writes ?io)" "writes_ok (length (str ''hello'')) (io_writes ?io)"
    by (simp_all add: str_def)
  then show ?thesis using AsyncWrite_sends_prefix [of "str ''hello''" ?io] by (auto simp: str_def)
qed

end
