(* ===== verification/Http_Stream.thy ===== *)
theory Http_Stream
  imports Async_Io Http_Message
begin

text \<open>
  \<open>http/http_stream.{h,cc}\<close> and \<open>http/file_reader.{h,cc}\<close>: messages over a TCP or
  TLS stream, and the reader that loads a file. Reading is independent of how the
  network cuts the stream (locale \<open>chunk_source\<close>, interpreted for both streams).
\<close>

section \<open>The code\<close>

record HttpStream =
  read_buf :: Buffer
  write_buf :: Buffer
  over_tls :: bool

text \<open>The state of the stream after \<open>UpgradeHttps\<close>; the handshake is that of \<open>TlsStream::AsServer\<close>.\<close>

definition UpgradeHttps :: "bool \<Rightarrow> unit answer list \<Rightarrow> HttpStream \<Rightarrow> Io \<Rightarrow> (int \<times> HttpStream \<times> Io) res" where
  "UpgradeHttps has_ssl accepts hs io =
     fbind (Tls_AsServer True has_ssl accepts io) (\<lambda>(ok, io).
     Inr (if ok then 0 else -1, hs\<lparr>over_tls := ok\<rparr>, io))"

text \<open>The two ways of reading more; over TLS the bytes go to the writable part of the buffer and are then published.\<close>

definition recv_tcp :: "int \<Rightarrow> bool \<Rightarrow> Buffer \<Rightarrow> Io \<Rightarrow> (int \<times> bool \<times> Buffer \<times> Io) res" where
  "recv_tcp ms timeout b io = Tcp_AsyncRead_buf_ms b ms timeout io"

definition recv_tls :: "int \<Rightarrow> bool \<Rightarrow> Buffer \<Rightarrow> Io \<Rightarrow> (int \<times> bool \<times> Buffer \<times> Io) res" where
  "recv_tls ms timeout b io =
     fbind (mem_get (buffer b) (writer_index b) (buf_size b)) (\<lambda>area.
     fbind (Tls_AsyncRead_ms area ms timeout io) (\<lambda>(rn, timeout, area, io).
     fbind (mem_put (buffer b) (writer_index b) area) (\<lambda>m.
     let b = b\<lparr>buffer := m\<rparr> in
     if timeout \<or> rn \<le> 0 then Inr (rn, timeout, b, io)
     else fbind (AddReadableLength b rn) (\<lambda>b. Inr (rn, timeout, b, io)))))"

fun read_loop :: "nat \<Rightarrow> (int \<Rightarrow> bool \<Rightarrow> Buffer \<Rightarrow> Io \<Rightarrow> (int \<times> bool \<times> Buffer \<times> Io) res) \<Rightarrow> int \<Rightarrow> bool \<Rightarrow> HttpMessage \<Rightarrow> Buffer \<Rightarrow> Io \<Rightarrow>
    (int \<times> bool \<times> HttpMessage \<times> Buffer \<times> Io) res" where
  "read_loop 0 recv ms timeout message b io = Inl Diverge"
| "read_loop (Suc fuel) recv ms timeout message b io =
     fbind (Decode message b) (\<lambda>(parsed_len, message, b).
     if parsed_len < 0 then Inr (parsed_len, timeout, message, b, io)
     else if parsed_len = 0 then
       fbind (recv ms timeout b io) (\<lambda>(rn, timeout, b, io).
       if timeout then Inr (-1, timeout, message, b, io)
       else if rn \<le> 0 then Inr (rn, timeout, message, b, io)
       else read_loop fuel recv ms timeout message b io)
     else Inr (parsed_len, timeout, message, b, io))"

text \<open>Every round but the last takes an answer of the network, so the fuel is their number and one.\<close>

definition HttpStream_AsyncRead :: "HttpMessage \<Rightarrow> int \<Rightarrow> bool \<Rightarrow> HttpStream \<Rightarrow> Io \<Rightarrow> (int \<times> bool \<times> HttpMessage \<times> HttpStream \<times> Io) res" where
  "HttpStream_AsyncRead message ms timeout hs io =
     fbind (read_loop (Suc (length (io_reads io))) (if over_tls hs then recv_tls else recv_tcp) ms timeout message (read_buf hs) io)
       (\<lambda>(n, timeout, message, b, io). Inr (n, timeout, message, hs\<lparr>read_buf := b\<rparr>, io))"

definition HttpStream_AsyncWrite :: "HttpMessage \<Rightarrow> HttpStream \<Rightarrow> Io \<Rightarrow> (int \<times> HttpStream \<times> Io) res" where
  "HttpStream_AsyncWrite message hs io =
     fbind (Encode message (write_buf hs)) (\<lambda>(_, b).
     fbind (mem_get (buffer b) (reader_index b) (writer_index b)) (\<lambda>data.
     fbind ((if over_tls hs then Tls_AsyncWrite else Tcp_AsyncWrite) data io) (\<lambda>(len, io).
     if len \<noteq> readable_bytes b then Inr (-1, hs\<lparr>write_buf := b\<rparr>, io)
     else Inr (0, hs\<lparr>write_buf := TakeAll b\<rparr>, io))))"

text \<open>\<open>FileReader\<close>: the descriptor, and the answers of \<open>readv\<close> on it.\<close>

record FileReader =
  fr_fd :: int
  fr_buf :: Buffer

fun read_all_loop :: "byte list answer list \<Rightarrow> Buffer \<Rightarrow> Buffer res" where
  "read_all_loop [] b = Inl Diverge"
| "read_all_loop (a # as) b =
     fbind (call_ReadFd a b) (\<lambda>(rn, b). if rn = 0 then Inr b else if rn < 0 then Inr b else read_all_loop as b)"

definition ReadAll :: "FileReader \<Rightarrow> byte list answer list \<Rightarrow> (StringPiece \<times> FileReader) res" where
  "ReadAll fr answers =
     (if fr_fd fr < 0 then Inr (SP_empty, fr)
      else if \<not> sp_empty (slice_view (fr_buf fr)) then Inr (slice_view (fr_buf fr), fr)
      else fbind (read_all_loop answers (fr_buf fr)) (\<lambda>b. Inr (slice_view b, fr\<lparr>fr_buf := b\<rparr>)))"

section \<open>Reading in chunks\<close>

text \<open>Answers that deliver data in pieces of at most \<open>cap\<close> bytes between interruptions, and waits that do not expire.\<close>

definition calm_reads :: "nat \<Rightarrow> Io \<Rightarrow> bool" where
  "calm_reads cap io \<longleftrightarrow> (\<forall>a \<in> set (io_reads io). busy a \<or> (\<exists>bs. a = Done bs \<and> bs \<noteq> [] \<and> length bs \<le> cap)) \<and>
     list_all Not (io_late io) \<and> length (filter (\<lambda>a. errno_of a = EAGAIN) (io_reads io)) \<le> length (io_late io)"

fun received :: "byte list answer list \<Rightarrow> byte list" where
  "received [] = []"
| "received (Done bs # as) = bs @ received as"
| "received (Fail e # as) = received as"

locale chunk_source =
  fixes recv :: "int \<Rightarrow> bool \<Rightarrow> Buffer \<Rightarrow> Io \<Rightarrow> (int \<times> bool \<times> Buffer \<times> Io) res" and cap :: nat and room :: "Buffer \<Rightarrow> bool"
  assumes recv_chunk: "\<lbrakk>buf_inv b; room b; calm_reads cap io; received (io_reads io) \<noteq> []\<rbrakk> \<Longrightarrow>
    \<exists>bs b' io'. recv ms False b io = Inr (int (length bs), False, b', io') \<and> bs \<noteq> [] \<and> buf_inv b' \<and> room b' \<and> content b' = content b @ bs \<and>
      bs @ received (io_reads io') = received (io_reads io) \<and> calm_reads cap io' \<and> length (io_reads io') < length (io_reads io)"
begin

lemma read_loop_message:
  assumes ok: "http_ok m" and m0: "headers m0 = []"
  shows "\<lbrakk>buf_inv b; room b; calm_reads cap io; prefix (http_text m) (content b @ received (io_reads io)); length (io_reads io) < fuel\<rbrakk> \<Longrightarrow>
    \<exists>b' io'. read_loop fuel recv ms False m0 b io = Inr (int (length (http_text m)), False, m\<lparr>headers := butlast (headers m)\<rparr>, b', io') \<and>
      buf_inv b' \<and> content b' @ received (io_reads io') = drop (length (http_text m)) (content b @ received (io_reads io))"
proof (induction fuel arbitrary: b io)
  case (Suc fuel)
  have ne: "http_text m \<noteq> []" by (simp add: http_text_def crlf_def)
  show ?case
  proof (cases "prefix (http_text m) (content b)")
    case True
    then obtain rest where c: "content b = http_text m @ rest" by (auto simp: prefix_def)
    obtain b' where "Decode m0 b = Inr (int (length (http_text m)), m\<lparr>headers := butlast (headers m)\<rparr>, b')" "buf_inv b'" "content b' = rest"
      using Decode_text [OF ok Suc.prems(1) c m0] by blast
    then show ?thesis using c ne by simp
  next
    case False
    then have sp: "strict_prefix (content b) (http_text m)"
      using Suc.prems(4) prefix_same_cases [of "http_text m" _ "content b"] by (auto simp: strict_prefix_def)
    then have d: "Decode m0 b = Inr (0, m0, b)" by (rule Decode_prefix_waits [OF ok Suc.prems(1)])
    have "received (io_reads io) \<noteq> []" using False Suc.prems(4) by auto
    then obtain bs b1 io1 where 1: "recv ms False b io = Inr (int (length bs), False, b1, io1)" "bs \<noteq> []" "buf_inv b1" "room b1"
        "content b1 = content b @ bs" "bs @ received (io_reads io1) = received (io_reads io)" "calm_reads cap io1"
        "length (io_reads io1) < length (io_reads io)"
      using recv_chunk [OF Suc.prems(1-3), of ms] by blast
    then have "content b1 @ received (io_reads io1) = content b @ received (io_reads io)" by simp
    then show ?thesis using Suc.IH [OF 1(3,4,7)] Suc.prems(4,5) d 1(1,2,8) by (auto simp: not_le)
  qed
qed simp

end

text \<open>Both loops skip the interruptions before the next piece.\<close>

lemma calm_split:
  assumes "calm_reads cap io" and "received (io_reads io) \<noteq> []"
  obtains js bs as where "io_reads io = js @ Done bs # as" "list_all busy js" "bs \<noteq> []" "length bs \<le> cap" "received (io_reads io) = bs @ received as"
    "length (filter (\<lambda>a. errno_of a = EAGAIN) js) \<le> length (io_late io)" "list_all Not (io_late io)"
    "\<And>k tr. k = length (filter (\<lambda>a. errno_of a = EAGAIN) js) \<Longrightarrow> calm_reads cap (io\<lparr>io_reads := as, io_late := drop k (io_late io), io_trace := tr\<rparr>)"
proof -
  have "\<exists>js bs as. rs = js @ Done bs # as \<and> list_all busy js \<and> received rs = bs @ received as"
    if "received rs \<noteq> []" "\<forall>a \<in> set rs. busy a \<or> (\<exists>bs. a = Done bs \<and> bs \<noteq> [] \<and> length bs \<le> cap)" for rs
    using that
  proof (induction rs)
    case (Cons a rs)
    show ?case
    proof (cases a)
      case (Done bs)
      then have "a # rs = [] @ Done bs # rs \<and> list_all busy [] \<and> received (a # rs) = bs @ received rs" by simp
      then show ?thesis by blast
    next
      case (Fail e)
      then obtain js' bs as where "rs = js' @ Done bs # as" "list_all busy js'" "received rs = bs @ received as"
        using Cons by auto
      then have "a # rs = (a # js') @ Done bs # as \<and> list_all busy (a # js') \<and> received (a # rs) = bs @ received as"
        using Fail Cons.prems by auto
      then show ?thesis by blast
    qed
  qed simp
  then obtain js' bs as where s: "io_reads io = js' @ Done bs # as" "list_all busy js'" "received (io_reads io) = bs @ received as"
    using assms unfolding calm_reads_def by blast
  have "bs \<noteq> [] \<and> length bs \<le> cap" using assms(1) s(1) by (auto simp: calm_reads_def)
  then show thesis
    using assms(1) s by (intro that [OF s(1,2) _ _ s(3)]) (auto simp: calm_reads_def list_all_iff dest: in_set_dropD)
qed

interpretation over_tcp: chunk_source recv_tcp 65536 "\<lambda>_. True"
proof
  fix b io ms
  assume b: "buf_inv b" and c: "calm_reads 65536 io" "received (io_reads io) \<noteq> []"
  obtain js bs as where s: "io_reads io = js @ Done bs # as" "list_all busy js" "bs \<noteq> []" "length bs \<le> 65536" "received (io_reads io) = bs @ received as"
      "length (filter (\<lambda>a. errno_of a = EAGAIN) js) \<le> length (io_late io)" "list_all Not (io_late io)"
      "\<And>k tr. k = length (filter (\<lambda>a. errno_of a = EAGAIN) js) \<Longrightarrow> calm_reads 65536 (io\<lparr>io_reads := as, io_late := drop k (io_late io), io_trace := tr\<rparr>)"
    using calm_split [OF c] by metis
  have "int (length bs) \<le> ReadFd_capacity b"
    using s(4) writable_bytes_nonneg [OF b] by (auto simp: ReadFd_capacity_def extrabuf_size_def)
  then obtain b' where b': "ReadFd b (Some bs) = Inr (int (length bs), b')" "buf_inv b'" "content b' = content b @ bs"
    using ReadFd_spec [OF b] by blast
  then have "call_ReadFd (Done bs) b = Inr (int (length bs), b')" by (simp add: call_ReadFd_def)
  from retry_ms_skips [OF calls_ok(2) s(2) _ this s(6,7), of False ms as "io_trace io"]
  show "\<exists>bs b' io'. recv_tcp ms False b io = Inr (int (length bs), False, b', io') \<and> bs \<noteq> [] \<and> buf_inv b' \<and> True \<and> content b' = content b @ bs \<and>
      bs @ received (io_reads io') = received (io_reads io) \<and> calm_reads 65536 io' \<and> length (io_reads io') < length (io_reads io)"
    using s b' by (auto simp: recv_tcp_def Tcp_AsyncRead_buf_ms_def run_reads_ms_def)
qed


lemma publish_chunk:
  assumes b: "buf_inv b" and r: "1024 \<le> writable_bytes b" and l: "length bs \<le> 1024" "bs \<noteq> []"
  defines "area \<equiv> sub (buffer b) (nat (writer_index b)) (nat (writable_bytes b))"
  shows "mem_get (buffer b) (writer_index b) (buf_size b) = Inr area"
    and "mem_put area 0 bs = Inr (window area 0 bs)"
    and "\<exists>m b'. mem_put (buffer b) (writer_index b) (window area 0 bs) = Inr m \<and> AddReadableLength (b\<lparr>buffer := m\<rparr>) (int (length bs)) = Inr b' \<and>
      buf_inv b' \<and> 1024 \<le> writable_bytes b' \<and> content b' = content b @ bs"
proof -
  from b obtain m r w where bb: "b = \<lparr>buffer = m, reader_index = int r, writer_index = int w\<rparr>" and o: "8 \<le> r" "r \<le> w" "w \<le> length m"
    by (rule buf_invE)
  have n: "w + length bs \<le> length m" "w + 1024 \<le> length m" using r l by (auto simp: bb buf_getters)
  have a: "area = drop w m" "length area = length m - w" using o by (simp_all add: area_def bb buf_getters sub_def nat_diff_distrib)
  show "mem_get (buffer b) (writer_index b) (buf_size b) = Inr area"
    using o by (simp add: mem_get_def bb buf_getters a sub_def flip: of_nat_diff)
  show "mem_put area 0 bs = Inr (window area 0 bs)" using n a by (simp add: mem_put_def)
  let ?m = "window m w (window area 0 bs)"
  have la: "length (window area 0 bs) = length m - w" using n a by simp
  have m': "mem_put (buffer b) (writer_index b) (window area 0 bs) = Inr ?m" "length ?m = length m"
    using o la by (simp_all add: bb mem_put_def)
  let ?b = "b\<lparr>buffer := ?m\<rparr>"
  have tk: "take w ?m = take w m" and dr: "sub ?m w (length bs) = bs" using n o la a by (auto simp: window_def sub_def)
  have inv: "buf_inv ?b" using o m'(2) by (simp add: bb buf_inv_nat)
  have ct: "content ?b = content b"
  proof -
    have "sub ?m r (w - r) = sub (take w ?m) r (w - r)" "sub m r (w - r) = sub (take w m) r (w - r)" by (simp_all add: sub_def drop_take)
    then show ?thesis using o tk m'(2) by (simp add: bb content_def readable_bytes_def nat_diff_distrib)
  qed
  have "int (length bs) \<le> writable_bytes ?b" "0 < int (length bs)" "1024 \<le> buf_size ?b" using n l m'(2) by (simp_all add: bb buf_getters)
  then obtain b' where "AddReadableLength ?b (int (length bs)) = Inr b'" "buf_inv b'"
      "content b' = content ?b @ sub (buffer ?b) (nat (writer_index ?b)) (nat (int (length bs)))" "min 1024 (buf_size ?b) \<le> writable_bytes b'"
    using AddReadableLength_spec [OF inv] by blast
  then show "\<exists>m b'. mem_put (buffer b) (writer_index b) (window area 0 bs) = Inr m \<and> AddReadableLength (b\<lparr>buffer := m\<rparr>) (int (length bs)) = Inr b' \<and>
      buf_inv b' \<and> 1024 \<le> writable_bytes b' \<and> content b' = content b @ bs"
    using m' ct dr \<open>1024 \<le> buf_size ?b\<close> by (intro exI [of _ ?m] exI [of _ b']) (simp add: bb)
qed

interpretation over_tls: chunk_source recv_tls 1024 "\<lambda>b. 1024 \<le> writable_bytes b"
proof
  fix b io ms
  assume b: "buf_inv b" "1024 \<le> writable_bytes b" and c: "calm_reads 1024 io" "received (io_reads io) \<noteq> []"
  obtain js bs as where s: "io_reads io = js @ Done bs # as" "list_all busy js" "bs \<noteq> []" "length bs \<le> 1024" "received (io_reads io) = bs @ received as"
      "length (filter (\<lambda>a. errno_of a = EAGAIN) js) \<le> length (io_late io)" "list_all Not (io_late io)"
      "\<And>k tr. k = length (filter (\<lambda>a. errno_of a = EAGAIN) js) \<Longrightarrow> calm_reads 1024 (io\<lparr>io_reads := as, io_late := drop k (io_late io), io_trace := tr\<rparr>)"
    using calm_split [OF c] by metis
  let ?area = "sub (buffer b) (nat (writer_index b)) (nat (writable_bytes b))"
  note p = publish_chunk [OF b s(4,3)]
  obtain m b' where m: "mem_put (buffer b) (writer_index b) (window ?area 0 bs) = Inr m" "AddReadableLength (b\<lparr>buffer := m\<rparr>) (int (length bs)) = Inr b'"
      "buf_inv b'" "1024 \<le> writable_bytes b'" "content b' = content b @ bs"
    using p(3) by blast
  have "call_read (Done bs) ?area = Inr (int (length bs), window ?area 0 bs)" using p(2) by (simp add: call_read_def)
  from retry_ms_skips [OF calls_ok(1) s(2) _ this s(6,7), of False ms as "io_trace io"]
  show "\<exists>bs b' io'. recv_tls ms False b io = Inr (int (length bs), False, b', io') \<and> bs \<noteq> [] \<and> buf_inv b' \<and> 1024 \<le> writable_bytes b' \<and>
      content b' = content b @ bs \<and> bs @ received (io_reads io') = received (io_reads io) \<and> calm_reads 1024 io' \<and>
      length (io_reads io') < length (io_reads io)"
    using s p(1) m by (auto simp: recv_tls_def Tls_AsyncRead_ms_def run_reads_ms_def)
qed

text \<open>The piece size up to which a stream of each kind is read.\<close>

definition piece_size :: "HttpStream \<Rightarrow> nat" where
  "piece_size hs = (if over_tls hs then 1024 else 65536)"

definition stream_ok :: "HttpStream \<Rightarrow> bool" where
  "stream_ok hs \<longleftrightarrow> buf_inv (read_buf hs) \<and> buf_inv (write_buf hs) \<and> (over_tls hs \<longrightarrow> 1024 \<le> writable_bytes (read_buf hs))"

lemma AsyncWrite_text:
  assumes "stream_ok hs" and "content (write_buf hs) = []"
  shows "\<exists>b. HttpStream_AsyncWrite m hs io =
      fbind ((if over_tls hs then Tls_AsyncWrite else Tcp_AsyncWrite) (http_text m) io) (\<lambda>(len, io).
        if len \<noteq> int (length (http_text m)) then Inr (-1, hs\<lparr>write_buf := b\<rparr>, io) else Inr (0, hs\<lparr>write_buf := TakeAll b\<rparr>, io)) \<and> buf_inv b"
proof -
  obtain b where b: "Encode m (write_buf hs) = Inr (readable_bytes b, b)" "buf_inv b" "content b = http_text m"
    using Encode_text [of "write_buf hs" m] assms by (auto simp: stream_ok_def)
  have "mem_get (buffer b) (reader_index b) (writer_index b) = Inr (http_text m)"
    using b(2,3) by (simp add: mem_get_def buf_inv_def content_def readable_bytes_def buf_size_def kCheapPrepend_def)
  moreover have "readable_bytes b = int (length (http_text m))" using length_content [OF b(2)] b(3) by simp
  ultimately show ?thesis using b by (auto simp: HttpStream_AsyncWrite_def)
qed

lemma FileReader_loop:
  "\<lbrakk>buf_inv b; list_all (\<lambda>bs. bs \<noteq> [] \<and> length bs \<le> 65536) bss; a = Done [] \<or> (\<exists>e. a = Fail e)\<rbrakk> \<Longrightarrow>
     \<exists>b'. read_all_loop (map Done bss @ a # as) b = Inr b' \<and> buf_inv b' \<and> content b' = content b @ concat bss"
proof (induction bss arbitrary: b)
  case Nil
  obtain b' where "ReadFd b (Some []) = Inr (0, b')" "buf_inv b'" "content b' = content b"
    using ReadFd_spec [OF Nil.prems(1), of "[]"] writable_bytes_nonneg [OF Nil.prems(1)] by (auto simp: ReadFd_capacity_def extrabuf_size_def)
  then show ?case using Nil by (auto simp: call_ReadFd_def ReadFd_def [of _ None])
next
  case (Cons bs bss)
  have "int (length bs) \<le> ReadFd_capacity b"
    using Cons.prems(2) writable_bytes_nonneg [OF Cons.prems(1)] by (auto simp: ReadFd_capacity_def extrabuf_size_def)
  then obtain b' where "ReadFd b (Some bs) = Inr (int (length bs), b')" "buf_inv b'" "content b' = content b @ bs"
    using ReadFd_spec [OF Cons.prems(1)] by blast
  then show ?case using Cons.IH [of b'] Cons.prems by (simp add: call_ReadFd_def)
qed

section \<open>Properties\<close>





end
