(* ===== verification/Dtls_Transport.thy ===== *)
theory Dtls_Transport
  imports Baize_Prelude
begin

text \<open>
  \<open>webrtc/dtls/dtls_transport.{h,cc}\<close>: the DTLS endpoint of a peer connection, which
  drives an OpenSSL object through two memory BIOs and takes the SRTP keys from it.

  OpenSSL is a parameter: a record of the calls the code makes on an abstract state
  \<open>'s\<close> (the \<open>SSL\<close> with its two BIOs). A call that may run the info callback returns
  the list of its invocations. \<open>SSL_export_keying_material\<close> with length \<open>n\<close> fills
  exactly \<open>n\<close> bytes, so a success is a function from positions to bytes. What
  \<open>pc_->AsyncSend\<close> is given is collected in \<open>dtls_out\<close>; \<open>dtls_timer\<close> is the delay
  \<open>timer_\<close> was started with, if it is armed. Log lines are left out.
\<close>

section \<open>OpenSSL as the code calls it\<close>

datatype SslWhere =
    SSL_CB_LOOP | SSL_CB_EXIT | SSL_CB_READ | SSL_CB_WRITE | SSL_CB_ALERT | SSL_CB_HANDSHAKE_START | SSL_CB_HANDSHAKE_DONE

datatype SslError = SSL_ERROR_NONE | SSL_ERROR_WANT_READ | SSL_ERROR_SSL | SSL_ERROR_SYSCALL | SSL_ERROR_OTHER

type_synonym info_call = "SslWhere list \<times> int"

datatype Role = CLIENT | SERVER

record 's openssl =
  SSL_new :: "'s option"
  BIO_new_ok :: "bool \<times> bool"
  SSL_set_role :: "Role \<Rightarrow> 's \<Rightarrow> 's"
  SSL_do_handshake :: "'s \<Rightarrow> info_call list \<times> 's"
  BIO_write :: "byte list \<Rightarrow> 's \<Rightarrow> 's"
  SSL_read :: "'s \<Rightarrow> int \<times> info_call list \<times> 's"
  SSL_get_error :: "'s \<Rightarrow> int \<Rightarrow> SslError"
  SSL_received_shutdown :: "'s \<Rightarrow> bool"
  SSL_selected_srtp_profile :: "'s \<Rightarrow> byte list option"
  SSL_export_keying_material :: "'s \<Rightarrow> nat \<Rightarrow> (nat \<Rightarrow> byte) option"
  BIO_mem_data :: "'s \<Rightarrow> byte list"
  BIO_reset :: "'s \<Rightarrow> 's"
  DTLSv1_get_timeout :: "'s \<Rightarrow> nat \<times> nat"
  DTLSv1_handle_timeout :: "'s \<Rightarrow> int \<times> info_call list \<times> 's"

section \<open>The transport\<close>

datatype DtlsState = NEW | CONNECTING | CONNECTED | FAILED | CLOSED

record 's DtlsTransport =
  ssl :: 's
  dtls_state :: DtlsState
  role :: Role
  HandshakeDone :: bool
  ExtractSrtpKey_done :: bool
  use_srtp :: "byte list"
  local_master :: "byte list"
  remote_master :: "byte list"
  master_len :: nat
  dtls_timer :: "nat option"
  dtls_out :: "byte list list"

definition OnSslDtlsTimer :: "u32 \<Rightarrow> u32" where
  "OnSslDtlsTimer timer_us =
     (if timer_us = 0 then 100000
      else if timer_us \<ge> 10000000 then 10000000
      else 2 * timer_us)"

definition IsDtls :: "byte list \<Rightarrow> bool" where
  "IsDtls data \<longleftrightarrow> length data \<ge> 13 \<and> data ! 0 > 19 \<and> data ! 0 < 64"

text \<open>\<open>role_\<close> is not initialised by the constructor: \<open>r\<close> is what it holds.\<close>

definition DtlsTransport_New :: "'s openssl \<Rightarrow> Role \<Rightarrow> 's DtlsTransport option" where
  "DtlsTransport_New lib r =
     (case SSL_new lib of
        None \<Rightarrow> None
      | Some s \<Rightarrow>
          if \<not> fst (BIO_new_ok lib) then None
          else if \<not> snd (BIO_new_ok lib) then None
          else Some \<lparr>ssl = s, dtls_state = NEW, role = r, HandshakeDone = False, ExtractSrtpKey_done = False,
                     use_srtp = [], local_master = replicate 64 0, remote_master = replicate 64 0,
                     master_len = 0, dtls_timer = None, dtls_out = []\<rparr>)"

definition OnSslInfo :: "info_call \<Rightarrow> 's DtlsTransport \<Rightarrow> 's DtlsTransport" where
  "OnSslInfo call d =
     (let wh = set (fst call) in
      if SSL_CB_LOOP \<in> wh then d
      else if SSL_CB_ALERT \<in> wh then d
      else if SSL_CB_EXIT \<in> wh then d
      else if SSL_CB_HANDSHAKE_START \<in> wh then d
      else if SSL_CB_HANDSHAKE_DONE \<in> wh then d\<lparr>HandshakeDone := True\<rparr>
      else d)"

definition ssl_called :: "info_call list \<Rightarrow> 's \<Rightarrow> 's DtlsTransport \<Rightarrow> 's DtlsTransport" where
  "ssl_called calls s d = fold OnSslInfo calls (d\<lparr>ssl := s\<rparr>)"

definition SendBioData :: "'s openssl \<Rightarrow> 's DtlsTransport \<Rightarrow> 's DtlsTransport" where
  "SendBioData lib d =
     (let data = BIO_mem_data lib (ssl d) in
      if data = [] then d
      else d\<lparr>dtls_out := dtls_out d @ [data], ssl := BIO_reset lib (ssl d)\<rparr>)"

definition timeout_ms :: "'s openssl \<Rightarrow> 's \<Rightarrow> nat" where
  "timeout_ms lib s = (let (tv_sec, tv_usec) = DTLSv1_get_timeout lib s in tv_sec * 1000 + tv_usec div 1000)"

text \<open>
  \<open>UpdateTimeout\<close> and \<open>HandleTimeout\<close> call each other; the fuel bounds the depth of
  the calls.
\<close>

fun UpdateTimeout :: "nat \<Rightarrow> 's openssl \<Rightarrow> 's DtlsTransport \<Rightarrow> (bool \<times> 's DtlsTransport) res"
  and HandleTimeout :: "nat \<Rightarrow> 's openssl \<Rightarrow> 's DtlsTransport \<Rightarrow> (int \<times> 's DtlsTransport) res" where
  "UpdateTimeout fuel lib d =
     (if HandshakeDone d then Inr (True, d)
      else
        let ms = timeout_ms lib (ssl d) in
        if ms = 0 then
          (case fuel of
             0 \<Rightarrow> Inl Diverge
           | Suc fuel \<Rightarrow> fbind (HandleTimeout fuel lib d) (\<lambda>(_, d). Inr (True, d)))
        else if ms < 5000 then Inr (True, d\<lparr>dtls_timer := Some ms\<rparr>)
        else Inr (False, d\<lparr>dtls_state := FAILED\<rparr>))"
| "HandleTimeout fuel lib d =
     (if HandshakeDone d then Inr (0, d)
      else
        let (ret, calls, s) = DTLSv1_handle_timeout lib (ssl d); d = ssl_called calls s d in
        if ret = 1 then
          (case fuel of
             0 \<Rightarrow> Inl Diverge
           | Suc fuel \<Rightarrow> fbind (UpdateTimeout fuel lib (SendBioData lib d)) (\<lambda>(_, d). Inr (0, d)))
        else if ret = -1 then Inr (0, d\<lparr>dtls_state := FAILED\<rparr>)
        else Inr (0, d))"

definition Initialize :: "nat \<Rightarrow> 's openssl \<Rightarrow> Role \<Rightarrow> 's DtlsTransport \<Rightarrow> 's DtlsTransport res" where
  "Initialize fuel lib r d =
     (let d = d\<lparr>dtls_state := CONNECTING, role := r\<rparr>;
          d = d\<lparr>ssl := SSL_set_role lib r (ssl d)\<rparr>;
          (calls, s) = SSL_do_handshake lib (ssl d);
          d = ssl_called calls s d in
      case r of
        CLIENT \<Rightarrow> fbind (UpdateTimeout fuel lib (SendBioData lib d)) (\<lambda>(_, d). Inr d)
      | SERVER \<Rightarrow> Inr d)"

definition is_running :: "'s DtlsTransport \<Rightarrow> bool" where
  "is_running d = (case dtls_state d of
     NEW \<Rightarrow> False | CONNECTING \<Rightarrow> True | CONNECTED \<Rightarrow> True | FAILED \<Rightarrow> False | CLOSED \<Rightarrow> False)"

definition dtls_connected :: "'s DtlsTransport \<Rightarrow> bool" where
  "dtls_connected d \<longleftrightarrow> dtls_state d = CONNECTED"

text \<open>The key and salt lengths of the two profiles the code knows.\<close>

definition profile_lens :: "byte list \<Rightarrow> (nat \<times> nat) option" where
  "profile_lens name =
     (if name = str ''SRTP_AEAD_AES_128_GCM'' then Some (16, 12)
      else if name = str ''SRTP_AES128_CM_SHA1_80'' then Some (16, 14)
      else None)"

text \<open>\<open>memcpy(dst + at, src + off, n)\<close> between two objects.\<close>

definition copy_into :: "byte list \<Rightarrow> nat \<Rightarrow> byte list \<Rightarrow> nat \<Rightarrow> nat \<Rightarrow> byte list res" where
  "copy_into dst at src off n =
     fbind (rd_sub src off n) (\<lambda>bs.
     if at + n \<le> length dst then Inr (take at dst @ bs @ drop (at + n) dst) else Inl OutOfBounds)"

text \<open>Where the local key, the remote key, the local salt and the remote salt start in \<open>srtp_material\<close>.\<close>

definition key_offsets :: "Role \<Rightarrow> nat \<Rightarrow> nat \<Rightarrow> nat \<times> nat \<times> nat \<times> nat" where
  "key_offsets r key_len salt_len = (case r of
     SERVER \<Rightarrow>
       let remote_key = 0; local_key = remote_key + key_len;
           remote_salt = local_key + key_len; local_salt = remote_salt + salt_len
       in (local_key, remote_key, local_salt, remote_salt)
   | CLIENT \<Rightarrow>
       let local_key = 0; remote_key = local_key + key_len;
           local_salt = remote_key + key_len; remote_salt = local_salt + salt_len
       in (local_key, remote_key, local_salt, remote_salt))"

definition ExtractSrtpKey :: "'s openssl \<Rightarrow> 's DtlsTransport \<Rightarrow> (bool \<times> 's DtlsTransport) res" where
  "ExtractSrtpKey lib d =
     (case SSL_selected_srtp_profile lib (ssl d) of
        None \<Rightarrow> Inr (False, d)
      | Some name \<Rightarrow>
          let d = d\<lparr>use_srtp := name\<rparr> in
          (case profile_lens name of
             None \<Rightarrow> Inr (False, d)
           | Some (key_len, salt_len) \<Rightarrow>
               let d = d\<lparr>master_len := key_len + salt_len\<rparr> in
               (case SSL_export_keying_material lib (ssl d) (master_len d * 2) of
                  None \<Rightarrow> Inr (False, d)
                | Some key_byte \<Rightarrow>
                    let material = map key_byte [0..<master_len d * 2] @ replicate (64 - master_len d * 2) 0;
                        (lk, rk, ls, rs) = key_offsets (role d) key_len salt_len in
                    fbind (copy_into (local_master d) 0 material lk key_len) (\<lambda>lm.
                    fbind (copy_into lm key_len material ls salt_len) (\<lambda>lm.
                    fbind (copy_into (remote_master d) 0 material rk key_len) (\<lambda>rm.
                    fbind (copy_into rm key_len material rs salt_len) (\<lambda>rm.
                    Inr (True, d\<lparr>local_master := lm, remote_master := rm, dtls_state := CONNECTED\<rparr>))))))))"

definition CheckStatus :: "'s openssl \<Rightarrow> int \<Rightarrow> 's DtlsTransport \<Rightarrow> (bool \<times> 's DtlsTransport) res" where
  "CheckStatus lib ret d =
     (let err = SSL_get_error lib (ssl d) ret in
      if HandshakeDone d \<and> \<not> ExtractSrtpKey_done d then
        ExtractSrtpKey lib (d\<lparr>ExtractSrtpKey_done := True, dtls_timer := None\<rparr>)
      else if SSL_received_shutdown lib (ssl d) \<or> err = SSL_ERROR_SSL \<or> err = SSL_ERROR_SYSCALL then
        Inr (False, d\<lparr>dtls_state := if dtls_state d = CONNECTED then CLOSED else FAILED\<rparr>)
      else Inr (True, d))"

definition ProcessDtlsPacket :: "nat \<Rightarrow> 's openssl \<Rightarrow> byte list \<Rightarrow> 's DtlsTransport \<Rightarrow> 's DtlsTransport res" where
  "ProcessDtlsPacket fuel lib packet d =
     (if \<not> is_running d then Inr d
      else
        let s = BIO_write lib packet (ssl d);
            (rd_ret, calls, s) = SSL_read lib s;
            d = SendBioData lib (ssl_called calls s d) in
        fbind (CheckStatus lib rd_ret d) (\<lambda>(ok, d).
        if \<not> ok then Inr d
        else fbind (UpdateTimeout fuel lib d) (\<lambda>(_, d). Inr d)))"

definition srtp_local_master :: "'s DtlsTransport \<Rightarrow> byte list" where
  "srtp_local_master d = take (master_len d) (local_master d)"

definition srtp_remote_master :: "'s DtlsTransport \<Rightarrow> byte list" where
  "srtp_remote_master d = take (master_len d) (remote_master d)"

declare UpdateTimeout.simps [simp del] HandleTimeout.simps [simp del]

text \<open>
  What can happen to an initialised transport: a DTLS packet of the peer arrives, or
  the timer expires while it is armed.
\<close>

datatype dtls_event = DtlsPacket "byte list" | DtlsTimer

definition dtls_step :: "nat \<Rightarrow> 's openssl \<Rightarrow> dtls_event \<Rightarrow> 's DtlsTransport \<Rightarrow> 's DtlsTransport res" where
  "dtls_step fuel lib ev d = (case ev of
     DtlsPacket p \<Rightarrow> ProcessDtlsPacket fuel lib p d
   | DtlsTimer \<Rightarrow>
       if dtls_timer d = None then Inr d
       else fbind (HandleTimeout fuel lib (d\<lparr>dtls_timer := None\<rparr>)) (\<lambda>(_, d). Inr d))"

fun dtls_steps :: "nat \<Rightarrow> 's openssl \<Rightarrow> dtls_event list \<Rightarrow> 's DtlsTransport \<Rightarrow> 's DtlsTransport res" where
  "dtls_steps fuel lib [] d = Inr d"
| "dtls_steps fuel lib (ev # evs) d = fbind (dtls_step fuel lib ev d) (dtls_steps fuel lib evs)"

definition dtls_run :: "nat \<Rightarrow> 's openssl \<Rightarrow> Role \<Rightarrow> Role \<Rightarrow> dtls_event list \<Rightarrow> 's DtlsTransport option res" where
  "dtls_run fuel lib r0 r evs =
     (case DtlsTransport_New lib r0 of
        None \<Rightarrow> Inr None
      | Some d \<Rightarrow> fbind (Initialize fuel lib r d) (\<lambda>d. fbind (dtls_steps fuel lib evs d) (\<lambda>d. Inr (Some d))))"

section \<open>The keys of the two ends\<close>

text \<open>
  The exported block holds, in this order, the key of the client, the key of the
  server, the salt of the client and the salt of the server (RFC 5764, section 4.2).
\<close>

definition master_of :: "Role \<Rightarrow> (nat \<Rightarrow> byte) \<Rightarrow> nat \<Rightarrow> nat \<Rightarrow> byte list" where
  "master_of r kb k s = (case r of
     CLIENT \<Rightarrow> map kb [0..<k] @ map kb [2 * k..<2 * k + s]
   | SERVER \<Rightarrow> map kb [k..<2 * k] @ map kb [2 * k + s..<2 * k + 2 * s])"

fun other_role :: "Role \<Rightarrow> Role" where
  "other_role CLIENT = SERVER"
| "other_role SERVER = CLIENT"

definition keyed :: "'s openssl \<Rightarrow> 's DtlsTransport \<Rightarrow> bool" where
  "keyed lib d \<longleftrightarrow> (\<exists>s k n kb.
     SSL_selected_srtp_profile lib s = Some (use_srtp d) \<and> profile_lens (use_srtp d) = Some (k, n) \<and>
     SSL_export_keying_material lib s ((k + n) * 2) = Some kb \<and> master_len d = k + n \<and>
     srtp_local_master d = master_of (role d) kb k n \<and>
     srtp_remote_master d = master_of (other_role (role d)) kb k n)"

text \<open>
  Well-formed transports: the arrays keep their size, the master length is one of the
  known ones, and a transport that is or was connected has finished the handshake,
  holds the keys of its session and has no timer left.
\<close>

definition dtls_wf :: "'s openssl \<Rightarrow> 's DtlsTransport \<Rightarrow> bool" where
  "dtls_wf lib d \<longleftrightarrow>
     length (local_master d) = 64 \<and> length (remote_master d) = 64 \<and> master_len d \<in> {0, 28, 30} \<and>
     (ExtractSrtpKey_done d \<longrightarrow> HandshakeDone d \<and> dtls_timer d = None) \<and>
     (dtls_state d \<in> {CONNECTED, CLOSED} \<longrightarrow> ExtractSrtpKey_done d \<and> keyed lib d)"

text \<open>The order in which the states follow each other.\<close>

fun may_become :: "DtlsState \<Rightarrow> DtlsState \<Rightarrow> bool" where
  "may_become CONNECTING s \<longleftrightarrow> s \<in> {CONNECTING, CONNECTED, FAILED}"
| "may_become CONNECTED s \<longleftrightarrow> s \<in> {CONNECTED, CLOSED}"
| "may_become s s' \<longleftrightarrow> s' = s"

text \<open>
  \<open>DTLSv1_handle_timeout\<close> returns 1 after it has sent the last flight again and has
  started the timer of the next attempt, so at least one millisecond is left.
\<close>

definition rearms :: "'s openssl \<Rightarrow> bool" where
  "rearms lib \<longleftrightarrow> (\<forall>s calls s' t. DTLSv1_handle_timeout lib s = (1, calls, s') \<longrightarrow> t \<in> {s', BIO_reset lib s'} \<longrightarrow>
     timeout_ms lib t > 0)"

lemma profile_lens_cases:
  assumes "profile_lens p = Some (k, n)"
  obtains "k = 16" "n = 12" | "k = 16" "n = 14"
  using assms by (auto simp: profile_lens_def split: if_splits)

lemma OnSslInfo_only: "\<exists>b. OnSslInfo c d = d\<lparr>HandshakeDone := b\<rparr> \<and> (HandshakeDone d \<longrightarrow> b)"
  by (cases "OnSslInfo c d = d") (auto simp: OnSslInfo_def Let_def intro: exI [of _ "HandshakeDone d"])

lemma fold_OnSslInfo: "\<exists>b. fold OnSslInfo cs d = d\<lparr>HandshakeDone := b\<rparr> \<and> (HandshakeDone d \<longrightarrow> b)"
proof (induction cs arbitrary: d)
  case Nil
  show ?case by (auto intro: exI [of _ "HandshakeDone d"])
next
  case (Cons c cs)
  obtain b where b: "OnSslInfo c d = d\<lparr>HandshakeDone := b\<rparr>" "HandshakeDone d \<longrightarrow> b" using OnSslInfo_only by blast
  obtain b' where "fold OnSslInfo cs (OnSslInfo c d) = (OnSslInfo c d)\<lparr>HandshakeDone := b'\<rparr>" "HandshakeDone (OnSslInfo c d) \<longrightarrow> b'"
    using Cons.IH by blast
  then show ?case using b by auto
qed

lemma ssl_called_only:
  obtains b where "ssl_called cs s d = d\<lparr>ssl := s, HandshakeDone := b\<rparr>" "HandshakeDone d \<Longrightarrow> b"
  using fold_OnSslInfo [of cs "d\<lparr>ssl := s\<rparr>"] unfolding ssl_called_def by auto

lemma keyed_update [simp]:
  "keyed lib (d\<lparr>ssl := s\<rparr>) = keyed lib d" "keyed lib (d\<lparr>HandshakeDone := b\<rparr>) = keyed lib d"
  "keyed lib (d\<lparr>dtls_state := st\<rparr>) = keyed lib d" "keyed lib (d\<lparr>dtls_timer := t\<rparr>) = keyed lib d"
  "keyed lib (d\<lparr>dtls_out := out\<rparr>) = keyed lib d"
  by (simp_all add: keyed_def srtp_local_master_def srtp_remote_master_def)

lemma ssl_called_wf [simp]: "dtls_wf lib d \<Longrightarrow> dtls_wf lib (ssl_called cs s d)"
  by (rule ssl_called_only [of cs s d]) (auto simp: dtls_wf_def)

lemma ssl_called_fields [simp]:
  "dtls_state (ssl_called cs s d) = dtls_state d" "ssl (ssl_called cs s d) = s" "role (ssl_called cs s d) = role d"
  "ExtractSrtpKey_done (ssl_called cs s d) = ExtractSrtpKey_done d" "dtls_timer (ssl_called cs s d) = dtls_timer d"
  by (rule ssl_called_only [of cs s d]; simp)+

lemma ssl_called_done: "HandshakeDone d \<Longrightarrow> HandshakeDone (ssl_called cs s d)"
  by (rule ssl_called_only [of cs s d]) simp

lemma SendBioData_only: "\<exists>out s. SendBioData lib d = d\<lparr>dtls_out := out, ssl := s\<rparr> \<and> s \<in> {ssl d, BIO_reset lib (ssl d)}"
proof (cases "BIO_mem_data lib (ssl d) = []")
  case True
  then have "SendBioData lib d = d\<lparr>dtls_out := dtls_out d, ssl := ssl d\<rparr>" by (simp add: SendBioData_def)
  then show ?thesis by blast
next
  case False
  then show ?thesis by (auto simp: SendBioData_def Let_def)
qed

lemma SendBioData_wf [simp]: "dtls_wf lib (SendBioData lib' d) = dtls_wf lib d"
  by (simp add: SendBioData_def Let_def dtls_wf_def)

lemma SendBioData_fields [simp]:
  "dtls_state (SendBioData lib d) = dtls_state d" "role (SendBioData lib d) = role d"
  "HandshakeDone (SendBioData lib d) = HandshakeDone d" "ExtractSrtpKey_done (SendBioData lib d) = ExtractSrtpKey_done d"
  "dtls_timer (SendBioData lib d) = dtls_timer d"
  by (simp_all add: SendBioData_def Let_def)

section \<open>Extraction of the keys\<close>

lemma sub_map_upt: "i + n \<le> m \<Longrightarrow> sub (map f [0..<m] @ z) i n = map f [i..<i + n]"
  by (simp add: sub_def drop_map take_map)

lemma copy_into_master:
  assumes "length m = 64" and "k + n \<le> 64" and "i + k \<le> length src" and "j + n \<le> length src"
  shows "\<exists>m'. fbind (copy_into m 0 src i k) (\<lambda>m. copy_into m k src j n) = Inr m' \<and> length m' = 64 \<and>
    take (k + n) m' = sub src i k @ sub src j n"
proof -
  let ?m = "sub src i k @ drop k m"
  have "copy_into m 0 src i k = Inr ?m" using assms by (simp add: copy_into_def)
  moreover have "copy_into ?m k src j n = Inr (sub src i k @ sub src j n @ drop (k + n) m)"
    using assms by (simp add: copy_into_def add.commute)
  ultimately show ?thesis using assms by simp
qed

lemma extracted_masters:
  assumes "profile_lens p = Some (k, n)" and "key_offsets r k n = (lk, rk, ls, rs)"
    and "material = map kb [0..<(k + n) * 2] @ z"
  shows "sub material lk k @ sub material ls n = master_of r kb k n"
    and "sub material rk k @ sub material rs n = master_of (other_role r) kb k n"
    and "lk + k \<le> length material" and "ls + n \<le> length material" and "rk + k \<le> length material" and "rs + n \<le> length material"
    and "k + n \<in> {28, 30}"
proof -
  have "k = 16 \<and> n \<in> {12, 14}" using assms(1) by (rule profile_lens_cases) auto
  then show "k + n \<in> {28, 30}" by auto
  have o: "(lk, rk, ls, rs) = (case r of CLIENT \<Rightarrow> (0, k, 2 * k, 2 * k + n) | SERVER \<Rightarrow> (k, 0, 2 * k + n, 2 * k))"
    unfolding assms(2) [symmetric] by (cases r) (simp_all add: key_offsets_def Let_def mult_2)
  have l: "length material \<ge> 2 * k + 2 * n" by (simp add: assms(3))
  have b: "k + k \<le> (k + n) * 2" "2 * k + n \<le> (k + n) * 2" "2 * k + n + n \<le> (k + n) * 2" "0 + k \<le> (k + n) * 2" by simp_all
  note subs = sub_map_upt [OF b(1), of kb z] sub_map_upt [OF b(2), of kb z] sub_map_upt [OF b(3), of kb z] sub_map_upt [OF b(4), of kb z]
  have e: "k + k = 2 * k" "2 * k + n + n = 2 * k + 2 * n" "0 + k = k" by simp_all
  show "sub material lk k @ sub material ls n = master_of r kb k n"
    "sub material rk k @ sub material rs n = master_of (other_role r) kb k n"
    using o by (cases r; simp only: Role.case prod.inject master_of_def other_role.simps assms(3) subs e)+
  show "lk + k \<le> length material" "ls + n \<le> length material" "rk + k \<le> length material" "rs + n \<le> length material"
    using o l by (cases r; simp)+
qed

lemma ExtractSrtpKey_spec:
  assumes "dtls_wf lib d" and "ExtractSrtpKey_done d" and "dtls_state d = CONNECTING"
  obtains b d' where "ExtractSrtpKey lib d = Inr (b, d')"
    and "dtls_wf lib d'" and "dtls_state d' = (if b then CONNECTED else CONNECTING)" and "HandshakeDone d' = HandshakeDone d"
    and "role d' = role d" and "b \<Longrightarrow> keyed lib d'"
proof -
  have wf: "length (local_master d) = 64" "length (remote_master d) = 64" "HandshakeDone d" "dtls_timer d = None"
    using assms by (auto simp: dtls_wf_def)
  show thesis
  proof (cases "\<exists>p k n kb. SSL_selected_srtp_profile lib (ssl d) = Some p \<and> profile_lens p = Some (k, n) \<and>
      SSL_export_keying_material lib (ssl d) ((k + n) * 2) = Some kb")
    case False
    then obtain d' where "ExtractSrtpKey lib d = Inr (False, d')" "dtls_wf lib d'" "dtls_state d' = CONNECTING"
      "HandshakeDone d' = HandshakeDone d" "role d' = role d"
      using assms by (fastforce simp: ExtractSrtpKey_def Let_def dtls_wf_def split: option.splits elim: profile_lens_cases)
    then show thesis using that [of False d'] by simp
  next
    case True
    then obtain p k n kb where p: "SSL_selected_srtp_profile lib (ssl d) = Some p" "profile_lens p = Some (k, n)"
      "SSL_export_keying_material lib (ssl d) ((k + n) * 2) = Some kb" by blast
    obtain lk rk ls rs where o: "key_offsets (role d) k n = (lk, rk, ls, rs)" by (metis prod_cases4)
    define mat where "mat = map kb [0..<(k + n) * 2] @ replicate (64 - (k + n) * 2) 0"
    note em = extracted_masters [OF p(2) o mat_def]
    then have len: "k + n \<le> 64" by auto
    obtain lm where lm: "fbind (copy_into (local_master d) 0 mat lk k) (\<lambda>m. copy_into m k mat ls n) = Inr lm"
      "length lm = 64" "take (k + n) lm = master_of (role d) kb k n"
      using copy_into_master [OF wf(1) len em(3,4)] em(1) by auto
    obtain rm where rm: "fbind (copy_into (remote_master d) 0 mat rk k) (\<lambda>m. copy_into m k mat rs n) = Inr rm"
      "length rm = 64" "take (k + n) rm = master_of (other_role (role d)) kb k n"
      using copy_into_master [OF wf(2) len em(5,6)] em(2) by auto
    let ?d = "d\<lparr>use_srtp := p, master_len := k + n, local_master := lm, remote_master := rm, dtls_state := CONNECTED\<rparr>"
    have "ExtractSrtpKey lib d = Inr (True, ?d)"
      using p o lm(1) rm(1) unfolding mat_def by (auto simp: ExtractSrtpKey_def fbind_Inr_iff Let_def)
    moreover have ky: "keyed lib ?d"
      unfolding keyed_def using p lm(3) rm(3) by (auto simp: srtp_local_master_def srtp_remote_master_def)
    moreover have "dtls_wf lib ?d" using ky em(7) wf lm(2) rm(2) assms(2) by (simp add: dtls_wf_def)
    ultimately show thesis using that [of True ?d] by simp
  qed
qed

lemma CheckStatus_wf:
  assumes "dtls_wf lib d" and "is_running d"
  obtains b d' where "CheckStatus lib r d = Inr (b, d')" and "dtls_wf lib d'"
    and "may_become (dtls_state d) (dtls_state d')" and "HandshakeDone d' = HandshakeDone d" and "role d' = role d"
proof (cases "HandshakeDone d \<and> \<not> ExtractSrtpKey_done d")
  case True
  let ?d = "d\<lparr>ExtractSrtpKey_done := True, dtls_timer := None\<rparr>"
  have c: "dtls_state ?d = CONNECTING"
    using assms True by (cases "dtls_state d") (auto simp: is_running_def dtls_wf_def)
  have "dtls_wf lib ?d" using assms(1) True c by (simp add: dtls_wf_def)
  then obtain b d' where d': "ExtractSrtpKey lib ?d = Inr (b, d')" "dtls_wf lib d'"
    "dtls_state d' = (if b then CONNECTED else CONNECTING)" "HandshakeDone d' = HandshakeDone ?d" "role d' = role ?d"
    by (rule ExtractSrtpKey_spec) (use c in simp_all)
  have "CheckStatus lib r d = Inr (b, d')" using d'(1) True by (simp add: CheckStatus_def Let_def)
  then show thesis by (rule that) (use d' c in simp_all)
next
  case False
  have r: "dtls_state d = CONNECTING \<or> dtls_state d = CONNECTED"
    using assms(2) by (cases "dtls_state d") (auto simp: is_running_def)
  let ?f = "\<lambda>s. d\<lparr>dtls_state := s\<rparr>"
  have wf: "dtls_wf lib (?f FAILED)" "dtls_state d = CONNECTED \<Longrightarrow> dtls_wf lib (?f CLOSED)"
    using assms(1) by (auto simp: dtls_wf_def)
  show thesis
  proof (cases "SSL_received_shutdown lib (ssl d) \<or> SSL_get_error lib (ssl d) r \<in> {SSL_ERROR_SSL, SSL_ERROR_SYSCALL}")
    case bad: True
    then have "CheckStatus lib r d = Inr (False, ?f (if dtls_state d = CONNECTED then CLOSED else FAILED))"
      using False by (auto simp: CheckStatus_def Let_def)
    then show thesis by (rule that) (use wf r in auto)
  next
    case good: False
    then have "CheckStatus lib r d = Inr (True, d)" using False by (auto simp: CheckStatus_def Let_def)
    then show thesis by (rule that) (use assms(1) r in auto)
  qed
qed

lemma failed_wf: "dtls_wf lib d \<Longrightarrow> dtls_wf lib (d\<lparr>dtls_state := FAILED\<rparr>)"
  by (simp add: dtls_wf_def)

lemma timer_wf: "dtls_wf lib d \<Longrightarrow> t = None \<or> \<not> HandshakeDone d \<Longrightarrow> dtls_wf lib (d\<lparr>dtls_timer := t\<rparr>)"
  unfolding dtls_wf_def by simp blast

lemma timeouts_wf:
  "dtls_wf lib d \<Longrightarrow> UpdateTimeout fuel lib d = Inr (b, d') \<Longrightarrow>
     dtls_wf lib d' \<and> dtls_state d' \<in> {dtls_state d, FAILED} \<and> (HandshakeDone d \<longrightarrow> d' = d) \<and> role d' = role d"
  "dtls_wf lib d \<Longrightarrow> HandleTimeout fuel lib d = Inr (i, d') \<Longrightarrow>
     dtls_wf lib d' \<and> dtls_state d' \<in> {dtls_state d, FAILED} \<and> (HandshakeDone d \<longrightarrow> d' = d) \<and> role d' = role d"
proof (induction fuel lib d and fuel lib d arbitrary: b d' and i d' rule: UpdateTimeout_HandleTimeout.induct)
  case (1 fuel lib d)
  note up = 1(3) [unfolded UpdateTimeout.simps [of fuel] Let_def]
  consider "HandshakeDone d" | "\<not> HandshakeDone d" "timeout_ms lib (ssl d) = 0"
    | "\<not> HandshakeDone d" "timeout_ms lib (ssl d) \<noteq> 0" by blast
  then show ?case
  proof cases
    case 2
    then obtain f x where "fuel = Suc f" "HandleTimeout f lib d = Inr (x, d')"
      using up by (cases fuel) (auto simp: fbind_Inr_iff)
    then show ?thesis using 1(1) [OF 2(1) refl 2(2) _ 1(2)] 2(1) by blast
  next
    case 3
    then show ?thesis using up 1(2) failed_wf [OF 1(2)] timer_wf [OF 1(2)] by (auto split: if_splits)
  qed (use up 1(2) in simp)
next
  case (2 fuel lib d)
  obtain r cs s where t: "DTLSv1_handle_timeout lib (ssl d) = (r, cs, s)" by (metis prod_cases3)
  note up = 2(3) [unfolded HandleTimeout.simps [of fuel] t Let_def prod.case]
  note w = ssl_called_wf [OF 2(2), of cs s]
  consider "HandshakeDone d" | "\<not> HandshakeDone d" "r = 1" | "\<not> HandshakeDone d" "r \<noteq> 1" by blast
  then show ?case
  proof cases
    case c: 2
    then obtain f x where "fuel = Suc f" "UpdateTimeout f lib (SendBioData lib (ssl_called cs s d)) = Inr (x, d')"
      using up by (cases fuel) (auto simp: fbind_Inr_iff)
    then show ?thesis using 2(1) [OF c(1) refl t [symmetric] refl refl c(2)] w c(1) by simp
  next
    case c: 3
    then show ?thesis using up w failed_wf [OF w] by (auto split: if_splits)
  qed (use up 2(2) in simp)
qed

lemma rearmed_Update:
  assumes "rearms lib" and "DTLSv1_handle_timeout lib s = (1, cs, s')"
  shows "\<exists>r. UpdateTimeout fuel lib (SendBioData lib (ssl_called cs s' d)) = Inr r"
proof -
  let ?d = "SendBioData lib (ssl_called cs s' d)"
  obtain out t where "?d = (ssl_called cs s' d)\<lparr>dtls_out := out, ssl := t\<rparr>" "t \<in> {s', BIO_reset lib s'}"
    using SendBioData_only [of lib "ssl_called cs s' d"] by auto
  then have "ssl ?d \<in> {s', BIO_reset lib s'}" by simp
  then have "timeout_ms lib (ssl ?d) > 0"
    by (rule assms(1) [unfolded rearms_def, rule_format, OF assms(2)])
  then show ?thesis by (subst UpdateTimeout.simps) (auto simp: Let_def)
qed

lemma timeouts_return:
  assumes "rearms lib"
  shows "\<exists>r. HandleTimeout (Suc fuel) lib d = Inr r" and "\<exists>r. UpdateTimeout (Suc (Suc fuel)) lib d = Inr r"
proof -
  show h: "\<exists>r. HandleTimeout (Suc fuel) lib d = Inr r" for d
  proof -
    obtain r cs s where t: "DTLSv1_handle_timeout lib (ssl d) = (r, cs, s)" by (metis prod_cases3)
    then show ?thesis using rearmed_Update [OF assms, of "ssl d" cs s fuel d]
      by (subst HandleTimeout.simps) (auto simp: Let_def)
  qed
  show "\<exists>r. UpdateTimeout (Suc (Suc fuel)) lib d = Inr r"
    using h [of d] by (subst UpdateTimeout.simps) (auto simp: Let_def)
qed

section \<open>Sequences of events\<close>

lemma ProcessDtlsPacket_wf:
  assumes wf: "dtls_wf lib d" and re: "rearms lib" and ru: "is_running d"
  obtains d' where "ProcessDtlsPacket (Suc (Suc fuel)) lib p d = Inr d'" and "dtls_wf lib d'"
    and "may_become (dtls_state d) (dtls_state d')" and "role d' = role d"
proof -
  obtain r cs s where t: "SSL_read lib (BIO_write lib p (ssl d)) = (r, cs, s)" by (metis prod_cases3)
  define e where "e = SendBioData lib (ssl_called cs s d)"
  have e: "dtls_wf lib e" "is_running e" "dtls_state e = dtls_state d" "role e = role d"
    using wf ru by (simp_all add: e_def is_running_def)
  obtain b d1 where d1: "CheckStatus lib r e = Inr (b, d1)" "dtls_wf lib d1" "may_become (dtls_state d) (dtls_state d1)" "role d1 = role d"
    by (rule CheckStatus_wf [OF e(1,2), of r]) (simp add: e(3,4))
  obtain c d2 where d2: "UpdateTimeout (Suc (Suc fuel)) lib d1 = Inr (c, d2)" using timeouts_return(2) [OF re] by fastforce
  note w2 = timeouts_wf(1) [OF d1(2) d2]
  have "dtls_state d1 \<in> {CONNECTED, CLOSED} \<Longrightarrow> dtls_state d2 = dtls_state d1" using w2 d1(2) by (auto simp: dtls_wf_def)
  then have m2: "may_become (dtls_state d) (dtls_state d2)"
    using d1(3) ru w2 by (cases "dtls_state d") (auto simp: is_running_def)
  have "ProcessDtlsPacket (Suc (Suc fuel)) lib p d = Inr (if b then d2 else d1)"
    using ru t d1(1) d2 by (simp add: ProcessDtlsPacket_def Let_def e_def)
  then show thesis by (rule that) (use d1 w2 m2 in auto)
qed

lemma dtls_step_wf:
  assumes wf: "dtls_wf lib d" and re: "rearms lib" and "dtls_state d = NEW \<Longrightarrow> dtls_timer d = None"
  obtains d' where "dtls_step (Suc (Suc fuel)) lib ev d = Inr d'" and "dtls_wf lib d'"
    and "may_become (dtls_state d) (dtls_state d')" and "role d' = role d"
proof (cases "(\<exists>p. ev = DtlsPacket p) \<and> \<not> is_running d \<or> ev = DtlsTimer \<and> dtls_timer d = None")
  case True
  then have "dtls_step (Suc (Suc fuel)) lib ev d = Inr d" by (auto simp: dtls_step_def ProcessDtlsPacket_def)
  then show thesis by (rule that) (use wf in \<open>cases "dtls_state d"; simp\<close>)+
next
  case False
  show thesis
  proof (cases ev)
    case (DtlsPacket p)
    then show thesis using False ProcessDtlsPacket_wf [OF wf re, of fuel p] that by (auto simp: dtls_step_def)
  next
    case DtlsTimer
    let ?d = "d\<lparr>dtls_timer := None\<rparr>"
    have w: "dtls_wf lib ?d" by (rule timer_wf [OF wf]) simp
    obtain i d' where h: "HandleTimeout (Suc (Suc fuel)) lib ?d = Inr (i, d')" using timeouts_return(1) [OF re] by fastforce
    have "\<not> dtls_state d \<in> {NEW, CONNECTED, CLOSED}" using False DtlsTimer wf assms(3) by (auto simp: dtls_wf_def)
    then have "may_become (dtls_state d) (dtls_state d')" using timeouts_wf(2) [OF w h] by (cases "dtls_state d") auto
    then show thesis using that [of d'] timeouts_wf(2) [OF w h] h False DtlsTimer by (auto simp: dtls_step_def)
  qed
qed

lemma dtls_steps_wf:
  assumes "dtls_wf lib d" and "rearms lib" and "dtls_state d \<noteq> NEW"
  shows "\<exists>d'. dtls_steps (Suc (Suc fuel)) lib evs d = Inr d' \<and> dtls_wf lib d' \<and> dtls_state d' \<noteq> NEW \<and> role d' = role d"
  using assms
proof (induction evs arbitrary: d)
  case (Cons ev evs)
  obtain d1 where d1: "dtls_step (Suc (Suc fuel)) lib ev d = Inr d1" "dtls_wf lib d1" "may_become (dtls_state d) (dtls_state d1)" "role d1 = role d"
    by (rule dtls_step_wf [OF Cons.prems(1,2), of fuel ev]) (use Cons.prems(3) in auto)
  then have "dtls_state d1 \<noteq> NEW" using Cons.prems(3) by (cases "dtls_state d") auto
  then show ?case using Cons.IH [OF d1(2) Cons.prems(2)] d1(1,4) by auto
qed simp

text \<open>Once the keys are extracted they stay.\<close>

lemma dtls_step_keys:
  assumes "dtls_wf lib d" and "dtls_state d \<in> {CONNECTED, CLOSED}" and "dtls_step fuel lib ev d = Inr d'"
  shows "use_srtp d' = use_srtp d" and "srtp_local_master d' = srtp_local_master d" and "srtp_remote_master d' = srtp_remote_master d"
    and "dtls_wf lib d'" and "dtls_state d' \<in> {CONNECTED, CLOSED}"
proof -
  have x: "ExtractSrtpKey_done d" "HandshakeDone d" "dtls_timer d = None" using assms(1,2) by (auto simp: dtls_wf_def)
  have same: "\<exists>s out. d' = d\<lparr>dtls_out := out, ssl := s\<rparr> \<or> d' = d\<lparr>dtls_out := out, ssl := s, dtls_state := CLOSED\<rparr>"
  proof (cases "\<exists>p. ev = DtlsPacket p \<and> is_running d")
    case True
    then obtain p where p: "ev = DtlsPacket p" by blast
    obtain r cs s where t: "SSL_read lib (BIO_write lib p (ssl d)) = (r, cs, s)" by (metis prod_cases3)
    have "ssl_called cs s d = d\<lparr>ssl := s\<rparr>" by (rule ssl_called_only [of cs s d]) (use x(2) in \<open>cases d; simp\<close>)
    then obtain out s' where e: "SendBioData lib (ssl_called cs s d) = d\<lparr>dtls_out := out, ssl := s'\<rparr>"
      using SendBioData_only [of lib "d\<lparr>ssl := s\<rparr>"] by auto
    let ?e = "d\<lparr>dtls_out := out, ssl := s'\<rparr>"
    have "d' = ?e \<or> d' = ?e\<lparr>dtls_state := if dtls_state d = CONNECTED then CLOSED else FAILED\<rparr>"
      using assms(3) True p t x e
      by (auto simp: dtls_step_def ProcessDtlsPacket_def CheckStatus_def Let_def UpdateTimeout.simps split: if_splits)
    moreover have "dtls_state d = CONNECTED" using True assms(2) by (auto simp: is_running_def)
    ultimately show ?thesis by auto
  next
    case False
    then have "d' = d" using assms(3) x(3) by (cases ev) (auto simp: dtls_step_def ProcessDtlsPacket_def)
    then have "d' = d\<lparr>dtls_out := dtls_out d, ssl := ssl d\<rparr>" by simp
    then show ?thesis by blast
  qed
  then show "use_srtp d' = use_srtp d" "srtp_local_master d' = srtp_local_master d" "srtp_remote_master d' = srtp_remote_master d"
    "dtls_wf lib d'" "dtls_state d' \<in> {CONNECTED, CLOSED}"
    using assms(1,2) by (auto simp: srtp_local_master_def srtp_remote_master_def dtls_wf_def)
qed

lemma Initialize_wf:
  assumes "DtlsTransport_New lib r0 = Some d" and "rearms lib"
  obtains d' where "Initialize (Suc (Suc fuel)) lib r d = Inr d'" and "dtls_wf lib d'" and "dtls_state d' \<noteq> NEW" and "role d' = r"
proof -
  let ?d = "d\<lparr>dtls_state := CONNECTING, role := r, ssl := SSL_set_role lib r (ssl d)\<rparr>"
  have w: "dtls_wf lib ?d" using assms(1) by (auto simp: DtlsTransport_New_def dtls_wf_def split: option.splits if_splits)
  obtain cs s where t: "SSL_do_handshake lib (ssl ?d) = (cs, s)" by (cases "SSL_do_handshake lib (ssl ?d)")
  let ?e = "SendBioData lib (ssl_called cs s ?d)"
  obtain c d2 where d2: "UpdateTimeout (Suc (Suc fuel)) lib ?e = Inr (c, d2)" using timeouts_return(2) [OF assms(2)] by fastforce
  have w2: "dtls_wf lib d2" "dtls_state d2 \<noteq> NEW" "role d2 = r" using timeouts_wf(1) [of lib ?e, OF _ d2] w by auto
  have "Initialize (Suc (Suc fuel)) lib r d = Inr (if r = CLIENT then d2 else ssl_called cs s ?d)"
    using t d2 by (cases r) (simp_all add: Initialize_def Let_def)
  then show thesis by (rule that) (use w2 ssl_called_wf [OF w] in auto)
qed

lemma dtls_run_wf:
  assumes "rearms lib" and "DtlsTransport_New lib r0 \<noteq> None"
  obtains d where "dtls_run (Suc (Suc fuel)) lib r0 r evs = Inr (Some d)" and "dtls_wf lib d" and "dtls_state d \<noteq> NEW" and "role d = r"
proof -
  obtain d0 where d0: "DtlsTransport_New lib r0 = Some d0" using assms(2) by blast
  obtain d1 where d1: "Initialize (Suc (Suc fuel)) lib r d0 = Inr d1" "dtls_wf lib d1" "dtls_state d1 \<noteq> NEW" "role d1 = r"
    by (rule Initialize_wf [OF d0 assms(1), of fuel r])
  show thesis using dtls_steps_wf [OF d1(2) assms(1) d1(3), of fuel evs] d0 d1 that by (auto simp: dtls_run_def)
qed

lemma dtls_steps_append: "dtls_steps fuel lib (evs @ evs') d = fbind (dtls_steps fuel lib evs d) (dtls_steps fuel lib evs')"
proof (induction evs arbitrary: d)
  case (Cons ev evs)
  then have "dtls_steps fuel lib (evs @ evs') = (\<lambda>x. fbind (dtls_steps fuel lib evs x) (dtls_steps fuel lib evs'))" by blast
  then show ?case by (simp add: fbind_assoc)
qed simp

lemma two_less_fuel: "2 \<le> fuel \<Longrightarrow> \<exists>f. fuel = Suc (Suc f)"
  by (cases fuel; cases "fuel - 1") auto

lemma dtls_run_Some:
  assumes "rearms lib" and "2 \<le> fuel" and "dtls_run fuel lib r0 r evs = Inr (Some d)"
  shows "dtls_wf lib d" and "dtls_state d \<noteq> NEW" and "role d = r"
proof -
  obtain f where f: "fuel = Suc (Suc f)" using two_less_fuel [OF assms(2)] by blast
  have "DtlsTransport_New lib r0 \<noteq> None" using assms(3) by (cases "DtlsTransport_New lib r0") (auto simp: dtls_run_def)
  then obtain e where "dtls_run fuel lib r0 r evs = Inr (Some e)" "dtls_wf lib e" "dtls_state e \<noteq> NEW" "role e = r"
    unfolding f by (rule dtls_run_wf [OF assms(1), of r0 f r evs])
  then show "dtls_wf lib d" "dtls_state d \<noteq> NEW" "role d = r" using assms(3) by simp_all
qed

text \<open>
  A session whose handshake ends with the first packet, as a concrete OpenSSL: the
  state counts the packets.
\<close>

definition demo_ssl :: "nat openssl" where
  "demo_ssl = \<lparr>SSL_new = Some 0, BIO_new_ok = (True, True), SSL_set_role = (\<lambda>r s. s),
     SSL_do_handshake = (\<lambda>s. ([], s)), BIO_write = (\<lambda>p s. Suc s),
     SSL_read = (\<lambda>s. (-1, if s = 1 then [([SSL_CB_HANDSHAKE_DONE], 1)] else [], s)),
     SSL_get_error = (\<lambda>s r. SSL_ERROR_WANT_READ), SSL_received_shutdown = (\<lambda>s. False),
     SSL_selected_srtp_profile = (\<lambda>s. Some (str ''SRTP_AES128_CM_SHA1_80'')),
     SSL_export_keying_material = (\<lambda>s n. Some word_of_nat), BIO_mem_data = (\<lambda>s. []), BIO_reset = (\<lambda>s. s),
     DTLSv1_get_timeout = (\<lambda>s. (1, 0)), DTLSv1_handle_timeout = (\<lambda>s. (0, [], s))\<rparr>"

section \<open>Properties\<close>

text \<open>C16. 
  Every sequence of packets and expired timers leaves the transport well-formed: the
  key arrays keep their 64 bytes, the master length is 0, 28 or 30, a transport that
  is or was connected has completed the handshake, holds the keys exported for its
  role and has no handshake timer left. No call fails, and a depth of two nested
  timeout calls is enough when OpenSSL restarts its timer after a retransmission.
\<close>

theorem dtls_run_well_formed:
  assumes "rearms lib" and "DtlsTransport_New lib r0 \<noteq> None" and "2 \<le> fuel"
  shows "\<exists>d. dtls_run fuel lib r0 r evs = Inr (Some d) \<and> dtls_wf lib d \<and> role d = r"
proof -
  obtain f where "fuel = Suc (Suc f)" using two_less_fuel [OF assms(3)] by blast
  then show ?thesis using dtls_run_wf [OF assms(1,2), of f r evs] by blast
qed

lemma demo_rearms: "rearms demo_ssl"
  by (simp add: rearms_def demo_ssl_def)

lemma demo_New: "DtlsTransport_New demo_ssl r0 \<noteq> None"
  by (simp add: DtlsTransport_New_def demo_ssl_def)

theorem dtls_run_well_formed_witness:
  "\<exists>d. dtls_run 2 demo_ssl SERVER SERVER [DtlsPacket (replicate 13 22), DtlsTimer] = Inr (Some d) \<and> dtls_wf demo_ssl d \<and> role d = SERVER"
  by (rule dtls_run_well_formed [OF demo_rearms demo_New]) simp

text \<open>C17. 
  The state only advances: from connecting to connected or failed, from connected to
  closed, and no event brings a failed or closed transport back.
\<close>

theorem dtls_state_only_advances:
  assumes "rearms lib" and "2 \<le> fuel" and "dtls_run fuel lib r0 r evs = Inr (Some d)"
  shows "\<exists>d'. dtls_run fuel lib r0 r (evs @ [ev]) = Inr (Some d') \<and> may_become (dtls_state d) (dtls_state d')"
proof -
  obtain f where f: "fuel = Suc (Suc f)" using two_less_fuel [OF assms(2)] by blast
  note d = dtls_run_Some [OF assms]
  obtain d' where d': "dtls_step fuel lib ev d = Inr d'" "may_become (dtls_state d) (dtls_state d')"
    unfolding f by (rule dtls_step_wf [OF d(1) assms(1), of f ev]) (use d(2) in auto)
  have "dtls_run fuel lib r0 r (evs @ [ev]) = Inr (Some d')"
    using assms(3) d'(1) by (auto simp: dtls_run_def dtls_steps_append fbind_Inr_iff split: option.splits)
  then show ?thesis using d'(2) by blast
qed

theorem dtls_state_only_advances_witness:
  "\<exists>d'. dtls_run 2 demo_ssl SERVER SERVER ([] @ [DtlsPacket (replicate 13 22)]) = Inr (Some d') \<and> may_become CONNECTING (dtls_state d')"
proof -
  obtain d where d: "dtls_run 2 demo_ssl SERVER SERVER [] = Inr (Some d)" "dtls_state d = CONNECTING"
    by (simp add: dtls_run_def DtlsTransport_New_def Initialize_def ssl_called_def demo_ssl_def)
  show ?thesis using dtls_state_only_advances [OF demo_rearms _ d(1), of "DtlsPacket (replicate 13 22)"] d(2) by simp
qed



end
