(* ===== verification/Srtp_Session.thy ===== *)
theory Srtp_Session
  imports Baize_Prelude
begin

text \<open>
  \<open>webrtc/rtp/srtp_session.{h,cc}\<close>: a session of libsrtp for one direction.

  libsrtp is a parameter: a record of the calls the code makes on an abstract
  session \<open>'c\<close>. A call on a packet returns whether its status is
  \<open>srtp_err_status_ok\<close>, the bytes from \<open>data\<close> on up to the size it writes back, and
  the session. \<open>cipher_key_len\<close> is what the two \<open>srtp_crypto_policy_set\<close> functions store.
\<close>

datatype srtp_cipher = aes_gcm_128_16_auth | aes_cm_128_hmac_sha1_80

datatype srtp_ssrc_type = ssrc_any_inbound | ssrc_any_outbound

record srtp_policy =
  rtp_cipher :: srtp_cipher
  rtcp_cipher :: srtp_cipher
  ssrc_type :: srtp_ssrc_type
  ssrc_value :: nat
  policy_key :: "byte list"
  allow_repeat_tx :: bool
  window_size :: nat

record 'c libsrtp =
  cipher_key_len :: "srtp_cipher \<Rightarrow> nat"
  srtp_create :: "srtp_policy \<Rightarrow> 'c option"
  srtp_protect :: "'c \<Rightarrow> byte list \<Rightarrow> bool \<times> byte list \<times> 'c"
  srtp_unprotect :: "'c \<Rightarrow> byte list \<Rightarrow> bool \<times> byte list \<times> 'c"
  srtp_protect_rtcp :: "'c \<Rightarrow> byte list \<Rightarrow> bool \<times> byte list \<times> 'c"
  srtp_unprotect_rtcp :: "'c \<Rightarrow> byte list \<Rightarrow> bool \<times> byte list \<times> 'c"

datatype SrtpType = kInBound | kOutBound

definition SrtpSession_New :: "'c libsrtp \<Rightarrow> SrtpType \<Rightarrow> byte list \<Rightarrow> byte list \<Rightarrow> 'c option" where
  "SrtpSession_New lib ty profile key =
     (case (if profile = str ''SRTP_AEAD_AES_128_GCM'' then Some aes_gcm_128_16_auth
            else if profile = str ''SRTP_AES128_CM_SHA1_80'' then Some aes_cm_128_hmac_sha1_80
            else None) of
        None \<Rightarrow> None
      | Some cipher \<Rightarrow>
          let dir = (case ty of kInBound \<Rightarrow> ssrc_any_inbound | kOutBound \<Rightarrow> ssrc_any_outbound) in
          if length key \<noteq> cipher_key_len lib cipher then None
          else srtp_create lib \<lparr>rtp_cipher = cipher, rtcp_cipher = cipher, ssrc_type = dir, ssrc_value = 0,
                 policy_key = key, allow_repeat_tx = True, window_size = 1024\<rparr>)"

text \<open>
  What a failed call leaves: the piece keeps its size, over memory the call may have
  written to.
\<close>

definition overlay :: "byte list \<Rightarrow> byte list \<Rightarrow> byte list" where
  "overlay data packet = take (length packet) (data @ drop (length data) packet)"

definition after_call :: "byte list \<Rightarrow> bool \<times> byte list \<times> 'c \<Rightarrow> bool \<times> byte list \<times> 'c" where
  "after_call packet r =
     (let (ok, data, c) = r in
      if \<not> ok \<or> length data \<le> 0 then (False, overlay data packet, c) else (True, data, c))"

definition EncryptRtp :: "'c libsrtp \<Rightarrow> 'c \<Rightarrow> byte list \<Rightarrow> bool \<times> byte list \<times> 'c" where
  "EncryptRtp lib c packet = after_call packet (srtp_protect lib c packet)"

definition DecryptRtp :: "'c libsrtp \<Rightarrow> 'c \<Rightarrow> byte list \<Rightarrow> bool \<times> byte list \<times> 'c" where
  "DecryptRtp lib c packet = after_call packet (srtp_unprotect lib c packet)"

definition EncryptRtcp :: "'c libsrtp \<Rightarrow> 'c \<Rightarrow> byte list \<Rightarrow> bool \<times> byte list \<times> 'c" where
  "EncryptRtcp lib c packet = after_call packet (srtp_protect_rtcp lib c packet)"

definition DecryptRtcp :: "'c libsrtp \<Rightarrow> 'c \<Rightarrow> byte list \<Rightarrow> bool \<times> byte list \<times> 'c" where
  "DecryptRtcp lib c packet = after_call packet (srtp_unprotect_rtcp lib c packet)"

section \<open>What the library promises\<close>

text \<open>
  The key lengths of the two policies (key and salt), and a session that keeps the
  policy it was created with through every call on it.
\<close>

definition srtp_lib_ok :: "'c libsrtp \<Rightarrow> ('c \<Rightarrow> srtp_policy) \<Rightarrow> bool" where
  "srtp_lib_ok lib policy_of \<longleftrightarrow>
     cipher_key_len lib aes_gcm_128_16_auth = 28 \<and> cipher_key_len lib aes_cm_128_hmac_sha1_80 = 30 \<and>
     (\<forall>p c. srtp_create lib p = Some c \<longrightarrow> policy_of c = p) \<and>
     (\<forall>c d. policy_of (snd (snd (srtp_protect lib c d))) = policy_of c) \<and>
     (\<forall>c d. policy_of (snd (snd (srtp_unprotect lib c d))) = policy_of c) \<and>
     (\<forall>c d. policy_of (snd (snd (srtp_protect_rtcp lib c d))) = policy_of c) \<and>
     (\<forall>c d. policy_of (snd (snd (srtp_unprotect_rtcp lib c d))) = policy_of c)"

lemma length_overlay [simp]: "length (overlay data packet) = length packet"
  by (simp add: overlay_def)

lemma after_call_session [simp]: "snd (snd (after_call packet r)) = snd (snd r)"
  by (simp add: after_call_def split_beta Let_def)

lemma calls_keep_policy:
  assumes "srtp_lib_ok lib policy_of"
  shows "policy_of (snd (snd (EncryptRtp lib c d))) = policy_of c"
    and "policy_of (snd (snd (DecryptRtp lib c d))) = policy_of c"
    and "policy_of (snd (snd (EncryptRtcp lib c d))) = policy_of c"
    and "policy_of (snd (snd (DecryptRtcp lib c d))) = policy_of c"
  using assms by (simp_all add: srtp_lib_ok_def EncryptRtp_def DecryptRtp_def EncryptRtcp_def DecryptRtcp_def)

lemma SrtpSession_New_policy:
  assumes "srtp_lib_ok lib policy_of" and "SrtpSession_New lib ty profile key = Some c"
  shows "policy_key (policy_of c) = key"
    and "ssrc_type (policy_of c) = (case ty of kInBound \<Rightarrow> ssrc_any_inbound | kOutBound \<Rightarrow> ssrc_any_outbound)"
  using assms by (auto simp: SrtpSession_New_def srtp_lib_ok_def Let_def split: if_splits option.splits)

lemma after_call_nonempty: "fst (after_call packet r) \<Longrightarrow> fst (snd (after_call packet r)) = fst (snd r) \<and> fst (snd r) \<noteq> []"
  by (cases r) (auto simp: after_call_def Let_def split: if_splits)

end
