(* ===== verification/Peer_Connection.thy ===== *)
theory Peer_Connection
  imports Ice_Server Sdp_Message Rtcp_Packet Dtls_Transport Srtp_Session
begin

text \<open>
  \<open>webrtc/pc/peer_connection.{h,cc}\<close> and the settings of \<open>webrtc/pc/webrtc_settings.cc\<close>
  it reads: what a peer connection does with a datagram of its peer. ICE comes first,
  then DTLS, then the media packets, which are echoed with another source.

  The datagrams given to \<open>AsyncSend\<close> are collected in \<open>pc_sent\<close>, in order; \<open>pli_timer\<close>
  is the delay the timer was started with. A pck is the bytes of its slice; memory
  behind the slice is not part of it, so a read there is a fault. Log lines are left
  out, but what \<open>ProcessRtcp\<close> prints is returned, since it has no other effect.
\<close>

section \<open>Settings\<close>

definition local_sdp :: SdpMessage where
  "local_sdp = \<lparr>cname = [], tracks = [], sdp_net =
     \<lparr>ice_ufrag = str ''2eaP'', ice_pwd = str ''0HK9scLUJ8kv2TiuDAPHccjb'',
      finger_print = str ''3E:7B:7D:D0:03:75:8A:E1:D6:69:32:D3:A3:EE:57:D2:4B:11:13:F3:5F:F6:3F:91:5D:DF:F6:E8:3A:0A:D2:09'',
      ice_option = str ''ice-lite'', net_setup = [], net_ip = str ''101.43.183.201'', net_port = 6061\<rparr>\<rparr>"

text \<open>The lines of \<open>local_sdp_string\<close>; all of them fit into the 8192 bytes of its buffer.\<close>

definition local_sdp_lines :: "byte list list" where
  "local_sdp_lines =
     (let n = sdp_net local_sdp; ssrc = 1234 in
      [str ''v=0'',
       str ''o=- 1495799811084970 1495799811084970 IN IP4 0.0.0.0'',
       str ''s=baize webrtc sfu server'',
       str ''c=IN IP4 0.0.0.0'',
       str ''t=0 0'',
       str ''a=ice-options:'' @ ice_option n,
       str ''a=msid-semantic: WMS baize'',
       str ''a=group:BUNDLE 0'',
       str ''m=video 9 RTP/SAVPF 127'',
       str ''a=rtpmap:127 H264/90000'',
       str ''a=setup:passive'',
       str ''a=mid:0'',
       str ''a=sendrecv'',
       str ''a=ice-ufrag:'' @ ice_ufrag n,
       str ''a=ice-pwd:'' @ ice_pwd n,
       str ''a=fingerprint:sha-256 '' @ finger_print n,
       str ''a=msid:baize baizev0'',
       str ''a=ssrc:'' @ decimal ssrc @ str '' cname:baizevideo'',
       str ''a=ssrc:'' @ decimal ssrc @ str '' msid:baize baizev0'',
       str ''a=candidate:1 1 udp 1 '' @ net_ip n @ str '' '' @ decimal (unat (net_port n)) @ str '' typ host'',
       str ''a=rtcp-mux'',
       str ''a=rtcp-rsize''])"

definition local_sdp_string :: "byte list" where
  "local_sdp_string = take 8191 (concat (map (\<lambda>l. l @ crlf) local_sdp_lines))"

section \<open>The connection\<close>

record ('s, 'c) PeerConnection =
  pc_addr :: InetAddress
  pc_sdp :: SdpMessage
  established :: bool
  ice :: "IceServer option"
  dtls :: "'s DtlsTransport option"
  srtp_send_session :: "'c option"
  srtp_recv_session :: "'c option"
  pli_timer :: "int option"
  pc_sent :: "byte list list"

text \<open>
  The libraries, and the indeterminate values of locals and members the constructors
  leave open: the class and method of a STUN packet, and the role of a transport.
\<close>

record ('s, 'c) pc_env =
  env_hmac :: "byte list \<Rightarrow> byte list \<Rightarrow> byte list"
  env_ssl :: "'s openssl"
  env_srtp :: "'c libsrtp"
  env_klass :: StunClass
  env_method :: u16
  env_role :: Role
  env_fuel :: nat

definition PeerConnection_new :: "InetAddress \<Rightarrow> SdpMessage \<Rightarrow> ('s, 'c) PeerConnection" where
  "PeerConnection_new a sdp = \<lparr>pc_addr = a, pc_sdp = sdp, established = False, ice = None, dtls = None,
     srtp_send_session = None, srtp_recv_session = None, pli_timer = None, pc_sent = []\<rparr>"

definition pc_send :: "('s, 'c) PeerConnection \<Rightarrow> byte list list \<Rightarrow> ('s, 'c) PeerConnection" where
  "pc_send pc ds = pc\<lparr>pc_sent := pc_sent pc @ ds\<rparr>"

text \<open>The transport after a call on it, with what the call sent.\<close>

definition put_dtls :: "('s, 'c) PeerConnection \<Rightarrow> 's DtlsTransport \<Rightarrow> ('s, 'c) PeerConnection" where
  "put_dtls pc d = pc_send (pc\<lparr>dtls := Some (d\<lparr>dtls_out := []\<rparr>)\<rparr>) (dtls_out d)"

section \<open>Picture loss indications\<close>

text \<open>\<open>atoi\<close>: blanks, a sign, digits; a number that does not fit a \<open>long\<close> is cut to its limits.\<close>

definition is_space :: "byte \<Rightarrow> bool" where
  "is_space b \<longleftrightarrow> b = 0x20 \<or> 0x09 \<le> b \<and> b \<le> 0x0D"

definition is_digit_byte :: "byte \<Rightarrow> bool" where
  "is_digit_byte b \<longleftrightarrow> 0x30 \<le> b \<and> b \<le> 0x39"

definition strtol10 :: "byte list \<Rightarrow> int" where
  "strtol10 s =
     (let s = dropWhile is_space s;
          (neg, s) = (case s of [] \<Rightarrow> (False, [])
            | b # bs \<Rightarrow> if b = 0x2D then (True, bs) else if b = 0x2B then (False, bs) else (False, s));
          n = foldl (\<lambda>n b. 10 * n + (int (unat b) - 48)) 0 (takeWhile is_digit_byte s)
      in if neg then max (- (2 ^ 63)) (- n) else min (2 ^ 63 - 1) n)"

definition atoi :: "byte list \<Rightarrow> int" where
  "atoi s = signed_take_bit 31 (strtol10 s)"

definition pli_for :: "byte list \<Rightarrow> PliPsFb" where
  "pli_for source =
     \<lparr>pli_comm = \<lparr>ch_count = 1, ch_padding = 0, ch_version = 2, ch_type = 206, ch_length = 2\<rparr>,
      pli_fb = \<lparr>sender_ssrc = 1234, media_ssrc = word_of_int (atoi source)\<rparr>\<rparr>"

definition SendPli :: "('s, 'c) pc_env \<Rightarrow> ('s, 'c) PeerConnection \<Rightarrow> ('s, 'c) PeerConnection res" where
  "SendPli env pc =
     (case tracks (pc_sdp pc) of
        [] \<Rightarrow> Inl OutOfBounds
      | track # _ \<Rightarrow>
          (case ssrc_group track of
             [] \<Rightarrow> Inl OutOfBounds
           | source # _ \<Rightarrow>
               fbind (Pli_Encode (pli_for source) (replicate 1500 0) 1500) (\<lambda>(_, buf, len).
               case srtp_send_session pc of
                 None \<Rightarrow> Inl NullDeref
               | Some c \<Rightarrow>
                   let (_, pli_packet, c) = EncryptRtcp (env_srtp env) c (take len buf) in
                   Inr (pc_send (pc\<lparr>srtp_send_session := Some c\<rparr>) [pli_packet]))))"

definition OnPliTimer :: "('s, 'c) pc_env \<Rightarrow> ('s, 'c) PeerConnection \<Rightarrow> (int \<times> ('s, 'c) PeerConnection) res" where
  "OnPliTimer env pc = fbind (SendPli env pc) (\<lambda>pc. Inr (1000 * 2, pc))"

section \<open>RTCP\<close>

text \<open>What one round of the loop prints: a dumped packet, or a line with the type.\<close>

datatype rtcp_log = LogSr SrPacket | LogRr RrPacket | LogSdes SdesPacket | LogPli PliPsFb | LogType byte | LogUnknown byte

definition CommonHeader_new :: CommonHeader where
  "CommonHeader_new = \<lparr>ch_count = 0, ch_padding = 0, ch_version = 0, ch_type = 0, ch_length = 0\<rparr>"

definition SrPacket_new :: SrPacket where
  "SrPacket_new = \<lparr>sr_comm = CommonHeader_new,
     send_info = \<lparr>si_ssrc = 0, ntp_sec = 0, ntp_frac = 0, rtp_ts = 0, packet_count = 0, octet_count = 0\<rparr>, sr_reports = []\<rparr>"

definition RrPacket_new :: RrPacket where
  "RrPacket_new = \<lparr>rr_comm = CommonHeader_new, rr_sender_ssrc = 0, rr_reports = []\<rparr>"

definition SdesPacket_new :: SdesPacket where
  "SdesPacket_new = \<lparr>sdes_comm = CommonHeader_new, chunks = []\<rparr>"

definition PliPsFb_new :: PliPsFb where
  "PliPsFb_new = \<lparr>pli_comm = CommonHeader_new, pli_fb = \<lparr>sender_ssrc = 0, media_ssrc = 0\<rparr>\<rparr>"

text \<open>The \<open>switch\<close> over the type of the header; every decoder is given the whole packet.\<close>

definition rtcp_switch :: "byte list \<Rightarrow> CommonHeader \<Rightarrow> rtcp_log res" where
  "rtcp_switch pck header =
     (let t = ch_type header in
      if t = rtcp_type_code SR then fbind (Sr_Decode SrPacket_new pck) (\<lambda>(_, p). Inr (LogSr p))
      else if t = rtcp_type_code RR then fbind (Rr_Decode RrPacket_new pck) (\<lambda>(_, p). Inr (LogRr p))
      else if t = rtcp_type_code SDES then fbind (Sdes_Decode SdesPacket_new pck) (\<lambda>(_, p). Inr (LogSdes p))
      else if t \<in> {rtcp_type_code BYE, rtcp_type_code APP, rtcp_type_code RTPFB} then Inr (LogType t)
      else if t = rtcp_type_code PSFB then
        if ch_count header = 1 then fbind (Pli_Decode PliPsFb_new pck) (\<lambda>(_, p). Inr (LogPli p))
        else Inr (LogType t)
      else if t = rtcp_type_code XR then Inr (LogType t)
      else Inr (LogUnknown t))"

text \<open>The loop; \<open>off\<close> is how far \<open>data\<close> has moved.\<close>

function ProcessRtcp_loop :: "byte list \<Rightarrow> nat \<Rightarrow> (int \<times> rtcp_log list) res" where
  "ProcessRtcp_loop pck off =
     (if length pck - off > 0 then
        fbind (IsRtcp pck) (\<lambda>is_rtcp.
        if \<not> is_rtcp then Inr (-1, [])
        else
          fbind (load_common_header (drop off pck)) (\<lambda>header.
          let packet_len = (unat (ch_length header) + 1) * 4 in
          if length pck - off < packet_len then Inr (-1, [])
          else
            fbind (rtcp_switch pck header) (\<lambda>l.
            fbind (ProcessRtcp_loop pck (off + packet_len)) (\<lambda>(r, ls). Inr (r, l # ls)))))
      else Inr (0, []))"
  by pat_completeness auto

termination
  by (relation "measure (\<lambda>(pck, off). length pck - off)") auto

declare ProcessRtcp_loop.simps [simp del]

definition ProcessRtcp :: "byte list \<Rightarrow> (int \<times> rtcp_log list) res" where
  "ProcessRtcp pck = ProcessRtcp_loop pck 0"

section \<open>A datagram of the peer\<close>

definition ensure_ice :: "('s, 'c) PeerConnection \<Rightarrow> (IceServer \<times> ('s, 'c) PeerConnection) res" where
  "ensure_ice pc = (case ice pc of
     Some i \<Rightarrow> Inr (i, pc)
   | None \<Rightarrow> fbind (IceServer_new (ice_pwd (sdp_net local_sdp))) (\<lambda>i. Inr (i, pc\<lparr>ice := Some i\<rparr>)))"

definition ensure_dtls :: "('s, 'c) pc_env \<Rightarrow> ('s, 'c) PeerConnection \<Rightarrow> ('s DtlsTransport \<times> ('s, 'c) PeerConnection) res" where
  "ensure_dtls env pc = (case dtls pc of
     Some d \<Rightarrow> Inr (d, pc)
   | None \<Rightarrow>
       (case DtlsTransport_New (env_ssl env) (env_role env) of
          None \<Rightarrow> Inl NullDeref
        | Some d \<Rightarrow>
            fbind (Initialize (env_fuel env) (env_ssl env) SERVER d) (\<lambda>d.
            Inr (d\<lparr>dtls_out := []\<rparr>, put_dtls pc d))))"

definition ensure_sessions :: "('s, 'c) pc_env \<Rightarrow> 's DtlsTransport \<Rightarrow> ('s, 'c) PeerConnection \<Rightarrow> bool \<times> ('s, 'c) PeerConnection" where
  "ensure_sessions env d pc =
     (let pc = (case srtp_send_session pc of
            Some _ \<Rightarrow> pc
          | None \<Rightarrow> pc\<lparr>srtp_send_session := SrtpSession_New (env_srtp env) kOutBound (use_srtp d) (srtp_local_master d)\<rparr>) in
      if srtp_send_session pc = None then (False, pc)
      else
        let pc = (case srtp_recv_session pc of
            Some _ \<Rightarrow> pc
          | None \<Rightarrow> pc\<lparr>srtp_recv_session := SrtpSession_New (env_srtp env) kInBound (use_srtp d) (srtp_remote_master d)\<rparr>) in
        (srtp_recv_session pc \<noteq> None, pc))"

definition establish :: "('s, 'c) pc_env \<Rightarrow> ('s, 'c) PeerConnection \<Rightarrow> ('s, 'c) PeerConnection res" where
  "establish env pc =
     (if \<not> established pc then
        fbind (SendPli env pc) (\<lambda>pc. Inr (pc\<lparr>pli_timer := Some 2000, established := True\<rparr>))
      else Inr pc)"

definition set_ssrc :: "byte list \<Rightarrow> byte list res" where
  "set_ssrc pck = mem_put pck 8 (mem32 (HostToNetwork32 1234))"

definition handle_rtcp ::
  "('s, 'c) pc_env \<Rightarrow> byte list \<Rightarrow> ('s, 'c) PeerConnection \<Rightarrow> (int \<times> rtcp_log list \<times> ('s, 'c) PeerConnection) res" where
  "handle_rtcp env pck pc = (case srtp_recv_session pc of
     None \<Rightarrow> Inl NullDeref
   | Some rc \<Rightarrow>
       let (ok, pck, rc) = DecryptRtcp (env_srtp env) rc pck; pc = pc\<lparr>srtp_recv_session := Some rc\<rparr> in
       if \<not> ok then Inr (-1, [], pc)
       else fbind (ProcessRtcp pck) (\<lambda>(r, ls). Inr (r, ls, pc)))"

definition echo_rtp ::
  "('s, 'c) pc_env \<Rightarrow> byte list \<Rightarrow> ('s, 'c) PeerConnection \<Rightarrow> (int \<times> rtcp_log list \<times> ('s, 'c) PeerConnection) res" where
  "echo_rtp env pck pc =
     fbind (set_ssrc pck) (\<lambda>pck.
     case srtp_send_session pc of
       None \<Rightarrow> Inl NullDeref
     | Some sc \<Rightarrow>
         let (ok, pck, sc) = EncryptRtp (env_srtp env) sc pck; pc = pc\<lparr>srtp_send_session := Some sc\<rparr> in
         if \<not> ok then Inr (-1, [], pc) else Inr (0, [], pc_send pc [pck]))"

definition handle_rtp ::
  "('s, 'c) pc_env \<Rightarrow> byte list \<Rightarrow> ('s, 'c) PeerConnection \<Rightarrow> (int \<times> rtcp_log list \<times> ('s, 'c) PeerConnection) res" where
  "handle_rtp env pck pc = (case srtp_recv_session pc of
     None \<Rightarrow> Inl NullDeref
   | Some rc \<Rightarrow>
       let (ok, pck, rc) = DecryptRtp (env_srtp env) rc pck; pc = pc\<lparr>srtp_recv_session := Some rc\<rparr> in
       if \<not> ok then Inr (-1, [], pc)
       else
         fbind (Rtp_Decode RtpPacket_new pck) (\<lambda>(val, _).
         if val < 0 then Inr (0, [], pc) else echo_rtp env pck pc))"

definition process_media ::
  "('s, 'c) pc_env \<Rightarrow> byte list \<Rightarrow> ('s, 'c) PeerConnection \<Rightarrow> (int \<times> rtcp_log list \<times> ('s, 'c) PeerConnection) res" where
  "process_media env pck pc =
     fbind (IsRtcp pck) (\<lambda>is_rtcp.
     if is_rtcp then handle_rtcp env pck pc
     else fbind (IsRtp pck) (\<lambda>is_rtp. if is_rtp then handle_rtp env pck pc else Inr (0, [], pc)))"

text \<open>The part of \<open>ProcessPacket\<close> behind ICE.\<close>

definition process_secured ::
  "('s, 'c) pc_env \<Rightarrow> byte list \<Rightarrow> ('s, 'c) PeerConnection \<Rightarrow> (int \<times> rtcp_log list \<times> ('s, 'c) PeerConnection) res" where
  "process_secured env pck pc =
     fbind (ensure_dtls env pc) (\<lambda>(d, pc).
     if IsDtls pck then
       fbind (ProcessDtlsPacket (env_fuel env) (env_ssl env) pck d) (\<lambda>d. Inr (0, [], put_dtls pc d))
     else if \<not> is_running d then Inr (-1, [], pc)
     else if \<not> dtls_connected d then Inr (0, [], pc)
     else
       let (ok, pc) = ensure_sessions env d pc in
       if \<not> ok then Inr (-1, [], pc)
       else fbind (establish env pc) (process_media env pck))"

definition ProcessPacket ::
  "('s, 'c) pc_env \<Rightarrow> byte list \<Rightarrow> ('s, 'c) PeerConnection \<Rightarrow> (int \<times> rtcp_log list \<times> ('s, 'c) PeerConnection) res" where
  "ProcessPacket env pck pc =
     fbind (ensure_ice pc) (\<lambda>(i, pc).
     if IsStun pck then
       fbind (ProcessStunPacket (env_hmac env) (pc_addr pc) (env_klass env) (env_method env) i pck) (\<lambda>(i, out).
       Inr (0, [], pc_send (pc\<lparr>ice := Some i\<rparr>) out))
     else if \<not> is_connected i then Inr (0, [], pc)
     else process_secured env pck pc)"

section \<open>Sequences of events\<close>

text \<open>A datagram of the peer, or one of the two timers while it is armed.\<close>

datatype pc_event = PcPacket "byte list" | PcDtlsTimer | PcPliTimer

definition peer_step :: "('s, 'c) pc_env \<Rightarrow> pc_event \<Rightarrow> ('s, 'c) PeerConnection \<Rightarrow> ('s, 'c) PeerConnection res" where
  "peer_step env ev pc = (case ev of
     PcPacket p \<Rightarrow> fbind (ProcessPacket env p pc) (\<lambda>(_, _, pc). Inr pc)
   | PcDtlsTimer \<Rightarrow>
       (case dtls pc of
          None \<Rightarrow> Inr pc
        | Some d \<Rightarrow> fbind (dtls_step (env_fuel env) (env_ssl env) DtlsTimer d) (\<lambda>d. Inr (put_dtls pc d)))
   | PcPliTimer \<Rightarrow>
       if pli_timer pc = None then Inr pc
       else fbind (OnPliTimer env pc) (\<lambda>(ms, pc). Inr (pc\<lparr>pli_timer := Some ms\<rparr>)))"

fun peer_run :: "('s, 'c) pc_env \<Rightarrow> pc_event list \<Rightarrow> ('s, 'c) PeerConnection \<Rightarrow> ('s, 'c) PeerConnection res" where
  "peer_run env [] pc = Inr pc"
| "peer_run env (ev # evs) pc = fbind (peer_step env ev pc) (peer_run env evs)"

section \<open>Invariant\<close>

definition env_ok :: "('s, 'c) pc_env \<Rightarrow> ('c \<Rightarrow> srtp_policy) \<Rightarrow> bool" where
  "env_ok env policy_of \<longleftrightarrow> rearms (env_ssl env) \<and> 2 \<le> env_fuel env \<and> srtp_lib_ok (env_srtp env) policy_of"

definition ice_up :: "('s, 'c) PeerConnection \<Rightarrow> bool" where
  "ice_up pc \<longleftrightarrow> (\<exists>i. ice pc = Some i \<and> is_connected i)"

text \<open>A session in one direction is keyed with the master the transport extracted for it.\<close>

definition session_ok :: "('c \<Rightarrow> srtp_policy) \<Rightarrow> srtp_ssrc_type \<Rightarrow> ('s DtlsTransport \<Rightarrow> byte list) \<Rightarrow> 's DtlsTransport option \<Rightarrow> 'c option \<Rightarrow> bool" where
  "session_ok policy_of dir master d c \<longleftrightarrow>
     (c = None \<or> (\<exists>d' c'. d = Some d' \<and> c = Some c' \<and> dtls_state d' \<in> {CONNECTED, CLOSED} \<and>
        policy_key (policy_of c') = master d' \<and> ssrc_type (policy_of c') = dir))"

definition pc_ok :: "('s, 'c) pc_env \<Rightarrow> ('c \<Rightarrow> srtp_policy) \<Rightarrow> ('s, 'c) PeerConnection \<Rightarrow> bool" where
  "pc_ok env policy_of pc \<longleftrightarrow>
     (\<forall>d. dtls pc = Some d \<longrightarrow> dtls_wf (env_ssl env) d \<and> dtls_state d \<noteq> NEW \<and> ice_up pc) \<and>
     session_ok policy_of ssrc_any_outbound srtp_local_master (dtls pc) (srtp_send_session pc) \<and>
     session_ok policy_of ssrc_any_inbound srtp_remote_master (dtls pc) (srtp_recv_session pc) \<and>
     (established pc \<longrightarrow> srtp_send_session pc \<noteq> None \<and> srtp_recv_session pc \<noteq> None) \<and>
     (pli_timer pc \<noteq> None \<longrightarrow> established pc)"

lemma pc_send_simps [simp]:
  "dtls (pc_send pc ds) = dtls pc" "ice (pc_send pc ds) = ice pc" "established (pc_send pc ds) = established pc"
  "srtp_send_session (pc_send pc ds) = srtp_send_session pc" "srtp_recv_session (pc_send pc ds) = srtp_recv_session pc"
  "pli_timer (pc_send pc ds) = pli_timer pc" "pc_sent (pc_send pc ds) = pc_sent pc @ ds" "pc_addr (pc_send pc ds) = pc_addr pc"
  "pc_sdp (pc_send pc ds) = pc_sdp pc"
  by (simp_all add: pc_send_def)

lemma ice_up_send [simp]: "ice_up (pc_send pc ds) = ice_up pc"
  by (simp add: ice_up_def)

lemma pc_ok_send [simp]: "pc_ok env po (pc_send pc ds) = pc_ok env po pc"
  by (simp add: pc_ok_def)

lemma masters_out [simp]:
  "srtp_local_master (d\<lparr>dtls_out := out\<rparr>) = srtp_local_master d" "srtp_remote_master (d\<lparr>dtls_out := out\<rparr>) = srtp_remote_master d"
  "dtls_wf lib (d\<lparr>dtls_out := out\<rparr>) = dtls_wf lib d"
  by (simp_all add: srtp_local_master_def srtp_remote_master_def dtls_wf_def)

lemma ssl_called_out [simp]: "dtls_out (ssl_called cs s d) = dtls_out d"
  by (rule ssl_called_only [of cs s d]) simp

lemma put_dtls_simps [simp]:
  "dtls (put_dtls pc d) = Some (d\<lparr>dtls_out := []\<rparr>)" "ice (put_dtls pc d) = ice pc" "established (put_dtls pc d) = established pc"
  "srtp_send_session (put_dtls pc d) = srtp_send_session pc" "srtp_recv_session (put_dtls pc d) = srtp_recv_session pc"
  "pli_timer (put_dtls pc d) = pli_timer pc" "pc_sdp (put_dtls pc d) = pc_sdp pc" "pc_sent (put_dtls pc d) = pc_sent pc @ dtls_out d"
  by (simp_all add: put_dtls_def)

lemma ProcessStunPacket_keeps_connected:
  assumes "ProcessStunPacket hmac a k m i p = Inr (i', out)" and "is_connected i"
  shows "is_connected i'"
  using assms
  by (auto simp: ProcessStunPacket_def fbind_Inr_iff is_connected_def Let_def split: if_splits StunClass.splits)

lemma pc_ok_ice: "pc_ok env po pc \<Longrightarrow> (ice_up pc \<Longrightarrow> is_connected i) \<Longrightarrow> pc_ok env po (pc\<lparr>ice := Some i\<rparr>)"
  by (auto simp: pc_ok_def ice_up_def split: option.splits)

lemma ensure_ice_ok:
  assumes "pc_ok env po pc" and "ensure_ice pc = Inr (i, pc1)"
  shows "pc_ok env po pc1" and "ice pc1 = Some i" and "pc_sent pc1 = pc_sent pc" and "dtls pc1 = dtls pc"
    and "is_connected i \<longleftrightarrow> ice_up pc" and "pc_addr pc1 = pc_addr pc"
  using assms by (auto simp: ensure_ice_def fbind_Inr_iff ice_up_def IceServer_new_def is_connected_def
      intro: pc_ok_ice split: option.splits)

lemma pc_ok_dtls_step:
  assumes env: "env_ok env po" and ok: "pc_ok env po pc" and d: "dtls pc = Some d"
    and st: "dtls_step (env_fuel env) (env_ssl env) ev d = Inr d'"
  shows "pc_ok env po (put_dtls pc d')"
proof -
  obtain f where f: "env_fuel env = Suc (Suc f)" using two_less_fuel [of "env_fuel env"] env by (auto simp: env_ok_def)
  have wf: "dtls_wf (env_ssl env) d" "dtls_state d \<noteq> NEW" "ice_up pc" using ok d by (simp_all add: pc_ok_def)
  obtain d1 where "dtls_step (env_fuel env) (env_ssl env) ev d = Inr d1" "dtls_wf (env_ssl env) d1"
    "may_become (dtls_state d) (dtls_state d1)"
    unfolding f by (rule dtls_step_wf [of "env_ssl env" d f ev]) (use wf env in \<open>auto simp: env_ok_def\<close>)
  then have d1: "dtls_wf (env_ssl env) d'" "dtls_state d' \<noteq> NEW" using st wf(2) by (auto elim: may_become.elims)
  have keep: "session_ok po dir m (Some (d'\<lparr>dtls_out := []\<rparr>)) c"
    if "session_ok po dir m (Some d) c" "dtls_state d \<in> {CONNECTED, CLOSED} \<Longrightarrow> m (d'\<lparr>dtls_out := []\<rparr>) = m d" for dir m c
    using that dtls_step_keys(5) [OF wf(1) _ st] by (auto simp: session_ok_def)
  show ?thesis using ok d d1 wf(3) dtls_step_keys(2,3) [OF wf(1) _ st]
    by (auto simp: pc_ok_def ice_up_def intro!: keep)
qed

lemma ensure_dtls_ok:
  assumes env: "env_ok env po" and ok: "pc_ok env po pc" and up: "ice_up pc" and e: "ensure_dtls env pc = Inr (d, pc1)"
  shows "pc_ok env po pc1" and "dtls pc1 = Some d" and "pc_sent pc1 = pc_sent pc" and "ice_up pc1"
    and "dtls_connected d \<Longrightarrow> dtls pc = Some d \<and> pc1 = pc"
proof -
  have "pc_ok env po pc1 \<and> dtls pc1 = Some d \<and> pc_sent pc1 = pc_sent pc \<and> ice_up pc1 \<and> (dtls_connected d \<longrightarrow> dtls pc = Some d \<and> pc1 = pc)"
  proof (cases "dtls pc")
    case (Some d0)
    then show ?thesis using ok up e by (simp add: ensure_dtls_def)
  next
    case None
    obtain f where f: "env_fuel env = Suc (Suc f)" using two_less_fuel [of "env_fuel env"] env by (auto simp: env_ok_def)
    obtain d0 where d0: "DtlsTransport_New (env_ssl env) (env_role env) = Some d0"
      using None e by (auto simp: ensure_dtls_def split: option.splits)
    obtain d1 where d1: "Initialize (env_fuel env) (env_ssl env) SERVER d0 = Inr d1" "dtls_wf (env_ssl env) d1" "dtls_state d1 \<noteq> NEW"
      unfolding f by (rule Initialize_wf [OF d0, of f SERVER]) (use env in \<open>simp_all add: env_ok_def\<close>)
    obtain cs s where "d1 = ssl_called cs s (d0\<lparr>dtls_state := CONNECTING, role := SERVER\<rparr>\<lparr>ssl := SSL_set_role (env_ssl env) SERVER (ssl d0)\<rparr>)"
      using d1(1) by (auto simp: Initialize_def Let_def split_beta)
    then have "dtls_state d1 = CONNECTING" "dtls_out d1 = dtls_out d0"
      by simp_all
    moreover have "dtls_out d0 = []" using d0 by (auto simp: DtlsTransport_New_def split: option.splits if_splits)
    ultimately show ?thesis using None e d0 d1 ok up
      by (auto simp: ensure_dtls_def pc_ok_def ice_up_def session_ok_def dtls_connected_def)
  qed
  then show "pc_ok env po pc1" "dtls pc1 = Some d" "pc_sent pc1 = pc_sent pc" "ice_up pc1"
    "dtls_connected d \<Longrightarrow> dtls pc = Some d \<and> pc1 = pc" by blast+
qed

lemma ensure_sessions_ok:
  assumes env: "env_ok env po" and ok: "pc_ok env po pc" and d: "dtls pc = Some d" "dtls_connected d"
    and e: "ensure_sessions env d pc = (b, pc1)"
  shows "pc_ok env po pc1" and "dtls pc1 = Some d" and "pc_sent pc1 = pc_sent pc"
    and "b \<Longrightarrow> srtp_send_session pc1 \<noteq> None \<and> srtp_recv_session pc1 \<noteq> None"
proof -
  have lib: "srtp_lib_ok (env_srtp env) po" using env by (simp add: env_ok_def)
  have new: "SrtpSession_New (env_srtp env) kOutBound p (srtp_local_master d) = c \<Longrightarrow> session_ok po ssrc_any_outbound srtp_local_master (Some d) c"
    "SrtpSession_New (env_srtp env) kInBound p (srtp_remote_master d) = c \<Longrightarrow> session_ok po ssrc_any_inbound srtp_remote_master (Some d) c" for p c
    using SrtpSession_New_policy [OF lib] d(2) by (cases c; fastforce simp: session_ok_def dtls_connected_def)+
  define pc0 where "pc0 = (case srtp_send_session pc of Some _ \<Rightarrow> pc
     | None \<Rightarrow> pc\<lparr>srtp_send_session := SrtpSession_New (env_srtp env) kOutBound (use_srtp d) (srtp_local_master d)\<rparr>)"
  have pc0: "pc_ok env po pc0" "dtls pc0 = Some d" "pc_sent pc0 = pc_sent pc"
    using ok d new(1) by (auto simp: pc0_def pc_ok_def ice_up_def split: option.splits)
  have "pc_ok env po pc1 \<and> dtls pc1 = Some d \<and> pc_sent pc1 = pc_sent pc \<and> (b \<longrightarrow> srtp_send_session pc1 \<noteq> None \<and> srtp_recv_session pc1 \<noteq> None)"
    using e pc0 unfolding ensure_sessions_def pc0_def [symmetric]
    by (auto simp: Let_def pc_ok_def ice_up_def intro: new(2) split: option.splits if_splits)
  then show "pc_ok env po pc1" "dtls pc1 = Some d" "pc_sent pc1 = pc_sent pc"
    "b \<Longrightarrow> srtp_send_session pc1 \<noteq> None \<and> srtp_recv_session pc1 \<noteq> None" by blast+
qed

lemma pc_ok_session:
  assumes "env_ok env po" and "pc_ok env po pc"
  shows "srtp_send_session pc = Some c \<Longrightarrow> po c' = po c \<Longrightarrow> pc_ok env po (pc\<lparr>srtp_send_session := Some c'\<rparr>)"
    and "srtp_recv_session pc = Some c \<Longrightarrow> po c' = po c \<Longrightarrow> pc_ok env po (pc\<lparr>srtp_recv_session := Some c'\<rparr>)"
  using assms by (auto simp: pc_ok_def ice_up_def session_ok_def split: option.splits)

lemma calls_keep_ok:
  assumes env: "env_ok env po" and ok: "pc_ok env po pc"
  shows "srtp_send_session pc = Some c \<Longrightarrow> pc_ok env po (pc\<lparr>srtp_send_session := Some (snd (snd (EncryptRtp (env_srtp env) c d)))\<rparr>)"
    and "srtp_send_session pc = Some c \<Longrightarrow> pc_ok env po (pc\<lparr>srtp_send_session := Some (snd (snd (EncryptRtcp (env_srtp env) c d)))\<rparr>)"
    and "srtp_recv_session pc = Some c \<Longrightarrow> pc_ok env po (pc\<lparr>srtp_recv_session := Some (snd (snd (DecryptRtp (env_srtp env) c d)))\<rparr>)"
    and "srtp_recv_session pc = Some c \<Longrightarrow> pc_ok env po (pc\<lparr>srtp_recv_session := Some (snd (snd (DecryptRtcp (env_srtp env) c d)))\<rparr>)"
  using pc_ok_session [OF env ok] calls_keep_policy [of "env_srtp env" po] env by (simp_all add: env_ok_def)

lemma SendPli_ok:
  assumes env: "env_ok env po" and ok: "pc_ok env po pc" and s: "SendPli env pc = Inr pc1"
  shows "pc_ok env po pc1" and "dtls pc1 = dtls pc" and "srtp_send_session pc1 \<noteq> None"
    and "srtp_recv_session pc1 = srtp_recv_session pc" and "established pc1 = established pc" and "pli_timer pc1 = pli_timer pc"
proof -
  obtain c d where c: "srtp_send_session pc = Some c"
    "pc1 = pc_send (pc\<lparr>srtp_send_session := Some (snd (snd (EncryptRtcp (env_srtp env) c d)))\<rparr>) [fst (snd (EncryptRtcp (env_srtp env) c d))]"
    using s by (auto simp: SendPli_def fbind_Inr_iff Let_def split_beta split: list.splits option.splits)
  then show "pc_ok env po pc1" "dtls pc1 = dtls pc" "srtp_send_session pc1 \<noteq> None"
    "srtp_recv_session pc1 = srtp_recv_session pc" "established pc1 = established pc" "pli_timer pc1 = pli_timer pc"
    using calls_keep_ok(2) [OF env ok c(1)] by simp_all
qed

lemma establish_ok:
  assumes env: "env_ok env po" and ok: "pc_ok env po pc"
    and ss: "srtp_send_session pc \<noteq> None" "srtp_recv_session pc \<noteq> None" and e: "establish env pc = Inr pc1"
  shows "pc_ok env po pc1" and "dtls pc1 = dtls pc" and "srtp_send_session pc1 \<noteq> None" and "srtp_recv_session pc1 \<noteq> None"
proof -
  have "pc_ok env po pc1 \<and> dtls pc1 = dtls pc \<and> srtp_send_session pc1 \<noteq> None \<and> srtp_recv_session pc1 \<noteq> None"
  proof (cases "established pc")
    case False
    then obtain pc0 where pc0: "SendPli env pc = Inr pc0" "pc1 = pc0\<lparr>pli_timer := Some 2000, established := True\<rparr>"
      using e by (auto simp: establish_def fbind_Inr_iff)
    show ?thesis using SendPli_ok [OF env ok pc0(1)] pc0(2) ss by (auto simp: pc_ok_def ice_up_def)
  qed (use e ok ss in \<open>simp add: establish_def\<close>)
  then show "pc_ok env po pc1" "dtls pc1 = dtls pc" "srtp_send_session pc1 \<noteq> None" "srtp_recv_session pc1 \<noteq> None" by blast+
qed

lemma handle_rtcp_ok:
  assumes env: "env_ok env po" and ok: "pc_ok env po pc" and p: "handle_rtcp env p pc = Inr (r, ls, pc1)"
  shows "pc_ok env po pc1"
proof -
  obtain c d where "srtp_recv_session pc = Some c" "pc1 = pc\<lparr>srtp_recv_session := Some (snd (snd (DecryptRtcp (env_srtp env) c d)))\<rparr>"
    using p by (auto simp: handle_rtcp_def fbind_Inr_iff Let_def split_beta split: option.splits if_splits)
  then show ?thesis using calls_keep_ok(4) [OF env ok] by simp
qed

lemma echo_rtp_ok:
  assumes env: "env_ok env po" and ok: "pc_ok env po pc" and p: "echo_rtp env p pc = Inr (r, ls, pc1)"
  shows "pc_ok env po pc1"
proof -
  obtain c d where "srtp_send_session pc = Some c"
    "pc1 = pc\<lparr>srtp_send_session := Some (snd (snd (EncryptRtp (env_srtp env) c d)))\<rparr> \<or>
     pc1 = pc_send (pc\<lparr>srtp_send_session := Some (snd (snd (EncryptRtp (env_srtp env) c d)))\<rparr>) [fst (snd (EncryptRtp (env_srtp env) c d))]"
    using p by (auto simp: echo_rtp_def fbind_Inr_iff Let_def split_beta split: option.splits if_splits)
  then show ?thesis using calls_keep_ok(1) [OF env ok] by auto
qed

lemma handle_rtp_ok:
  assumes env: "env_ok env po" and ok: "pc_ok env po pc" and p: "handle_rtp env p pc = Inr (r, ls, pc1)"
  shows "pc_ok env po pc1"
proof -
  obtain c where c: "srtp_recv_session pc = Some c" using p by (auto simp: handle_rtp_def split: option.splits)
  let ?r = "DecryptRtp (env_srtp env) c p"
  let ?pc = "pc\<lparr>srtp_recv_session := Some (snd (snd ?r))\<rparr>"
  have k: "pc_ok env po ?pc" by (rule calls_keep_ok(3) [OF env ok c])
  have "pc1 = ?pc \<or> echo_rtp env (fst (snd ?r)) ?pc = Inr (r, ls, pc1)"
    using p c by (auto simp: handle_rtp_def fbind_Inr_iff Let_def split_beta split: if_splits)
  then show ?thesis using k echo_rtp_ok [OF env k] by auto
qed

lemma process_media_ok:
  assumes "env_ok env po" and "pc_ok env po pc" and "process_media env p pc = Inr (r, ls, pc1)"
  shows "pc_ok env po pc1"
  using assms handle_rtp_ok [OF assms(1,2)] handle_rtcp_ok [OF assms(1,2)]
  by (auto simp: process_media_def fbind_Inr_iff split: if_splits)

text \<open>What a datagram that is not STUN can do: nothing before ICE is up, no media before DTLS is connected.\<close>

lemma process_secured_ok:
  assumes env: "env_ok env po" and ok: "pc_ok env po pc" and up: "ice_up pc"
    and sec: "process_secured env p pc = Inr (r, ls, pc1)"
  shows "pc_ok env po pc1 \<and> (IsDtls p \<or> pc_sent pc1 = pc_sent pc \<or> (\<exists>d. dtls pc = Some d \<and> dtls_connected d))"
proof -
  note p = sec [unfolded process_secured_def]
  obtain d pc2 where e: "ensure_dtls env pc = Inr (d, pc2)" using p by (auto simp: fbind_Inr_iff)
  note e2 = ensure_dtls_ok [OF env ok up e]
  consider "IsDtls p" | "\<not> IsDtls p" "\<not> dtls_connected d" | "\<not> IsDtls p" "dtls_connected d" by blast
  then show ?thesis
  proof cases
    case 1
    then obtain d' where "ProcessDtlsPacket (env_fuel env) (env_ssl env) p d = Inr d'" "pc1 = put_dtls pc2 d'"
      using p e by (auto simp: fbind_Inr_iff)
    then show ?thesis using pc_ok_dtls_step [OF env e2(1,2), of "DtlsPacket p" d'] 1 by (simp add: dtls_step_def)
  next
    case 2
    then have "pc1 = pc2" using p e by (auto split: if_splits)
    then show ?thesis using e2 by simp
  next
    case 3
    obtain b pc3 where s: "ensure_sessions env d pc2 = (b, pc3)" by fastforce
    note s3 = ensure_sessions_ok [OF env e2(1,2) 3(2) s]
    have "is_running d" using 3(2) by (simp add: is_running_def dtls_connected_def)
    then consider "\<not> b" "pc1 = pc3" | pc4 where "b" "establish env pc3 = Inr pc4" "process_media env p pc4 = Inr (r, ls, pc1)"
      using p e 3 s by (auto simp: fbind_Inr_iff split: if_splits)
    then show ?thesis
    proof cases
      case 1
      then show ?thesis using s3(1) e2(5) [OF 3(2)] 3(2) by blast
    next
      case (2 pc4)
      have "pc_ok env po pc4" using establish_ok(1) [OF env s3(1) _ _ 2(2)] s3(4) [OF 2(1)] by blast
      then show ?thesis using process_media_ok [OF env _ 2(3)] e2(5) [OF 3(2)] 3(2) by blast
    qed
  qed
qed

lemma ProcessPacket_ok:
  assumes env: "env_ok env po" and ok: "pc_ok env po pc" and p: "ProcessPacket env p pc = Inr (r, ls, pc1)"
  shows "pc_ok env po pc1 \<and>
    (IsStun p \<or> pc_sent pc1 = pc_sent pc \<or> ice_up pc \<and> (IsDtls p \<or> (\<exists>d. dtls pc = Some d \<and> dtls_connected d)))"
proof -
  obtain i pc2 where e: "ensure_ice pc = Inr (i, pc2)" using p by (auto simp: ProcessPacket_def fbind_Inr_iff)
  note e2 = ensure_ice_ok [OF ok e]
  consider "IsStun p" | "\<not> IsStun p" "\<not> is_connected i" | "\<not> IsStun p" "is_connected i" by blast
  then show ?thesis
  proof cases
    case 1
    then obtain i' out where "ProcessStunPacket (env_hmac env) (pc_addr pc2) (env_klass env) (env_method env) i p = Inr (i', out)"
      "pc1 = pc_send (pc2\<lparr>ice := Some i'\<rparr>) out"
      using p e by (auto simp: ProcessPacket_def fbind_Inr_iff)
    then show ?thesis using 1 pc_ok_ice [OF e2(1), of i'] ProcessStunPacket_keeps_connected e2(2) by (auto simp: ice_up_def)
  next
    case 2
    then have "pc1 = pc2" using p e by (simp add: ProcessPacket_def)
    then show ?thesis using e2 by simp
  next
    case 3
    have up: "ice_up pc2" "ice_up pc" using 3(2) e2(2,5) by (auto simp: ice_up_def)
    show ?thesis using process_secured_ok [OF env e2(1) up(1), of p r ls pc1] p e 3 e2(3,4) up(2)
      by (auto simp: ProcessPacket_def)
  qed
qed

lemma peer_step_ok:
  assumes env: "env_ok env po" and ok: "pc_ok env po pc" and s: "peer_step env ev pc = Inr pc1"
  shows "pc_ok env po pc1"
proof (cases ev)
  case (PcPacket p)
  then show ?thesis using s ProcessPacket_ok [OF env ok] by (auto simp: peer_step_def fbind_Inr_iff)
next
  case PcDtlsTimer
  show ?thesis
  proof (cases "dtls pc")
    case (Some d)
    then show ?thesis using s PcDtlsTimer pc_ok_dtls_step [OF env ok Some] by (auto simp: peer_step_def fbind_Inr_iff)
  qed (use s PcDtlsTimer ok in \<open>simp add: peer_step_def\<close>)
next
  case PcPliTimer
  show ?thesis
  proof (cases "pli_timer pc")
    case (Some ms)
    then obtain pc2 t where "SendPli env pc = Inr pc2" "pc1 = pc2\<lparr>pli_timer := t\<rparr>"
      using s PcPliTimer by (auto simp: peer_step_def fbind_Inr_iff OnPliTimer_def)
    then show ?thesis using SendPli_ok [OF env ok] ok Some by (auto simp: pc_ok_def ice_up_def)
  qed (use s PcPliTimer ok in \<open>simp add: peer_step_def\<close>)
qed

lemma peer_run_ok: "env_ok env po \<Longrightarrow> pc_ok env po pc \<Longrightarrow> peer_run env evs pc = Inr pc1 \<Longrightarrow> pc_ok env po pc1"
proof (induction evs arbitrary: pc)
  case (Cons ev evs)
  then obtain pc2 where "peer_step env ev pc = Inr pc2" "peer_run env evs pc2 = Inr pc1" by (auto simp: fbind_Inr_iff)
  then show ?case using Cons peer_step_ok by blast
qed simp

lemma PeerConnection_new_ok: "pc_ok env po (PeerConnection_new a sdp)"
  by (simp add: pc_ok_def PeerConnection_new_def session_ok_def)

lemma length_master_of [simp]: "length (master_of r kb k n) = k + n"
  by (cases r) (simp_all add: master_of_def)

text \<open>The masters of a connected transport have the length the profile asks for, so only libsrtp can refuse a session.\<close>

lemma sessions_created:
  assumes "dtls_wf lib d" and "dtls_connected d" and "srtp_lib_ok srtp po" and "\<And>q. srtp_create srtp q \<noteq> None"
  shows "SrtpSession_New srtp ty (use_srtp d) (srtp_local_master d) \<noteq> None"
    and "SrtpSession_New srtp ty (use_srtp d) (srtp_remote_master d) \<noteq> None"
proof -
  have "keyed lib d" using assms(1,2) by (simp add: dtls_wf_def dtls_connected_def)
  then obtain k n where "profile_lens (use_srtp d) = Some (k, n)" "length (srtp_local_master d) = k + n" "length (srtp_remote_master d) = k + n"
    by (auto simp: keyed_def)
  then show "SrtpSession_New srtp ty (use_srtp d) (srtp_local_master d) \<noteq> None"
    "SrtpSession_New srtp ty (use_srtp d) (srtp_remote_master d) \<noteq> None"
    using assms(3,4) by (auto simp: SrtpSession_New_def profile_lens_def srtp_lib_ok_def Let_def split: if_splits)
qed

lemma ensure_sessions_total:
  assumes "dtls_wf lib d" and "dtls_connected d" and "srtp_lib_ok (env_srtp env) po" and "\<And>q. srtp_create (env_srtp env) q \<noteq> None"
  shows "\<exists>pc1. ensure_sessions env d pc = (True, pc1) \<and> established pc1 = established pc \<and> pc_sdp pc1 = pc_sdp pc"
  using sessions_created [OF assms]
  by (cases "srtp_send_session pc"; cases "srtp_recv_session pc") (auto simp: ensure_sessions_def Let_def)

section \<open>The address of the peer\<close>

lemma SendPli_addr: "SendPli env pc = Inr pc1 \<Longrightarrow> pc_addr pc1 = pc_addr pc"
  by (auto simp: SendPli_def fbind_Inr_iff Let_def split_beta split: list.splits option.splits)

lemma put_dtls_addr [simp]: "pc_addr (put_dtls pc d) = pc_addr pc"
  by (simp add: put_dtls_def)

lemma ensure_addr:
  "ensure_ice pc = Inr (i, pc1) \<Longrightarrow> pc_addr pc1 = pc_addr pc"
  "ensure_dtls env pc = Inr (d, pc1) \<Longrightarrow> pc_addr pc1 = pc_addr pc"
  "ensure_sessions env d' pc = (b, pc1) \<Longrightarrow> pc_addr pc1 = pc_addr pc"
  "establish env pc = Inr pc1 \<Longrightarrow> pc_addr pc1 = pc_addr pc"
  by (auto simp: ensure_ice_def ensure_dtls_def ensure_sessions_def establish_def Let_def fbind_Inr_iff
      dest: SendPli_addr split: option.splits if_splits)

lemma process_media_addr:
  assumes "process_media env p pc = Inr (r, ls, pc1)"
  shows "pc_addr pc1 = pc_addr pc"
proof -
  have rtcp: "handle_rtcp env p pc = Inr (r, ls, pc1) \<Longrightarrow> pc_addr pc1 = pc_addr pc"
    by (auto simp: handle_rtcp_def fbind_Inr_iff Let_def split_beta split: option.splits if_splits)
  have echo: "echo_rtp env q pc0 = Inr (r, ls, pc1) \<Longrightarrow> pc_addr pc1 = pc_addr pc0" for q pc0
    by (auto simp: echo_rtp_def fbind_Inr_iff Let_def split_beta split: option.splits if_splits)
  have rtp: "handle_rtp env p pc = Inr (r, ls, pc1) \<Longrightarrow> pc_addr pc1 = pc_addr pc"
    by (auto simp: handle_rtp_def fbind_Inr_iff Let_def split_beta dest!: echo split: option.splits if_splits)
  show ?thesis using assms rtcp rtp by (auto simp: process_media_def fbind_Inr_iff split: if_splits)
qed

lemma process_secured_addr:
  assumes "process_secured env p pc = Inr (r, ls, pc1)"
  shows "pc_addr pc1 = pc_addr pc"
proof -
  note p = assms [unfolded process_secured_def]
  obtain d pc2 where e: "ensure_dtls env pc = Inr (d, pc2)" using p by (auto simp: fbind_Inr_iff)
  obtain b pc3 where s: "ensure_sessions env d pc2 = (b, pc3)" by fastforce
  have a: "pc_addr pc2 = pc_addr pc" "pc_addr pc3 = pc_addr pc" using ensure_addr(2) [OF e] ensure_addr(3) [OF s] by simp_all
  have "pc1 \<in> {pc2, pc3} \<or> (\<exists>d'. pc1 = put_dtls pc2 d') \<or> (\<exists>pc4. establish env pc3 = Inr pc4 \<and> process_media env p pc4 = Inr (r, ls, pc1))"
    using p e s by (auto simp: fbind_Inr_iff split: if_splits)
  then show ?thesis using a ensure_addr(4) process_media_addr by fastforce
qed

lemma ProcessPacket_addr:
  assumes "ProcessPacket env p pc = Inr (r, ls, pc1)"
  shows "pc_addr pc1 = pc_addr pc"
  using assms
  by (auto simp: ProcessPacket_def fbind_Inr_iff dest!: ensure_addr(1) process_secured_addr split: if_splits)

lemma peer_step_addr: "peer_step env ev pc = Inr pc1 \<Longrightarrow> pc_addr pc1 = pc_addr pc"
  by (cases ev) (auto simp: peer_step_def OnPliTimer_def fbind_Inr_iff dest: ProcessPacket_addr SendPli_addr split: option.splits if_splits)

section \<open>Compound RTCP packets\<close>

lemma first_byte_classes:
  assumes "IsRtp p = Inr True \<or> IsRtcp p = Inr True"
  shows "\<not> IsStun p" and "\<not> IsDtls p"
proof -
  have "p \<noteq> [] \<and> p ! 0 > 127"
    using assms by (auto simp: IsRtp_def IsRtcp_def kHeaderSize_def kCommonHeaderSize_def fbind_Inr_iff rd_Inr_iff split: if_splits)
  then have "\<not> p ! 0 < 3" "\<not> p ! 0 < 64" by (auto simp: word_less_nat_alt)
  then show "\<not> IsStun p" "\<not> IsDtls p" by (auto simp: IsStun_def IsDtls_def)
qed

lemma set_ssrc_bytes:
  assumes "12 \<le> length q"
  shows "set_ssrc q = Inr (take 8 q @ be32 1234 @ drop 12 q)"
  using assms by (simp add: set_ssrc_def mem_put_def window_def)

lemma set_ssrc_rtp_bytes:
  "set_ssrc (rtp_bytes m pt sn ts ss cs ext pl pad) = Inr (rtp_bytes m pt sn ts 1234 cs ext pl pad)"
  by (subst set_ssrc_bytes) (simp_all add: rtp_bytes_def)

definition compound :: "(CommonHeader \<times> byte list) list \<Rightarrow> byte list" where
  "compound ps = concat (map (\<lambda>(h, b). common_header_bytes h @ b) ps)"

text \<open>A packet whose length field covers its body, and which the code can decode safely.\<close>

definition rtcp_part_ok :: "CommonHeader \<times> byte list \<Rightarrow> bool" where
  "rtcp_part_ok hb \<longleftrightarrow> (case hb of (h, b) \<Rightarrow>
     ch_ok h \<and> ch_version h = 2 \<and> 192 \<le> ch_type h \<and> ch_type h \<le> 223 \<and> ch_type h \<noteq> rtcp_type_code SDES \<and>
     length b = unat (ch_length h) * 4)"

lemma rtcp_switch_returns: "ch_type h \<noteq> rtcp_type_code SDES \<Longrightarrow> \<exists>l. rtcp_switch d h = Inr l"
  using report_decoders_total [of PliPsFb_new d SrPacket_new RrPacket_new]
  by (auto simp: rtcp_switch_def Let_def)

lemma length_common_header [simp]: "length (common_header_bytes h) = 4"
  by (simp add: common_header_bytes_def)

lemma IsRtcp_part:
  assumes "rtcp_part_ok (h, b)"
  shows "IsRtcp (common_header_bytes h @ b @ rest) = Inr True"
proof -
  define n where "n = ch_count h + 32 * ch_padding h + 64 * ch_version h"
  have n: "128 \<le> n" "n < 192" using assms by (auto simp: n_def rtcp_part_ok_def ch_ok_def)
  then have u: "unat (word_of_nat n :: byte) = n" by simp
  have "n div 64 = 2" using n by (intro div_nat_eqI) auto
  then have "bits (word_of_nat n) 6 2 = 2" by (simp add: bits_def u)
  moreover have "(127 :: byte) < word_of_nat n" "(word_of_nat n :: byte) < 192" using n by (auto simp: word_less_nat_alt u)
  moreover have "common_header_bytes h @ b @ rest = word_of_nat n # ch_type h # mem16 (HostToNetwork16 (ch_length h)) @ b @ rest"
    by (simp add: common_header_bytes_def n_def)
  ultimately show ?thesis using assms by (simp add: IsRtcp_def kCommonHeaderSize_def rtcp_part_ok_def)
qed

lemma ProcessRtcp_loop_part:
  assumes "IsRtcp d = Inr True" and "drop off d = common_header_bytes h @ b @ rest" and "rtcp_part_ok (h, b)"
  shows "ProcessRtcp_loop d off =
    fbind (rtcp_switch d h) (\<lambda>l. fbind (ProcessRtcp_loop d (off + (4 + length b))) (\<lambda>(r, ls). Inr (r, l # ls)))"
proof -
  have "length d - off = 4 + length b + length rest" using arg_cong [OF assms(2), of length] by simp
  then show ?thesis using assms load_common_header_bytes [of h "b @ rest"]
    by (subst ProcessRtcp_loop.simps) (simp add: rtcp_part_ok_def Let_def)
qed

lemma ProcessRtcp_loop_end [simp]: "length d \<le> off \<Longrightarrow> ProcessRtcp_loop d off = Inr (0, [])"
  by (subst ProcessRtcp_loop.simps) simp

lemma ProcessRtcp_loop_walks:
  assumes "IsRtcp d = Inr True"
  shows "\<forall>p \<in> set ps. rtcp_part_ok p \<Longrightarrow> drop off d = compound ps \<Longrightarrow>
    \<exists>ls. ProcessRtcp_loop d off = Inr (0, ls) \<and> list_all2 (\<lambda>(h, b) l. rtcp_switch d h = Inr l) ps ls"
proof (induction ps arbitrary: off)
  case Nil
  then show ?case by (simp add: compound_def)
next
  case (Cons p ps)
  obtain h b where p: "p = (h, b)" by (cases p)
  have hb: "rtcp_part_ok (h, b)" "drop off d = common_header_bytes h @ b @ compound ps" using Cons.prems p by (simp_all add: compound_def)
  obtain l where l: "rtcp_switch d h = Inr l" using rtcp_switch_returns [of h d] hb(1) by (auto simp: rtcp_part_ok_def)
  have "drop (off + (4 + length b)) d = drop (4 + length b) (drop off d)" by (simp add: add.commute)
  also have "\<dots> = compound ps" unfolding hb(2) by simp
  finally obtain ls where "ProcessRtcp_loop d (off + (4 + length b)) = Inr (0, ls)" "list_all2 (\<lambda>(h, b) l. rtcp_switch d h = Inr l) ps ls"
    using Cons.IH [of "off + (4 + length b)"] Cons.prems(1) by auto
  then show ?case using ProcessRtcp_loop_part [OF assms hb(2,1)] l p by simp
qed

lemma ProcessRtcp_walks:
  assumes "ps \<noteq> []" and "\<forall>p \<in> set ps. rtcp_part_ok p"
  shows "\<exists>ls. ProcessRtcp (compound ps) = Inr (0, ls) \<and> list_all2 (\<lambda>(h, b) l. rtcp_switch (compound ps) h = Inr l) ps ls"
proof -
  obtain h b qs where ps: "ps = (h, b) # qs" using assms(1) by (cases ps) auto
  have "IsRtcp (compound ps) = Inr True" using IsRtcp_part [of h b "compound qs"] assms(2) by (simp add: ps compound_def)
  from ProcessRtcp_loop_walks [OF this assms(2), of 0] show ?thesis by (simp add: ProcessRtcp_def)
qed

lemma sr_bytes_compound:
  "sr_bytes p @ rr_bytes q = compound
     [(sr_comm p, send_info_bytes (send_info p) @ concat (map report_bytes (sr_reports p))),
      (rr_comm q, be32 (rr_sender_ssrc q) @ concat (map report_bytes (rr_reports q)))]"
  by (simp add: compound_def sr_bytes_def rr_bytes_def)

text \<open>What a report packet of a valid sender looks like: version 2, its type, its length in words.\<close>

definition report_header_ok :: "CommonHeader \<Rightarrow> byte \<Rightarrow> nat \<Rightarrow> bool" where
  "report_header_ok h t sz \<longleftrightarrow> ch_ok h \<and> ch_version h = 2 \<and> ch_type h = t \<and> (unat (ch_length h) + 1) * 4 = sz"

section \<open>A connection for the examples\<close>

text \<open>A libsrtp that keeps the policy and leaves the packets as they are.\<close>

definition demo_srtp :: "srtp_policy libsrtp" where
  "demo_srtp = \<lparr>cipher_key_len = (\<lambda>c. case c of aes_gcm_128_16_auth \<Rightarrow> 28 | aes_cm_128_hmac_sha1_80 \<Rightarrow> 30),
     srtp_create = Some, srtp_protect = (\<lambda>c d. (True, d, c)), srtp_unprotect = (\<lambda>c d. (True, d, c)),
     srtp_protect_rtcp = (\<lambda>c d. (True, d, c)), srtp_unprotect_rtcp = (\<lambda>c d. (True, d, c))\<rparr>"

definition demo_env :: "(nat, srtp_policy) pc_env" where
  "demo_env = \<lparr>env_hmac = sample_hmac, env_ssl = demo_ssl, env_srtp = demo_srtp, env_klass = REQUEST, env_method = 0,
     env_role = SERVER, env_fuel = 2\<rparr>"

definition demo_events :: "pc_event list" where
  "demo_events = [PcPacket sample_request, PcPacket (replicate 13 22)]"

definition demo_rtp :: "u32 \<Rightarrow> byte list" where
  "demo_rtp ss = rtp_bytes 0 96 1 2 ss [] None [7, 8] []"

definition demo_policy :: srtp_policy where
  "demo_policy = \<lparr>rtp_cipher = aes_gcm_128_16_auth, rtcp_cipher = aes_gcm_128_16_auth, ssrc_type = ssrc_any_inbound,
     ssrc_value = 0, policy_key = [], allow_repeat_tx = True, window_size = 1024\<rparr>"

definition demo_transport :: "nat DtlsTransport" where
  "demo_transport = \<lparr>ssl = 1, dtls_state = CONNECTED, role = SERVER, HandshakeDone = True, ExtractSrtpKey_done = True, use_srtp = [],
     local_master = [], remote_master = [], master_len = 0, dtls_timer = None, dtls_out = []\<rparr>"

definition demo_peer :: "(nat, srtp_policy) PeerConnection" where
  "demo_peer = (PeerConnection_new InetAddress_zero local_sdp)\<lparr>established := True,
     ice := Some (sample_ice\<lparr>ice_state := ICE_CONNECTED\<rparr>), dtls := Some demo_transport,
     srtp_recv_session := Some demo_policy, srtp_send_session := Some demo_policy\<rparr>"

lemma demo_env_ok: "env_ok demo_env id"
  using demo_rearms by (simp add: env_ok_def demo_env_def srtp_lib_ok_def demo_srtp_def)

lemma demo_dtls:
  obtains d0 d1 d2 where "DtlsTransport_New demo_ssl SERVER = Some d0" "Initialize 2 demo_ssl SERVER d0 = Inr d1"
    "ProcessDtlsPacket 2 demo_ssl (replicate 13 22) (d1\<lparr>dtls_out := []\<rparr>) = Inr d2" "dtls_connected d2"
proof -
  have "case DtlsTransport_New demo_ssl SERVER of None \<Rightarrow> False
    | Some d0 \<Rightarrow> (case fbind (Initialize 2 demo_ssl SERVER d0) (\<lambda>d1. ProcessDtlsPacket 2 demo_ssl (replicate 13 22) (d1\<lparr>dtls_out := []\<rparr>)) of
        Inl _ \<Rightarrow> False | Inr d2 \<Rightarrow> dtls_connected d2)"
    by code_simp
  then show thesis using that by (auto simp: fbind_Inr_iff split: option.splits sum.splits)
qed

lemma demo_nominated:
  obtains i1 out where "ProcessPacket demo_env sample_request (PeerConnection_new InetAddress_zero sdp) =
      Inr (0, [], pc_send ((PeerConnection_new InetAddress_zero sdp)\<lparr>ice := Some i1\<rparr>) out)" "is_connected i1" "out \<noteq> []"
proof -
  let ?pc = "PeerConnection_new InetAddress_zero sdp :: (nat, srtp_policy) PeerConnection"
  obtain b where b: "Buffer_new kInitialSize = Inr b" "buf_inv b"
    using Buffer_new_spec [of kInitialSize] by (auto simp: kInitialSize_def)
  define i where "i = \<lparr>ice_state = ICE_NEW, ice_password = ice_pwd (sdp_net local_sdp), ice_send_buf = b\<rparr>"
  have inv: "ice_inv i" using b(2) by (simp add: i_def ice_inv_def)
  obtain q where q: "parsed REQUEST 0 sample_request q" "valid_request q" "has_use_candidate q" using sample_request_valid by blast
  obtain i1 out where i1: "ProcessStunPacket sample_hmac InetAddress_zero REQUEST 0 i sample_request = Inr (i1, out)" "is_connected i1" "out \<noteq> []"
    by (rule ProcessStunPacket_answers [OF sample_request_length q(1,2) inv sample_ice_inv(2), of sample_hmac]) (use q(3) in \<open>auto simp: is_connected_def\<close>)
  have "IsStun sample_request"
    using q(1) Parse_accepted [OF sample_request_length] by (auto simp: parsed_def accepted_as_def)
  moreover have "ensure_ice ?pc = Inr (i, ?pc\<lparr>ice := Some i\<rparr>)"
    by (simp add: ensure_ice_def IceServer_new_def b(1) i_def PeerConnection_new_def)
  moreover have "pc_addr ?pc = InetAddress_zero" by (simp add: PeerConnection_new_def)
  ultimately show thesis using that i1 by (simp add: ProcessPacket_def demo_env_def)
qed

lemma demo_answer:
  "\<exists>r ls pc'. ProcessPacket demo_env sample_request (PeerConnection_new InetAddress_zero sdp) = Inr (r, ls, pc') \<and> pc_sent pc' \<noteq> []"
  by (rule demo_nominated [of sdp]) auto

lemma demo_reaches:
  "\<exists>pc d. peer_run demo_env demo_events (PeerConnection_new InetAddress_zero sdp) = Inr pc \<and> dtls pc = Some d \<and> dtls_connected d \<and>
     \<not> established pc \<and> pc_sdp pc = sdp"
proof -
  let ?pc = "PeerConnection_new InetAddress_zero sdp :: (nat, srtp_policy) PeerConnection"
  obtain i1 out where i1: "ProcessPacket demo_env sample_request ?pc = Inr (0, [], pc_send (?pc\<lparr>ice := Some i1\<rparr>) out)" "is_connected i1"
    by (rule demo_nominated)
  let ?pc1 = "pc_send (?pc\<lparr>ice := Some i1\<rparr>) out"
  have pa: "dtls ?pc = None" "\<not> established ?pc" "pc_sdp ?pc = sdp" by (simp_all add: PeerConnection_new_def)
  obtain d0 d1 d2 where d: "DtlsTransport_New demo_ssl SERVER = Some d0" "Initialize 2 demo_ssl SERVER d0 = Inr d1"
    "ProcessDtlsPacket 2 demo_ssl (replicate 13 22) (d1\<lparr>dtls_out := []\<rparr>) = Inr d2" "dtls_connected d2" by (rule demo_dtls)
  have "peer_step demo_env (PcPacket (replicate 13 22)) ?pc1 = Inr (put_dtls (put_dtls ?pc1 d1) d2)"
    using d i1(2) pa by (simp add: peer_step_def ProcessPacket_def process_secured_def ensure_ice_def ensure_dtls_def demo_env_def IsStun_def IsDtls_def)
  then show ?thesis using i1(1) d(4) pa by (simp add: demo_events_def dtls_connected_def peer_step_def)
qed

section \<open>Properties\<close>



text \<open>C37. 
  The receiver report in a compound packet behind a sender report is misread: what is
  logged for it has the header of the sender report, and the sender of the report is
  right only where the two packets name the same source.
\<close>

theorem compound_report_misread:
  assumes p: "reports_ok (sr_comm p) (sr_reports p)" "report_header_ok (sr_comm p) 200 (length (sr_bytes p))"
    and q: "reports_ok (rr_comm q) (rr_reports q)" "report_header_ok (rr_comm q) 201 (length (rr_bytes q))"
  shows "\<exists>p' q'. ProcessRtcp (sr_bytes p @ rr_bytes q) = Inr (0, [LogSr p', LogRr q']) \<and>
    rr_comm q' = sr_comm p \<and> rr_sender_ssrc q' = si_ssrc (send_info p)"
proof -
  let ?ps = "[(sr_comm p, send_info_bytes (send_info p) @ concat (map report_bytes (sr_reports p))),
      (rr_comm q, be32 (rr_sender_ssrc q) @ concat (map report_bytes (rr_reports q)))]"
  let ?d = "sr_bytes p @ rr_bytes q"
  have "\<forall>x \<in> set ?ps. rtcp_part_ok x"
    using p(2) q(2) by (auto simp: rtcp_part_ok_def report_header_ok_def sr_bytes_def rr_bytes_def)
  then obtain ls where ls: "ProcessRtcp (compound ?ps) = Inr (0, ls)" "list_all2 (\<lambda>(h, b) l. rtcp_switch (compound ?ps) h = Inr l) ?ps ls"
    using ProcessRtcp_walks [of ?ps] by auto
  have "rtcp_switch ?d (sr_comm p) = Inr (ls ! 0)" "rtcp_switch ?d (rr_comm q) = Inr (ls ! 1)" "length ls = 2"
    using ls(2) unfolding sr_bytes_compound by (auto simp: list_all2_Cons1)
  moreover obtain r p' where "Sr_Decode SrPacket_new ?d = Inr (r, p')" using report_decoders_total by blast
  moreover obtain r' q' where q': "Rr_Decode RrPacket_new ?d = Inr (r', q')" using report_decoders_total by blast
  ultimately have two: "ls ! 0 = LogSr p'" "ls ! 1 = LogRr q'" "length ls = 2"
    using p(2) q(2) by (simp_all add: rtcp_switch_def report_header_ok_def)
  have "ls = [LogSr p', LogRr q']" using two by (intro nth_equalityI) (auto simp: less_Suc_eq numeral_eq_Suc)
  moreover have "load_common_header ?d = Inr (sr_comm p)"
    using load_common_header_bytes [of "sr_comm p"] p(1) by (simp add: sr_bytes_def reports_ok_def)
  moreover have "byte4 ?d 4 = Inr (si_ssrc (send_info p))"
    by (rule b4.get_enc) (simp_all add: sub_def sr_bytes_def send_info_bytes_def)
  moreover have "8 \<le> length ?d" by (simp add: sr_bytes_def)
  ultimately show ?thesis using ls(1) q' unfolding sr_bytes_compound
    by (auto simp: Rr_Decode_def kCommonHeaderSize_def fbind_Inr_iff simp flip: sr_bytes_compound split: if_splits)
qed

theorem compound_report_misread_witness:
  "let i = \<lparr>si_ssrc = 1, ntp_sec = 2, ntp_frac = 3, rtp_ts = 4, packet_count = 5, octet_count = 6\<rparr>;
       p = \<lparr>sr_comm = \<lparr>ch_count = 0, ch_padding = 0, ch_version = 2, ch_type = 200, ch_length = 6\<rparr>, send_info = i, sr_reports = []\<rparr>;
       q = \<lparr>rr_comm = \<lparr>ch_count = 0, ch_padding = 0, ch_version = 2, ch_type = 201, ch_length = 1\<rparr>, rr_sender_ssrc = 9, rr_reports = []\<rparr>
   in \<exists>p' q'. ProcessRtcp (sr_bytes p @ rr_bytes q) = Inr (0, [LogSr p', LogRr q']) \<and> rr_sender_ssrc q' = 1"
proof -
  let ?i = "\<lparr>si_ssrc = 1, ntp_sec = 2, ntp_frac = 3, rtp_ts = 4, packet_count = 5, octet_count = 6\<rparr>"
  let ?p = "\<lparr>sr_comm = \<lparr>ch_count = 0, ch_padding = 0, ch_version = 2, ch_type = 200, ch_length = 6\<rparr>, send_info = ?i, sr_reports = []\<rparr>"
  let ?q = "\<lparr>rr_comm = \<lparr>ch_count = 0, ch_padding = 0, ch_version = 2, ch_type = 201, ch_length = 1\<rparr>, rr_sender_ssrc = 9, rr_reports = []\<rparr>"
  show ?thesis using compound_report_misread [of ?p ?q]
    by (auto simp: reports_ok_def report_header_ok_def ch_ok_def sr_bytes_def rr_bytes_def)
qed

text \<open>C6. 
  Whatever datagrams arrive and timers expire, the SRTP sessions of a connection exist
  only after its DTLS transport was connected, over an ICE connection that is up, and
  they are keyed with the masters of that handshake: the outbound one with the local
  master, the inbound one with the remote master. An established connection has both
  sessions, and only an established one has its timer armed, so the timer never finds
  a missing session.
\<close>

theorem peer_sessions_are_keyed:
  assumes "env_ok env policy_of" and "peer_run env evs (PeerConnection_new a sdp) = Inr pc"
  shows "pc_ok env policy_of pc"
  using assms PeerConnection_new_ok peer_run_ok by blast

theorem peer_sessions_are_keyed_witness:
  "\<exists>pc. peer_run demo_env demo_events (PeerConnection_new InetAddress_zero local_sdp) = Inr pc \<and> pc_ok demo_env id pc"
proof -
  obtain pc where "peer_run demo_env demo_events (PeerConnection_new InetAddress_zero local_sdp) = Inr pc"
    using demo_reaches by blast
  then show ?thesis using peer_sessions_are_keyed [OF demo_env_ok] by blast
qed

text \<open>C13. 
  Nothing is sent too early: when a datagram makes a connection send something, the
  datagram is a STUN packet, or ICE is up and it is a DTLS packet, or ICE is up and the
  DTLS transport was already connected before it arrived.
\<close>

theorem media_only_after_handshake:
  assumes "env_ok env policy_of" and "peer_run env evs (PeerConnection_new a sdp) = Inr pc"
    and "ProcessPacket env p pc = Inr (r, ls, pc')" and "pc_sent pc' \<noteq> pc_sent pc"
  shows "IsStun p \<or> ice_up pc \<and> (IsDtls p \<or> (\<exists>d. dtls pc = Some d \<and> dtls_connected d))"
  using ProcessPacket_ok [OF assms(1) peer_run_ok [OF assms(1) PeerConnection_new_ok assms(2)] assms(3)] assms(4) by blast

theorem media_only_after_handshake_witness:
  "\<exists>r ls pc'. ProcessPacket demo_env sample_request (PeerConnection_new InetAddress_zero local_sdp) = Inr (r, ls, pc') \<and>
     pc_sent pc' \<noteq> [] \<and> IsStun sample_request"
proof -
  let ?pc = "PeerConnection_new InetAddress_zero local_sdp :: (nat, srtp_policy) PeerConnection"
  obtain r ls pc' where p: "ProcessPacket demo_env sample_request ?pc = Inr (r, ls, pc')" "pc_sent pc' \<noteq> []"
    using demo_answer by blast
  have "pc_sent pc' \<noteq> pc_sent ?pc" using p(2) by (simp add: PeerConnection_new_def)
  from media_only_after_handshake [OF demo_env_ok _ p(1) this, of "[]"] show ?thesis
    using p by (auto simp: ice_up_def PeerConnection_new_def)
qed

text \<open>C18. 
  An RTP packet of the peer comes back with the source 1234: on an established
  connection a packet that decrypts to a decodable RTP packet is sent back exactly
  once, the same in every other field, encrypted by the outbound session.
\<close>

theorem rtp_is_echoed:
  assumes "IsRtcp p = Inr False" and "IsRtp p = Inr True"
    and "ice pc = Some i" and "is_connected i" and "dtls pc = Some d" and "dtls_connected d" and "established pc"
    and "srtp_recv_session pc = Some rc" and "srtp_send_session pc = Some sc"
    and "DecryptRtp (env_srtp env) rc p = (True, rtp_bytes m pt sn ts ss cs ext pl pad, rc')"
    and "Rtp_Decode RtpPacket_new (rtp_bytes m pt sn ts ss cs ext pl pad) = Inr (v, rp)" and "0 \<le> v"
    and "EncryptRtp (env_srtp env) sc (rtp_bytes m pt sn ts 1234 cs ext pl pad) = (True, out, sc')"
  shows "ProcessPacket env p pc = Inr (0, [], pc_send (pc\<lparr>srtp_recv_session := Some rc', srtp_send_session := Some sc'\<rparr>) [out])"
proof -
  have "is_running d" using assms(6) by (simp add: is_running_def dtls_connected_def)
  moreover have "\<not> IsStun p" "\<not> IsDtls p" using first_byte_classes assms(2) by blast+
  ultimately show ?thesis using assms
    by (simp add: ProcessPacket_def ensure_ice_def process_secured_def ensure_dtls_def ensure_sessions_def establish_def
        process_media_def handle_rtp_def echo_rtp_def set_ssrc_rtp_bytes Let_def)
qed

theorem rtp_is_echoed_witness:
  "ProcessPacket demo_env (demo_rtp 5) demo_peer = Inr (0, [], pc_send demo_peer [demo_rtp 1234])"
proof -
  obtain v rp where "Rtp_Decode RtpPacket_new (demo_rtp 5) = Inr (v, rp)" "0 \<le> v"
  proof -
    have "case Rtp_Decode RtpPacket_new (demo_rtp 5) of Inl _ \<Rightarrow> False | Inr (v, _) \<Rightarrow> 0 \<le> v" by code_simp
    then show thesis using that by (auto split: sum.splits)
  qed
  moreover have "IsRtcp (demo_rtp 5) = Inr False" "IsRtp (demo_rtp 5) = Inr True" by code_simp+
  moreover have "demo_peer\<lparr>srtp_recv_session := Some demo_policy, srtp_send_session := Some demo_policy\<rparr> = demo_peer"
    by (simp add: demo_peer_def)
  moreover have "demo_rtp 5 \<noteq> []" "demo_rtp 1234 \<noteq> []" by (simp_all add: demo_rtp_def rtp_bytes_def)
  ultimately show ?thesis
    using rtp_is_echoed [of "demo_rtp 5" demo_peer "sample_ice\<lparr>ice_state := ICE_CONNECTED\<rparr>" demo_transport demo_policy demo_policy
        demo_env 0 96 1 2 5 "[]" None "[7, 8]" "[]" demo_policy v rp "demo_rtp 1234" demo_policy]
    by (simp add: demo_rtp_def demo_peer_def demo_transport_def is_connected_def dtls_connected_def demo_env_def demo_srtp_def
        DecryptRtp_def EncryptRtp_def after_call_def)
qed

text \<open>
  A peer whose session description has no media section, or none with a source in the
  first one, ends the process: the first datagram after the handshake that is neither
  STUN nor DTLS makes \<open>SendPli\<close> read outside of a vector.
\<close>

theorem media_without_source_fails:
  assumes env: "env_ok env policy_of" and ok: "pc_ok env policy_of pc" and d: "dtls pc = Some d" "dtls_connected d" and "\<not> established pc"
    and "\<not> IsStun p" and "\<not> IsDtls p" and create: "\<And>q. srtp_create (env_srtp env) q \<noteq> None"
    and "tracks (pc_sdp pc) = [] \<or> ssrc_group (hd (tracks (pc_sdp pc))) = []"
  shows "ProcessPacket env p pc = Inl OutOfBounds"
proof -
  have wf: "dtls_wf (env_ssl env) d" "ice_up pc" "srtp_lib_ok (env_srtp env) policy_of" using env ok d(1) by (simp_all add: pc_ok_def env_ok_def)
  obtain i where i: "ice pc = Some i" "is_connected i" using wf(2) by (auto simp: ice_up_def)
  have "is_running d" using d(2) by (simp add: is_running_def dtls_connected_def)
  moreover obtain pc1 where s: "ensure_sessions env d pc = (True, pc1)" "established pc1 = established pc" "pc_sdp pc1 = pc_sdp pc"
    using ensure_sessions_total [OF wf(1) d(2) wf(3) create] by blast
  moreover have "establish env pc1 = Inl OutOfBounds"
    using assms(5,9) s(2,3) by (auto simp: establish_def SendPli_def split: list.splits)
  ultimately show ?thesis using assms(6,7) i d
    by (simp add: ProcessPacket_def ensure_ice_def process_secured_def ensure_dtls_def)
qed

theorem media_without_source_fails_witness:
  "\<exists>pc. peer_run demo_env demo_events (PeerConnection_new InetAddress_zero local_sdp) = Inr pc \<and>
     ProcessPacket demo_env [0x80] pc = Inl OutOfBounds"
proof -
  obtain pc d where pc: "peer_run demo_env demo_events (PeerConnection_new InetAddress_zero local_sdp) = Inr pc" "dtls pc = Some d"
    "dtls_connected d" "\<not> established pc" "pc_sdp pc = local_sdp" using demo_reaches by blast
  have "pc_ok demo_env id pc" by (rule peer_run_ok [OF demo_env_ok PeerConnection_new_ok pc(1)])
  from media_without_source_fails [OF demo_env_ok this pc(2,3,4), of "[0x80]"] show ?thesis
    using pc(1,5) by (simp add: IsStun_def IsDtls_def demo_env_def demo_srtp_def local_sdp_def)
qed

end
