(* ===== verification/Webrtc_Server.thy ===== *)
theory Webrtc_Server
  imports Peer_Connection Http_Stream
begin

text \<open>
  \<open>webrtc/pc/webrtc_server.{h,cc}\<close>: the server that owns the peer connections. A
  request with a session description registers a connection under the two ICE
  usernames; the first STUN packet that names them binds it to the address of the
  sender, and from then on the datagrams of that address go to it.

  Connections are numbered; \<open>peers\<close> holds the live objects, so that locking a
  \<open>weak_ptr\<close> is a lookup. A buffer of the pool is represented by the bytes received
  into it: \<open>free_buffers\<close> is the size of the pool, \<open>packets\<close> are those queued in a
  connection. The coroutines of the server run between their suspension points without
  interruption, and each such stretch is one event.
\<close>

section \<open>The server\<close>

record ('s, 'c) WebRTCServer =
  connections :: "(byte list, nat) std_map"
  peers :: "nat \<Rightarrow> ('s, 'c) PeerConnection option"
  packets :: "nat \<Rightarrow> byte list list"
  next_peer :: nat
  free_buffers :: nat
  send_messages :: "(InetAddress \<times> byte list) list"
  sending :: "nat option"
  loop_broken :: bool
  wire :: "(InetAddress \<times> byte list) list"
  sendto_answers :: "bool list"

text \<open>
  \<open>env_ntop\<close> is \<open>inet_ntop\<close>, \<open>env_page\<close> the content of \<open>demo.html\<close>. \<open>sendto_answers\<close> says
  for each call whether \<open>SendTo\<close> takes the whole packet, \<open>wire\<close> collects what was taken,
  and \<open>sending\<close> is the position of the loop over \<open>send_messages_\<close> while it waits.
\<close>

record ('s, 'c) srv_env = "('s, 'c) pc_env" +
  env_ntop :: "u16 \<Rightarrow> byte list \<Rightarrow> byte list"
  env_page :: "byte list"

definition WebRTCServer_new :: "bool list \<Rightarrow> ('s, 'c) WebRTCServer" where
  "WebRTCServer_new answers = \<lparr>connections = [], peers = (\<lambda>_. None), packets = (\<lambda>_. []), next_peer = 0,
     free_buffers = 1000, send_messages = [], sending = None, loop_broken = False, wire = [], sendto_answers = answers\<rparr>"

abbreviation ip_port :: "('s, 'c) srv_env \<Rightarrow> InetAddress \<Rightarrow> byte list" where
  "ip_port env a \<equiv> addr_ip_port (env_ntop env) a"

definition next_answer :: "('s, 'c) WebRTCServer \<Rightarrow> bool \<times> ('s, 'c) WebRTCServer" where
  "next_answer srv = (case sendto_answers srv of
     [] \<Rightarrow> (True, srv)
   | b # bs \<Rightarrow> (b, srv\<lparr>sendto_answers := bs\<rparr>))"

text \<open>
  \<open>WebRTCServer::AsyncSend\<close>. A \<open>push_back\<close> while the other coroutine is inside its
  range-\<open>for\<close> over the vector leaves that loop with invalid iterators.
\<close>

definition server_AsyncSend :: "InetAddress \<Rightarrow> byte list \<Rightarrow> ('s, 'c) WebRTCServer \<Rightarrow> ('s, 'c) WebRTCServer" where
  "server_AsyncSend a pck srv =
     (let (ok, srv) = next_answer srv in
      if ok then srv\<lparr>wire := wire srv @ [(a, pck)]\<rparr>
      else srv\<lparr>send_messages := send_messages srv @ [(a, pck)], loop_broken := loop_broken srv \<or> sending srv \<noteq> None\<rparr>)"

text \<open>The connection after a call on it: what it sent goes through the server.\<close>

definition put_peer :: "nat \<Rightarrow> ('s, 'c) PeerConnection \<Rightarrow> ('s, 'c) WebRTCServer \<Rightarrow> ('s, 'c) WebRTCServer" where
  "put_peer n pc srv =
     (let srv = fold (\<lambda>d. server_AsyncSend (pc_addr pc) d) (pc_sent pc) srv in
      srv\<lparr>peers := (peers srv)(n := Some (pc\<lparr>pc_sent := []\<rparr>))\<rparr>)"

definition PeerConnectionDelete :: "('s, 'c) srv_env \<Rightarrow> nat \<Rightarrow> ('s, 'c) WebRTCServer \<Rightarrow> ('s, 'c) WebRTCServer" where
  "PeerConnectionDelete env n srv = (case peers srv n of
     None \<Rightarrow> srv
   | Some pc \<Rightarrow>
       srv\<lparr>connections := map_erase (ip_port env (pc_addr pc)) (connections srv), peers := (peers srv)(n := None),
           free_buffers := free_buffers srv + length (packets srv n), packets := (packets srv)(n := [])\<rparr>)"

section \<open>Media of one connection\<close>

text \<open>The loop over the packets \<open>AsyncRead\<close> returned; the flag says that an error ended it.\<close>

fun process_packets_of ::
  "('s, 'c) srv_env \<Rightarrow> byte list list \<Rightarrow> ('s, 'c) PeerConnection \<Rightarrow> (bool \<times> ('s, 'c) PeerConnection) res" where
  "process_packets_of env [] pc = Inr (False, pc)"
| "process_packets_of env (p # ps) pc =
     fbind (ProcessPacket (pc_env.truncate env) p pc) (\<lambda>(err, _, pc).
     if err < 0 then Inr (True, pc) else process_packets_of env ps pc)"

text \<open>One round of \<open>HandleMedia\<close>: with the queued packets, or with the timeout of its read.\<close>

definition media_round :: "('s, 'c) srv_env \<Rightarrow> nat \<Rightarrow> ('s, 'c) WebRTCServer \<Rightarrow> ('s, 'c) WebRTCServer res" where
  "media_round env n srv = (case peers srv n of
     None \<Rightarrow> Inr srv
   | Some pc \<Rightarrow>
       let ps = packets srv n in
       if ps = [] then Inr srv
       else
         fbind (process_packets_of env ps pc) (\<lambda>(failed, pc).
         let srv = put_peer n pc (srv\<lparr>packets := (packets srv)(n := []), free_buffers := free_buffers srv + length ps\<rparr>) in
         Inr (if failed then PeerConnectionDelete env n srv else srv)))"

definition media_timeout :: "('s, 'c) srv_env \<Rightarrow> nat \<Rightarrow> ('s, 'c) WebRTCServer \<Rightarrow> ('s, 'c) WebRTCServer" where
  "media_timeout env n srv = (if packets srv n = [] then PeerConnectionDelete env n srv else srv)"

section \<open>Signalling\<close>

definition ufrag_key :: "byte list \<Rightarrow> byte list" where
  "ufrag_key user = ice_ufrag (sdp_net local_sdp) @ str '':'' @ user"

text \<open>Registration of a connection; \<open>NetSdp::port_\<close> of the local variable is indeterminate.\<close>

definition SdpMessage_new :: "u16 \<Rightarrow> SdpMessage" where
  "SdpMessage_new port = \<lparr>cname = [], tracks = [], sdp_net =
     \<lparr>ice_ufrag = [], ice_pwd = [], finger_print = [], ice_option = [], net_setup = [], net_ip = [], net_port = port\<rparr>\<rparr>"

definition publish :: "byte list \<Rightarrow> ('s, 'c) WebRTCServer \<Rightarrow> ('s, 'c) WebRTCServer res" where
  "publish sdp srv =
     fbind (Sdp_Decode (SdpMessage_new 0) (SP_string sdp)) (\<lambda>(_, remote_sdp).
     let user = ice_ufrag (sdp_net remote_sdp) in
     fbind (assert_that (user \<noteq> [])) (\<lambda>_.
     let key = ufrag_key user in
     fbind (assert_that (map_of (connections srv) key = None)) (\<lambda>_.
     let n = next_peer srv in
     Inr (srv\<lparr>connections := map_put key n (connections srv), next_peer := Suc n,
              peers := (peers srv)(n := Some (PeerConnection_new InetAddress_zero remote_sdp)),
              packets := (packets srv)(n := [])\<rparr>))))"

definition success_line :: "byte list" where
  "success_line = MakeResponseLine \<lparr>sl_version = kHttp11, sl_code = k200, sl_description = kOK\<rparr>"

definition response_with :: "(byte list \<times> byte list) list \<Rightarrow> byte list \<Rightarrow> HttpMessage res" where
  "response_with hs b =
     fbind (set_response_line HttpMessage_new (SP_string success_line)) (\<lambda>rsp.
     fbind (foldl (\<lambda>m (k, v). fbind m (\<lambda>rsp. set_headers rsp (SP_string k) (SP_string v))) (Inr rsp) hs) (\<lambda>rsp.
     set_body rsp (SP_string b)))"

definition handle_request ::
  "('s, 'c) srv_env \<Rightarrow> HttpMessage \<Rightarrow> ('s, 'c) WebRTCServer \<Rightarrow> (HttpMessage \<times> ('s, 'c) WebRTCServer) res" where
  "handle_request env req srv =
     fbind (request_line req) (\<lambda>req_line.
     let url = rl_url req_line; page = env_page env in
     if url = str ''/'' then
       fbind (response_with [(str ''Content-Type'', str ''text/html; charset=utf-8''), (str ''Content-Length'', decimal (length page))] page)
         (\<lambda>rsp. Inr (rsp, srv))
     else if sublist (str ''pub'') url then
       fbind (publish (body req) srv) (\<lambda>srv.
       fbind (response_with [(str ''Content-Length'', decimal (length local_sdp_string))] local_sdp_string) (\<lambda>rsp. Inr (rsp, srv)))
     else if sublist (str ''sub'') url then Inr (HttpMessage_new, srv)
     else fbind (set_response_line HttpMessage_new (SP_string success_line)) (\<lambda>rsp. Inr (rsp, srv)))"

text \<open>The loop of \<open>HandleSignal\<close> over the requests of one client, seen alone; the fuel bounds the requests.\<close>

fun signal_loop ::
  "nat \<Rightarrow> ('s, 'c) srv_env \<Rightarrow> HttpStream \<Rightarrow> Io \<Rightarrow> ('s, 'c) WebRTCServer \<Rightarrow> (HttpStream \<times> Io \<times> ('s, 'c) WebRTCServer) res" where
  "signal_loop 0 env http io srv = Inl Diverge"
| "signal_loop (Suc fuel) env http io srv =
     fbind (HttpStream_AsyncRead HttpMessage_new 5000 False http io) (\<lambda>(rn, timeout, req, http, io).
     if timeout then Inr (http, io, srv)
     else if rn \<le> 0 then Inr (http, io, srv)
     else
       fbind (handle_request env req srv) (\<lambda>(rsp, srv).
       fbind (HttpStream_AsyncWrite rsp http io) (\<lambda>(wn, http, io).
       if wn < 0 then Inr (http, io, srv) else signal_loop fuel env http io srv)))"

definition HandleSignal ::
  "nat \<Rightarrow> ('s, 'c) srv_env \<Rightarrow> bool \<Rightarrow> unit answer list \<Rightarrow> HttpStream \<Rightarrow> Io \<Rightarrow> ('s, 'c) WebRTCServer \<Rightarrow>
     (HttpStream \<times> Io \<times> ('s, 'c) WebRTCServer) res" where
  "HandleSignal fuel env has_ssl accepts http io srv =
     fbind (UpgradeHttps has_ssl accepts http io) (\<lambda>(err, http, io).
     if err < 0 then Inr (http, io, srv) else signal_loop fuel env http io srv)"

section \<open>Dispatching datagrams\<close>

datatype received_from = RecvTimeout | RecvError | RecvFrom InetAddress "byte list"

text \<open>A buffer of the pool has room for 1508 bytes; a longer datagram is cut by \<open>recvfrom\<close>.\<close>

definition buffer_room :: nat where "buffer_room = nat kInitialSize"

definition enqueue :: "nat \<Rightarrow> byte list \<Rightarrow> ('s, 'c) WebRTCServer \<Rightarrow> ('s, 'c) WebRTCServer" where
  "enqueue n d srv = srv\<lparr>packets := (packets srv)(n := packets srv n @ [d]), free_buffers := free_buffers srv - 1\<rparr>"

text \<open>The block of \<open>DispatchDataLoop\<close> for a received datagram.\<close>

definition dispatch_datagram :: "('s, 'c) srv_env \<Rightarrow> InetAddress \<Rightarrow> byte list \<Rightarrow> ('s, 'c) WebRTCServer \<Rightarrow> ('s, 'c) WebRTCServer res" where
  "dispatch_datagram env peeraddr d srv =
     (let remote = ip_port env peeraddr in
      case map_of (connections srv) remote of
        Some n \<Rightarrow> Inr (if peers srv n = None then srv else enqueue n d srv)
      | None \<Rightarrow>
          if IsStun d then
            fbind (Parse (StunPacket_new (env_klass env) (env_method env)) d) (\<lambda>(err, stun_packet).
            if err < 0 then Inr srv
            else
              let ufrag = username stun_packet in
              case map_of (connections srv) ufrag of
                None \<Rightarrow> Inr srv
              | Some n \<Rightarrow>
                  let srv = srv\<lparr>connections := map_erase ufrag (map_put remote n (connections srv))\<rparr> in
                  (case peers srv n of
                     None \<Rightarrow> Inr srv
                   | Some pc \<Rightarrow> Inr (enqueue n d (srv\<lparr>peers := (peers srv)(n := Some (pc\<lparr>pc_addr := peeraddr\<rparr>))\<rparr>))))
          else Inr srv)"

text \<open>One round of the loop up to the first suspension in the sending loop.\<close>

definition dispatch :: "('s, 'c) srv_env \<Rightarrow> received_from \<Rightarrow> ('s, 'c) WebRTCServer \<Rightarrow> ('s, 'c) WebRTCServer res" where
  "dispatch env r srv =
     (if free_buffers srv = 0 then Inl NullDeref
      else
        fbind (case r of RecvTimeout \<Rightarrow> Inr srv | RecvError \<Rightarrow> Inr srv
               | RecvFrom a d \<Rightarrow> dispatch_datagram env a (take buffer_room d) srv) (\<lambda>srv.
        Inr (if send_messages srv \<noteq> [] then srv\<lparr>sending := Some 0\<rparr> else srv)))"

text \<open>The return of one \<open>AsyncSendto\<close> of the sending loop, and what follows up to the next one.\<close>

definition flush_step :: "('s, 'c) WebRTCServer \<Rightarrow> ('s, 'c) WebRTCServer res" where
  "flush_step srv = (case sending srv of
     None \<Rightarrow> Inr srv
   | Some i \<Rightarrow>
       if loop_broken srv then Inl BadPointer
       else if length (send_messages srv) \<le> i then Inl BadPointer
       else
         let (ok, srv) = next_answer srv;
             srv = (if ok then srv\<lparr>wire := wire srv @ [send_messages srv ! i]\<rparr> else srv) in
         if Suc i < length (send_messages srv) then Inr (srv\<lparr>sending := Some (Suc i)\<rparr>)
         else Inr (srv\<lparr>send_messages := [], sending := None\<rparr>))"

section \<open>Events\<close>

datatype srv_event =
    Request HttpMessage | Receive received_from | Flush | Media nat | MediaTimeout nat | PeerTimer nat bool

definition peer_timer :: "('s, 'c) srv_env \<Rightarrow> nat \<Rightarrow> bool \<Rightarrow> ('s, 'c) WebRTCServer \<Rightarrow> ('s, 'c) WebRTCServer res" where
  "peer_timer env n pli srv = (case peers srv n of
     None \<Rightarrow> Inr srv
   | Some pc \<Rightarrow> fbind (peer_step (pc_env.truncate env) (if pli then PcPliTimer else PcDtlsTimer) pc) (\<lambda>pc. Inr (put_peer n pc srv)))"

text \<open>The dispatching coroutine receives only while it does not wait in its sending loop.\<close>

fun srv_step :: "('s, 'c) srv_env \<Rightarrow> srv_event \<Rightarrow> ('s, 'c) WebRTCServer \<Rightarrow> ('s, 'c) WebRTCServer res" where
  "srv_step env (Request req) srv = fbind (handle_request env req srv) (\<lambda>(_, srv). Inr srv)"
| "srv_step env (Receive r) srv = (if sending srv = None then dispatch env r srv else Inr srv)"
| "srv_step env Flush srv = flush_step srv"
| "srv_step env (Media n) srv = media_round env n srv"
| "srv_step env (MediaTimeout n) srv = Inr (media_timeout env n srv)"
| "srv_step env (PeerTimer n pli) srv = peer_timer env n pli srv"

fun srv_run :: "('s, 'c) srv_env \<Rightarrow> srv_event list \<Rightarrow> ('s, 'c) WebRTCServer \<Rightarrow> ('s, 'c) WebRTCServer res" where
  "srv_run env [] srv = Inr srv"
| "srv_run env (ev # evs) srv = fbind (srv_step env ev srv) (srv_run env evs)"

section \<open>Invariant\<close>

text \<open>
  \<open>inet_ntop\<close> writes digits, hexadecimal letters, dots and colons, so the text of an
  address never starts with the local username, which contains a \<open>P\<close>.
\<close>

definition names_apart :: "('s, 'c) srv_env \<Rightarrow> bool" where
  "names_apart env \<longleftrightarrow> (\<forall>a. \<not> prefix (ufrag_key []) (ip_port env a))"

text \<open>A key is the pair of usernames the connection was registered under, or the address of its peer.\<close>

definition entry_ok :: "('s, 'c) srv_env \<Rightarrow> ('s, 'c) WebRTCServer \<Rightarrow> byte list \<times> nat \<Rightarrow> bool" where
  "entry_ok env srv e \<longleftrightarrow> snd e < next_peer srv \<and>
     (\<forall>pc. peers srv (snd e) = Some pc \<longrightarrow> prefix (ufrag_key []) (fst e) \<or> fst e = ip_port env (pc_addr pc))"

definition queued :: "('s, 'c) WebRTCServer \<Rightarrow> nat" where
  "queued srv = (\<Sum>n<next_peer srv. length (packets srv n))"

definition srv_ok :: "('s, 'c) srv_env \<Rightarrow> ('s, 'c) WebRTCServer \<Rightarrow> bool" where
  "srv_ok env srv \<longleftrightarrow>
     map_ok (connections srv) \<and> inj_on snd (set (connections srv)) \<and> (\<forall>e \<in> set (connections srv). entry_ok env srv e) \<and>
     (\<forall>n pc. peers srv n = Some pc \<longrightarrow> n < next_peer srv) \<and> free_buffers srv + queued srv = 1000"

lemma set_map_put: "map_ok m \<Longrightarrow> set (map_put k v m) = insert (k, v) {e \<in> set m. fst e \<noteq> k}"
proof (induction m)
  case (Cons e m)
  then show ?case by (cases e) (auto simp: map_ok_Cons)
qed simp

lemma set_map_erase: "set (map_erase k m) = {e \<in> set m. fst e \<noteq> k}"
  by (simp add: map_erase_def)

lemma server_AsyncSend_fields [simp]:
  "connections (server_AsyncSend a d srv) = connections srv" "peers (server_AsyncSend a d srv) = peers srv"
  "packets (server_AsyncSend a d srv) = packets srv" "next_peer (server_AsyncSend a d srv) = next_peer srv"
  "free_buffers (server_AsyncSend a d srv) = free_buffers srv" "sending (server_AsyncSend a d srv) = sending srv"
  by (simp_all add: server_AsyncSend_def next_answer_def split: list.split)

lemma sends_fields [simp]:
  "connections (fold (server_AsyncSend a) ds srv) = connections srv" "peers (fold (server_AsyncSend a) ds srv) = peers srv"
  "packets (fold (server_AsyncSend a) ds srv) = packets srv" "next_peer (fold (server_AsyncSend a) ds srv) = next_peer srv"
  "free_buffers (fold (server_AsyncSend a) ds srv) = free_buffers srv" "sending (fold (server_AsyncSend a) ds srv) = sending srv"
  by (induction ds arbitrary: srv) simp_all

lemma put_peer_fields [simp]:
  "connections (put_peer n pc srv) = connections srv" "packets (put_peer n pc srv) = packets srv"
  "peers (put_peer n pc srv) = (peers srv)(n := Some (pc\<lparr>pc_sent := []\<rparr>))"
  "next_peer (put_peer n pc srv) = next_peer srv" "free_buffers (put_peer n pc srv) = free_buffers srv"
  by (simp_all add: put_peer_def Let_def)

text \<open>The queues after the queue of one connection changed.\<close>

lemma sum_update: "n < m \<Longrightarrow> (\<Sum>k<m. length ((f(n := q)) k)) + length (f n) = (\<Sum>k<(m::nat). length (f k)) + length q"
proof -
  assume n: "n < m"
  have "(\<Sum>k<m. length ((f(n := q)) k)) = length q + (\<Sum>k \<in> {..<m} - {n}. length (f k))"
    using n by (subst sum.remove [of _ n]) auto
  moreover have "(\<Sum>k<m. length (f k)) = length (f n) + (\<Sum>k \<in> {..<m} - {n}. length (f k))"
    using n by (subst sum.remove [of _ n]) auto
  ultimately show ?thesis by simp
qed

lemma srv_ok_cong:
  "\<lbrakk>connections s = connections srv; peers s = peers srv; packets s = packets srv; next_peer s = next_peer srv;
    free_buffers s = free_buffers srv\<rbrakk> \<Longrightarrow> srv_ok env s = srv_ok env srv"
  by (simp add: srv_ok_def entry_ok_def queued_def)

lemma put_peer_ok:
  assumes "srv_ok env srv" and "peers srv n = Some pc" and "pc_addr pc' = pc_addr pc"
  shows "srv_ok env (put_peer n pc' srv)"
  using assms by (auto simp: srv_ok_def entry_ok_def queued_def)

lemma PeerConnectionDelete_ok: "srv_ok env srv \<Longrightarrow> srv_ok env (PeerConnectionDelete env n srv)"
proof (cases "peers srv n")
  case (Some pc)
  assume ok: "srv_ok env srv"
  have "n < next_peer srv" using ok Some by (simp add: srv_ok_def)
  then show ?thesis using ok Some sum_update [of n "next_peer srv" "packets srv" "[]"]
    by (auto simp: srv_ok_def PeerConnectionDelete_def entry_ok_def queued_def set_map_erase map_ok_erase intro: inj_on_subset)
qed (simp add: PeerConnectionDelete_def)

lemma process_packets_of_addr: "process_packets_of env ps pc = Inr (b, pc1) \<Longrightarrow> pc_addr pc1 = pc_addr pc"
  by (induction ps arbitrary: pc) (auto simp: fbind_Inr_iff dest!: ProcessPacket_addr split: if_splits)

lemma media_round_ok:
  assumes ok: "srv_ok env srv" and m: "media_round env n srv = Inr srv1"
  shows "srv_ok env srv1"
proof (cases "\<exists>pc. peers srv n = Some pc \<and> packets srv n \<noteq> []")
  case True
  then obtain pc where pc: "peers srv n = Some pc" "packets srv n \<noteq> []" by blast
  let ?s = "srv\<lparr>packets := (packets srv)(n := []), free_buffers := free_buffers srv + length (packets srv n)\<rparr>"
  have "n < next_peer srv" using ok pc by (simp add: srv_ok_def)
  then have s: "srv_ok env ?s" using ok sum_update [of n "next_peer srv" "packets srv" "[]"]
    by (auto simp: srv_ok_def entry_ok_def queued_def)
  obtain b pc1 where p: "process_packets_of env (packets srv n) pc = Inr (b, pc1)"
    "srv1 = (if b then PeerConnectionDelete env n (put_peer n pc1 ?s) else put_peer n pc1 ?s)"
    using m pc by (auto simp: media_round_def fbind_Inr_iff Let_def)
  have "srv_ok env (put_peer n pc1 ?s)"
    by (rule put_peer_ok [OF s, of n pc]) (use pc process_packets_of_addr [OF p(1)] in simp_all)
  then show ?thesis using p(2) PeerConnectionDelete_ok by auto
qed (use assms in \<open>auto simp: media_round_def Let_def split: option.splits\<close>)

lemma enqueue_ok:
  assumes "srv_ok env srv" and "n < next_peer srv" and "0 < free_buffers srv"
  shows "srv_ok env (enqueue n d srv)"
  using assms sum_update [of n "next_peer srv" "packets srv" "packets srv n @ [d]"]
  by (auto simp: srv_ok_def enqueue_def entry_ok_def queued_def)

lemma rebind_set:
  assumes "map_ok m" and "map_of m r = None" and "map_of m u = Some n"
  shows "set (map_erase u (map_put r n m)) = insert (r, n) {e \<in> set m. fst e \<noteq> u}"
proof -
  have "u \<noteq> r" using assms(2,3) by auto
  moreover have "e \<in> set m \<Longrightarrow> fst e \<noteq> r" for e using assms(2) by (force simp: map_of_eq_None_iff)
  ultimately show ?thesis by (auto simp: set_map_erase set_map_put [OF assms(1)])
qed

lemma rebind_ok:
  assumes ok: "srv_ok env srv" and r: "map_of (connections srv) (ip_port env a) = None" and u: "map_of (connections srv) u = Some n"
    and p: "peers' = (case peers srv n of None \<Rightarrow> peers srv | Some pc \<Rightarrow> (peers srv)(n := Some (pc\<lparr>pc_addr := a\<rparr>)))"
  shows "srv_ok env (srv\<lparr>connections := map_erase u (map_put (ip_port env a) n (connections srv)), peers := peers'\<rparr>)"
proof -
  let ?c = "map_erase u (map_put (ip_port env a) n (connections srv))"
  have m: "map_ok (connections srv)" "inj_on snd (set (connections srv))" using ok by (simp_all add: srv_ok_def)
  have un: "(u, n) \<in> set (connections srv)" using u by (rule map_of_SomeD)
  have c: "set ?c = insert (ip_port env a, n) {e \<in> set (connections srv). fst e \<noteq> u}" by (rule rebind_set [OF m(1) r u])
  have other: "snd e \<noteq> n" if "e \<in> set (connections srv)" "fst e \<noteq> u" for e
    using inj_onD [OF m(2), of e "(u, n)"] that un by (metis fst_conv snd_conv)
  have "inj_on snd (set ?c)" unfolding c using inj_on_subset [OF m(2), of "{e \<in> set (connections srv). fst e \<noteq> u}"] other
    by (auto simp: inj_on_insert)
  moreover have "\<forall>e \<in> set ?c. snd e < next_peer srv \<and>
      (\<forall>pc. peers' (snd e) = Some pc \<longrightarrow> prefix (ufrag_key []) (fst e) \<or> fst e = ip_port env (pc_addr pc))"
  proof
    fix e
    assume "e \<in> set ?c"
    moreover have "peers' (snd e) = peers srv (snd e)" if "e \<in> set (connections srv)" "fst e \<noteq> u"
      using other [OF that] p by (simp split: option.splits)
    ultimately consider "e = (ip_port env a, n)" | "e \<in> set (connections srv)" "peers' (snd e) = peers srv (snd e)"
      unfolding c by blast
    then show "snd e < next_peer srv \<and>
        (\<forall>pc. peers' (snd e) = Some pc \<longrightarrow> prefix (ufrag_key []) (fst e) \<or> fst e = ip_port env (pc_addr pc))"
    proof cases
      case 1
      then show ?thesis using ok un p by (auto simp: srv_ok_def entry_ok_def split: option.splits)
    next
      case 2
      then show ?thesis using ok by (auto simp: srv_ok_def entry_ok_def)
    qed
  qed
  moreover have "\<forall>k pc. peers' k = Some pc \<longrightarrow> k < next_peer srv"
    using ok p by (auto simp: srv_ok_def split: option.splits if_splits)
  moreover have "map_ok ?c" by (intro map_ok_erase map_ok_put m(1))
  ultimately show ?thesis using ok by (auto simp: srv_ok_def entry_ok_def queued_def)
qed

lemma dispatch_datagram_cases:
  assumes "dispatch_datagram env a d srv = Inr srv1"
  obtains "srv1 = srv"
    | n pc where "map_of (connections srv) (ip_port env a) = Some n" "peers srv n = Some pc" "srv1 = enqueue n d srv"
    | q u n peers' where "Parse (StunPacket_new (env_klass env) (env_method env)) d = Inr q" "fst q \<ge> 0" "u = username (snd q)"
        "map_of (connections srv) (ip_port env a) = None" "map_of (connections srv) u = Some n"
        "peers' = (case peers srv n of None \<Rightarrow> peers srv | Some pc \<Rightarrow> (peers srv)(n := Some (pc\<lparr>pc_addr := a\<rparr>)))"
        "srv1 = (let s = srv\<lparr>connections := map_erase u (map_put (ip_port env a) n (connections srv)), peers := peers'\<rparr> in
           if peers srv n = None then s else enqueue n d s)"
proof (cases "map_of (connections srv) (ip_port env a)")
  case (Some n)
  show thesis
  proof (cases "peers srv n")
    case None
    have "srv1 = srv" using assms by (simp add: dispatch_datagram_def Some None)
    then show thesis by (rule that(1))
  next
    case p: (Some pc)
    have "srv1 = enqueue n d srv" using assms by (simp add: dispatch_datagram_def Some p)
    then show thesis by (rule that(2) [OF Some p])
  qed
next
  case None
  show thesis
  proof (cases "IsStun d")
    case True
    then obtain e q where q: "Parse (StunPacket_new (env_klass env) (env_method env)) d = Inr (e, q)"
      using assms None by (auto simp: dispatch_datagram_def fbind_Inr_iff)
    show thesis
    proof (cases "e < 0 \<or> map_of (connections srv) (username q) = None")
      case bad: True
      have "srv1 = srv" using assms None True q bad by (auto simp: dispatch_datagram_def Let_def split: if_splits)
      then show thesis by (rule that(1))
    next
      case False
      then obtain n where n: "map_of (connections srv) (username q) = Some n" "0 \<le> e" by force
      show thesis
      proof (rule that(3) [OF q])
        show "srv1 = (let s = srv\<lparr>connections := map_erase (username q) (map_put (ip_port env a) n (connections srv)),
            peers := (case peers srv n of None \<Rightarrow> peers srv | Some pc \<Rightarrow> (peers srv)(n := Some (pc\<lparr>pc_addr := a\<rparr>)))\<rparr> in
          if peers srv n = None then s else enqueue n d s)"
          using assms None True q n by (cases "peers srv n") (auto simp: dispatch_datagram_def)
      qed (use None n in simp_all)
    qed
  next
    case False
    have "srv1 = srv" using assms None False by (simp add: dispatch_datagram_def)
    then show thesis by (rule that(1))
  qed
qed

lemma dispatch_datagram_ok:
  assumes ok: "srv_ok env srv" and free: "0 < free_buffers srv" and d: "dispatch_datagram env a d srv = Inr srv1"
  shows "srv_ok env srv1"
  using d
proof (cases rule: dispatch_datagram_cases)
  case (2 n pc)
  then have "n < next_peer srv" using ok by (simp add: srv_ok_def)
  then show ?thesis using enqueue_ok [OF ok _ free] 2 by simp
next
  case (3 q u n peers')
  let ?s = "srv\<lparr>connections := map_erase u (map_put (ip_port env a) n (connections srv)), peers := peers'\<rparr>"
  have s: "srv_ok env ?s" by (rule rebind_ok [OF ok 3(4,5,6)])
  have "n < next_peer srv" using ok map_of_SomeD [OF 3(5)] by (auto simp: srv_ok_def entry_ok_def)
  then show ?thesis using s enqueue_ok [OF s, of n d] free 3(7) by (simp add: Let_def)
qed (use ok in simp)

lemma dispatch_ok:
  assumes ok: "srv_ok env srv" and d: "dispatch env r srv = Inr srv1"
  shows "srv_ok env srv1"
proof -
  have free: "0 < free_buffers srv" using d by (auto simp: dispatch_def split: if_splits)
  obtain s where "(case r of RecvTimeout \<Rightarrow> Inr srv | RecvError \<Rightarrow> Inr srv | RecvFrom a d \<Rightarrow> dispatch_datagram env a (take buffer_room d) srv) = Inr s"
    "srv1 = (if send_messages s \<noteq> [] then s\<lparr>sending := Some 0\<rparr> else s)"
    using d free by (auto simp: dispatch_def fbind_Inr_iff)
  then show ?thesis using ok dispatch_datagram_ok [OF ok free]
    by (cases r) (auto simp: srv_ok_def entry_ok_def queued_def)
qed

lemma publish_ok:
  assumes ok: "srv_ok env srv" and p: "publish sdp srv = Inr srv1"
  shows "srv_ok env srv1"
proof -
  obtain user rsdp where u: "map_of (connections srv) (ufrag_key user) = None"
    "srv1 = srv\<lparr>connections := map_put (ufrag_key user) (next_peer srv) (connections srv), next_peer := Suc (next_peer srv),
       peers := (peers srv)(next_peer srv := Some (PeerConnection_new InetAddress_zero rsdp)), packets := (packets srv)(next_peer srv := [])\<rparr>"
    using p by (auto simp: publish_def fbind_Inr_iff Let_def)
  have m: "map_ok (connections srv)" using ok by (simp add: srv_ok_def)
  have c: "set (map_put (ufrag_key user) (next_peer srv) (connections srv)) = insert (ufrag_key user, next_peer srv) (set (connections srv))"
    using u(1) by (force simp: set_map_put [OF m] map_of_eq_None_iff)
  have "next_peer srv \<notin> snd ` set (connections srv)" using ok by (force simp: srv_ok_def entry_ok_def)
  then have "inj_on snd (set (map_put (ufrag_key user) (next_peer srv) (connections srv)))" unfolding c using ok by (auto simp: srv_ok_def)
  moreover have "prefix (ufrag_key []) (ufrag_key user)" by (simp add: ufrag_key_def)
  ultimately show ?thesis using ok u(2) m map_ok_put c by (auto simp: srv_ok_def entry_ok_def queued_def less_Suc_eq)
qed

lemma handle_request_ok:
  assumes ok: "srv_ok env srv" and h: "handle_request env req srv = Inr (rsp, srv1)"
  shows "srv_ok env srv1"
proof -
  have "srv1 = srv \<or> publish (body req) srv = Inr srv1"
    using h by (auto simp: handle_request_def fbind_Inr_iff Let_def split: if_splits)
  then show ?thesis using ok publish_ok by blast
qed

lemma flush_step_fields:
  "flush_step srv = Inr srv1 \<Longrightarrow> connections srv1 = connections srv \<and> peers srv1 = peers srv \<and> packets srv1 = packets srv \<and>
     next_peer srv1 = next_peer srv \<and> free_buffers srv1 = free_buffers srv"
  by (auto simp: flush_step_def next_answer_def Let_def split: option.splits if_splits list.splits)

lemma flush_step_ok: "srv_ok env srv \<Longrightarrow> flush_step srv = Inr srv1 \<Longrightarrow> srv_ok env srv1"
  using flush_step_fields [of srv srv1] srv_ok_cong [of srv1 srv env] by blast

lemma srv_step_ok:
  assumes ok: "srv_ok env srv" and st: "srv_step env ev srv = Inr srv1"
  shows "srv_ok env srv1"
proof (cases ev)
  case (Request req)
  then show ?thesis using st handle_request_ok [OF ok] by (auto simp: fbind_Inr_iff)
next
  case (Receive r)
  then show ?thesis using ok st dispatch_ok [OF ok] by (auto split: if_splits)
next
  case (MediaTimeout n)
  then show ?thesis using ok st PeerConnectionDelete_ok [OF ok, of n] by (auto simp: media_timeout_def split: if_splits)
next
  case (PeerTimer n pli)
  then show ?thesis using ok st put_peer_ok [OF ok] peer_step_addr by (fastforce simp: peer_timer_def fbind_Inr_iff split: option.splits)
qed (use st flush_step_ok [OF ok] media_round_ok [OF ok] in auto)

lemma srv_run_ok: "srv_ok env srv \<Longrightarrow> srv_run env evs srv = Inr srv1 \<Longrightarrow> srv_ok env srv1"
proof (induction evs arbitrary: srv)
  case (Cons ev evs)
  then obtain s where "srv_step env ev srv = Inr s" "srv_run env evs s = Inr srv1" by (auto simp: fbind_Inr_iff)
  then show ?case using Cons srv_step_ok by blast
qed simp

lemma WebRTCServer_new_ok: "srv_ok env (WebRTCServer_new answers)"
  by (simp add: srv_ok_def WebRTCServer_new_def queued_def)

lemma packets_enqueue: "packets (enqueue n d srv) k = (if k = n then packets srv n @ [d] else packets srv k)"
  by (simp add: enqueue_def)

lemma peers_enqueue [simp]: "peers (enqueue n d srv) = peers srv"
  by (simp add: enqueue_def)

lemma dispatch_datagram_routes:
  assumes apart: "names_apart env" and ok: "srv_ok env srv" and d: "dispatch_datagram env a d srv = Inr srv1" and ch: "packets srv1 n \<noteq> packets srv n"
  shows "packets srv1 n = packets srv n @ [d] \<and> (\<forall>k. k \<noteq> n \<longrightarrow> packets srv1 k = packets srv k) \<and>
    (\<exists>pc. peers srv1 n = Some pc \<and> ip_port env (pc_addr pc) = ip_port env a) \<and>
    (peers srv1 n \<noteq> peers srv n \<longrightarrow> (\<exists>e q. Parse (StunPacket_new (env_klass env) (env_method env)) d = Inr (e, q) \<and> 0 \<le> e \<and>
       map_of (connections srv) (username q) = Some n))"
  using d
proof (cases rule: dispatch_datagram_cases)
  case (2 m pc)
  have "(ip_port env a, m) \<in> set (connections srv)" using 2(1) by (rule map_of_SomeD)
  then have "ip_port env (pc_addr pc) = ip_port env a"
    using ok 2(2) apart by (force simp: srv_ok_def entry_ok_def names_apart_def)
  then show ?thesis using 2 ch by (auto simp: packets_enqueue split: if_splits)
next
  case (3 q u m peers')
  then have "n = m" "peers srv m \<noteq> None" using ch by (auto simp: Let_def packets_enqueue split: if_splits)
  then show ?thesis using 3 by (cases q) (auto simp: Let_def packets_enqueue)
qed (use ch in simp)

lemma zero_ip_port: "ip_port env InetAddress_zero = []"
  by (simp add: addr_ip_port_def addr_family_def InetAddress_zero_def AF_INET_def AF_INET6_def)

definition demo_srv_env :: "(nat, srtp_policy) srv_env" where
  "demo_srv_env = pc_env.extend demo_env \<lparr>env_ntop = (\<lambda>_ _. str ''10.0.0.1''), env_page = []\<rparr>"

text \<open>An offer, the request that carries it, and what the server makes of it.\<close>

definition demo_offer :: "byte list" where
  "demo_offer = str ''a=ice-ufrag:abc'' @ crlf"

definition demo_pub :: HttpMessage where
  "demo_pub = \<lparr>first_line = str ''POST /pub HTTP/1.1'', headers = [], body = demo_offer\<rparr>"

lemma AsString_SP_string [simp]: "AsString (SP_string b) = Inr b"
  by (simp add: SP_string_vw AsString_vw)

lemma one_header_response: "\<exists>rsp. response_with [(k, v)] b = Inr rsp"
  by (simp add: response_with_def set_response_line_def set_headers_def set_body_def)

lemma demo_published:
  "\<exists>srv. srv_run demo_srv_env [Request demo_pub] (WebRTCServer_new []) = Inr srv \<and> connections srv = [(ufrag_key (str ''abc''), 0)] \<and>
     (\<exists>pc. peers srv 0 = Some pc) \<and> packets srv 0 = [] \<and> sending srv = None \<and> free_buffers srv = 1000 \<and> send_messages srv = []"
proof -
  have "case request_line demo_pub of Inl _ \<Rightarrow> False | Inr l \<Rightarrow> rl_url l = str ''/pub''" by code_simp
  then obtain l where l: "request_line demo_pub = Inr l" "rl_url l = str ''/pub''" by (auto split: sum.splits)
  have u: "str ''/pub'' \<noteq> str ''/''" "sublist (str ''pub'') (str ''/pub'')" by code_simp+
  have "case publish demo_offer (WebRTCServer_new [] :: (nat, srtp_policy) WebRTCServer) of Inl _ \<Rightarrow> False
    | Inr srv \<Rightarrow> connections srv = [(ufrag_key (str ''abc''), 0)] \<and> (case peers srv 0 of None \<Rightarrow> False | Some _ \<Rightarrow> True) \<and>
        packets srv 0 = [] \<and> sending srv = None \<and> free_buffers srv = 1000 \<and> (case send_messages srv of [] \<Rightarrow> True | _ \<Rightarrow> False)"
    by code_simp
  then obtain srv pc where p: "publish demo_offer (WebRTCServer_new [] :: (nat, srtp_policy) WebRTCServer) = Inr srv"
    "connections srv = [(ufrag_key (str ''abc''), 0)]" "peers srv 0 = Some pc" "packets srv 0 = []" "sending srv = None"
    "free_buffers srv = 1000" "send_messages srv = []"
    by (auto split: sum.splits option.splits list.splits)
  moreover obtain rsp where "response_with [(str ''Content-Length'', decimal (length local_sdp_string))] local_sdp_string = Inr rsp"
    using one_header_response by blast
  ultimately have "srv_run demo_srv_env [Request demo_pub] (WebRTCServer_new []) = Inr srv"
    using l u by (simp add: handle_request_def demo_pub_def)
  then show ?thesis using p by blast
qed

text \<open>The nomination by the peer that made the offer.\<close>

definition demo_nomination :: "byte list" where
  "demo_nomination = packed sample_hmac (Stun_Roundtrip.sample_message\<lparr>username := ufrag_key (str ''abc'')\<rparr>)"

lemma demo_nomination_ok:
  "\<exists>q. Parse (StunPacket_new REQUEST 0) demo_nomination = Inr (0, q) \<and> username q = ufrag_key (str ''abc'') \<and>
     IsStun demo_nomination \<and> length demo_nomination \<le> buffer_room"
proof -
  let ?m = "Stun_Roundtrip.sample_message\<lparr>username := ufrag_key (str ''abc'')\<rparr>"
  have m: "length (transaction_id ?m) = 12" "addr_wf (xor_mapped_address ?m)" "method ?m = BINDING" "unat (error_code ?m) < 25600"
    using sample_message_fields by simp_all
  have u: "length (username ?m) = 8" by code_simp
  have "Parse (StunPacket_new REQUEST 0) demo_nomination =
      Inr (0, read_back sample_hmac ?m (header_packet (StunPacket_new REQUEST 0) demo_nomination (type_field ?m) (transaction_id ?m)))"
    unfolding demo_nomination_def by (rule packed_accepted) (use m u in \<open>simp_all add: blank_def StunPacket_new_def\<close>)
  moreover have "IsStun demo_nomination" unfolding demo_nomination_def by (rule packed_IsStun [OF m(3,1)])
  moreover have "pack_size ?m \<le> 1508" by code_simp
  moreover have "int (length demo_nomination) \<le> pack_size ?m"
    unfolding demo_nomination_def using length_packed(1) [of ?m sample_hmac] m u by simp
  ultimately show ?thesis by (simp add: read_back_def header_packet_def buffer_room_def kInitialSize_def)
qed

lemma demo_names_apart: "names_apart demo_srv_env"
proof -
  have k: "ufrag_key [] = 0x32 # tl (ufrag_key [])" "str ''['' = [0x5B]" "take 63 (str ''10.0.0.1'') = 0x31 # tl (str ''10.0.0.1'')" by code_simp+
  have "\<not> prefix (0x32 # x) (take 63 (0x5B # y))" "\<not> prefix (0x32 # x) (take 63 (0x31 # y))" for x y :: "byte list" by simp_all
  then show ?thesis
    unfolding names_apart_def addr_ip_port_def addr_ip_def
    by (subst k(1)) (auto simp: demo_srv_env_def pc_env.defs k(2,3))
qed

section \<open>Properties\<close>





text \<open>C38. 
  A registration that no STUN packet follows is never removed: the deleter erases the
  address of the connection, which was not set, so the entry stays, and the next
  request with the same username ends the process at an assertion.
\<close>

theorem stale_registration_fails:
  assumes "publish sdp srv = Inr srv1"
  shows "publish sdp (media_timeout env (next_peer srv) srv1) = Inl AssertFail"
proof -
  obtain r remote where d: "Sdp_Decode (SdpMessage_new 0) (SP_string sdp) = Inr (r, remote)" "ice_ufrag (sdp_net remote) \<noteq> []"
    "srv1 = srv\<lparr>connections := map_put (ufrag_key (ice_ufrag (sdp_net remote))) (next_peer srv) (connections srv), next_peer := Suc (next_peer srv),
       peers := (peers srv)(next_peer srv := Some (PeerConnection_new InetAddress_zero remote)), packets := (packets srv)(next_peer srv := [])\<rparr>"
    using assms by (auto simp: publish_def fbind_Inr_iff Let_def)
  have "map_of (connections (media_timeout env (next_peer srv) srv1)) (ufrag_key (ice_ufrag (sdp_net remote))) = Some (next_peer srv)"
    using zero_ip_port [of env] d(2) by (simp add: d(3) media_timeout_def PeerConnectionDelete_def PeerConnection_new_def map_of_map_erase ufrag_key_def)
  then show ?thesis using d(1,2) by (simp add: publish_def)
qed

theorem stale_registration_fails_witness:
  "\<exists>srv1. publish demo_offer (WebRTCServer_new [] :: (nat, srtp_policy) WebRTCServer) = Inr srv1 \<and>
     publish demo_offer (media_timeout demo_srv_env 0 srv1) = Inl AssertFail"
proof -
  let ?s = "WebRTCServer_new [] :: (nat, srtp_policy) WebRTCServer"
  have "case publish demo_offer ?s of Inl _ \<Rightarrow> False | Inr _ \<Rightarrow> True" by code_simp
  then obtain srv1 where p: "publish demo_offer ?s = Inr srv1" by (auto split: sum.splits)
  then show ?thesis using stale_registration_fails [OF p, of demo_srv_env] by (simp add: WebRTCServer_new_def)
qed



end
