(* ===== verification/Quic_Listener.thy ===== *)
theory Quic_Listener
  imports Async_Io "HOL-Library.List_Lexorder"
begin

text \<open>
  \<open>quic/QuicListener.{h,cc}\<close> and \<open>quic/QuicConnection.{h,cc}\<close>: accepting QUIC connections
  with address validation by a retry token, and moving packets between the UDP socket
  and the quiche library.

  quiche is a parameter: a record of the calls the code makes on an abstract connection
  \<open>'q\<close>. Datagrams are sent with \<open>UdpStream::AsyncSendto\<close>; what the socket was given is
  collected in \<open>q_wire\<close>. The result of a read is an argument: \<open>None\<close> when it failed, otherwise
  the sender and the bytes. Log lines are left out.
\<close>

section \<open>quiche as the code calls it\<close>

datatype quic_packet = SendDone | SendError | SendPacket "byte list"

text \<open>What \<open>quiche_header_info\<close> stores into \<open>QuicListenerData\<close>.\<close>

record quic_header =
  hd_type :: byte
  hd_version :: u32
  hd_scid :: "byte list"
  hd_dcid :: "byte list"
  hd_token :: "byte list"

record 'q quiche =
  quiche_header_info :: "byte list \<Rightarrow> quic_header option"
  quiche_version_is_supported :: "u32 \<Rightarrow> bool"
  quiche_negotiate_version :: "byte list \<Rightarrow> byte list \<Rightarrow> byte list option"
  quiche_retry :: "byte list \<Rightarrow> byte list \<Rightarrow> byte list \<Rightarrow> byte list \<Rightarrow> u32 \<Rightarrow> byte list option"
  quiche_accept :: "byte list \<Rightarrow> byte list \<Rightarrow> InetAddress \<Rightarrow> InetAddress \<Rightarrow> 'q option"
  quiche_connect :: "byte list \<Rightarrow> byte list \<Rightarrow> InetAddress \<Rightarrow> InetAddress \<Rightarrow> 'q option"
  quiche_conn_recv :: "'q \<Rightarrow> byte list \<Rightarrow> InetAddress \<Rightarrow> InetAddress \<Rightarrow> int \<times> 'q"
  quiche_conn_send :: "'q \<Rightarrow> quic_packet \<times> 'q"
  quiche_conn_is_established :: "'q \<Rightarrow> bool"
  quiche_conn_is_closed :: "'q \<Rightarrow> bool"
  quiche_conn_readable :: "'q \<Rightarrow> u64 list"
  quiche_conn_stream_recv :: "'q \<Rightarrow> u64 \<Rightarrow> (byte list \<times> bool) option \<times> 'q"
  quiche_conn_stream_send :: "'q \<Rightarrow> u64 \<Rightarrow> byte list \<Rightarrow> bool \<Rightarrow> int \<times> 'q"

section \<open>Connections\<close>

definition kConnIdLen :: nat where "kConnIdLen = 16"
definition kMaxConnIdLen :: nat where "kMaxConnIdLen = 20"
definition kMaxTokenLen :: nat where "kMaxTokenLen = 6 + 128 + 20"

record 'q QuicConnection =
  q_local :: InetAddress
  q_peer :: InetAddress
  q_conn :: 'q
  send_times :: int

record quic_io =
  q_wire :: "(byte list \<times> InetAddress) list"
  q_answers :: "(nat \<times> errno) answer list"
  q_trace :: "park_op list"

definition genRandom :: "nat \<Rightarrow> byte list option \<Rightarrow> byte list option" where
  "genRandom len rnd = (case rnd of None \<Rightarrow> None | Some bs \<Rightarrow> if length bs = len then Some bs else None)"

definition QuicConnection_new :: "InetAddress \<Rightarrow> InetAddress \<Rightarrow> 'q \<Rightarrow> 'q QuicConnection" where
  "QuicConnection_new localaddr peeraddr conn =
     \<lparr>q_local = localaddr, q_peer = peeraddr, q_conn = conn, send_times = 1\<rparr>"

text \<open>\<open>AsyncSendto\<close> on the stream the listener and its connections share.\<close>

definition quic_sendto :: "byte list \<Rightarrow> InetAddress \<Rightarrow> quic_io \<Rightarrow> (int \<times> quic_io) res" where
  "quic_sendto d a io =
     fbind (Udp_AsyncSendto d a (q_answers io) (q_trace io)) (\<lambda>(sent, out, as, tr).
     Inr (sent, io\<lparr>q_wire := q_wire io @ out, q_answers := as, q_trace := tr\<rparr>))"

text \<open>The loop of \<open>flushQuic\<close>; the fuel bounds its rounds.\<close>

fun flushQuic :: "nat \<Rightarrow> 'q quiche \<Rightarrow> 'q QuicConnection \<Rightarrow> quic_io \<Rightarrow> (bool \<times> 'q QuicConnection \<times> quic_io) res" where
  "flushQuic 0 lib c io = Inl Diverge"
| "flushQuic (Suc fuel) lib c io =
     (let c' = c\<lparr>q_conn := snd (quiche_conn_send lib (q_conn c))\<rparr> in
      case fst (quiche_conn_send lib (q_conn c)) of
        SendDone \<Rightarrow> Inr (True, c', io)
      | SendError \<Rightarrow> Inr (False, c', io)
      | SendPacket d \<Rightarrow>
          fbind (quic_sendto d (q_peer c') io) (\<lambda>(sent, io).
          if sent \<noteq> int (length d) then Inr (False, c', io)
          else if send_times c' = INT_MAX then Inl SignedOverflow
          else flushQuic fuel lib (c'\<lparr>send_times := send_times c' + 1\<rparr>) io))"

text \<open>The loop of \<open>untilEstablished\<close> over the results of its reads; \<open>None\<close> is a failed read.\<close>

fun untilEstablished ::
  "nat \<Rightarrow> 'q quiche \<Rightarrow> (InetAddress \<times> byte list) option list \<Rightarrow> 'q QuicConnection \<Rightarrow> quic_io \<Rightarrow> (bool \<times> 'q QuicConnection \<times> quic_io) res" where
  "untilEstablished fuel lib [] c io = Inl Diverge"
| "untilEstablished fuel lib (None # reads) c io = Inr (False, c, io)"
| "untilEstablished fuel lib (Some (peeraddr, data) # reads) c io =
     (let (done, conn) = quiche_conn_recv lib (q_conn c) data peeraddr (q_local c); c = c\<lparr>q_conn := conn\<rparr> in
      if done < 0 then untilEstablished fuel lib reads c io
      else if quiche_conn_is_established lib conn then Inr (True, c, io)
      else if quiche_conn_is_closed lib conn then Inr (False, c, io)
      else
        fbind (flushQuic fuel lib c io) (\<lambda>(ret, c, io).
        if \<not> ret then Inr (False, c, io) else untilEstablished fuel lib reads c io))"

text \<open>\<open>scid\<close> holds the bytes of the local array, filled or not: the result of \<open>genRandom\<close> is not tested.\<close>

definition connect ::
  "nat \<Rightarrow> 'q quiche \<Rightarrow> byte list \<Rightarrow> byte list \<Rightarrow> InetAddress \<Rightarrow> InetAddress \<Rightarrow> (InetAddress \<times> byte list) option list \<Rightarrow> quic_io \<Rightarrow>
     ('q QuicConnection option \<times> quic_io) res" where
  "connect fuel lib ip scid localaddr peeraddr reads io = (case quiche_connect lib ip scid localaddr peeraddr of
     None \<Rightarrow> Inr (None, io)
   | Some conn \<Rightarrow>
       fbind (flushQuic fuel lib (QuicConnection_new localaddr peeraddr conn) io) (\<lambda>(ret, c, io).
       if \<not> ret then Inr (None, io)
       else
         fbind (untilEstablished fuel lib reads c io) (\<lambda>(ret, c, io).
         Inr (if ret then Some c else None, io))))"

definition isClosed :: "'q quiche \<Rightarrow> 'q QuicConnection \<Rightarrow> bool" where
  "isClosed lib c = quiche_conn_is_closed lib (q_conn c)"

definition quicStreamRead :: "'q quiche \<Rightarrow> u64 \<Rightarrow> 'q QuicConnection \<Rightarrow> (byte list \<times> bool) option \<times> 'q QuicConnection" where
  "quicStreamRead lib sid c =
     (let (r, conn) = quiche_conn_stream_recv lib (q_conn c) sid in (r, c\<lparr>q_conn := conn\<rparr>))"

definition fillQuic :: "'q quiche \<Rightarrow> (InetAddress \<times> byte list) option \<Rightarrow> 'q QuicConnection \<Rightarrow> bool \<times> 'q QuicConnection" where
  "fillQuic lib r c = (case r of
     None \<Rightarrow> (False, c)
   | Some (peeraddr, data) \<Rightarrow>
       let (done, conn) = quiche_conn_recv lib (q_conn c) data peeraddr (q_local c) in (\<not> done < 0, c\<lparr>q_conn := conn\<rparr>))"

definition quicStreamWrite ::
  "nat \<Rightarrow> 'q quiche \<Rightarrow> u64 \<Rightarrow> byte list \<Rightarrow> bool \<Rightarrow> (InetAddress \<times> byte list) option \<Rightarrow> 'q QuicConnection \<Rightarrow> quic_io \<Rightarrow>
     (int \<times> 'q QuicConnection \<times> quic_io) res" where
  "quicStreamWrite fuel lib sid buf fin r c io =
     (let (wn, conn) = quiche_conn_stream_send lib (q_conn c) sid buf fin; c = c\<lparr>q_conn := conn\<rparr>;
          c = (if wn \<noteq> int (length buf) \<or> send_times c mod 10 = 0 then snd (fillQuic lib r c) else c) in
      fbind (flushQuic fuel lib c io) (\<lambda>(_, c, io). Inr (wn, c, io)))"

text \<open>The loop over the readable streams: a finished stream is answered.\<close>

fun read_streams :: "'q quiche \<Rightarrow> u64 list \<Rightarrow> 'q \<Rightarrow> 'q" where
  "read_streams lib [] q = q"
| "read_streams lib (s # ss) q =
     (let (r, q) = quiche_conn_stream_recv lib q s in
      case r of
        None \<Rightarrow> q
      | Some (_, fin) \<Rightarrow> read_streams lib ss (if fin then snd (quiche_conn_stream_send lib q s (str ''byez'' @ [0x0A]) True) else q))"

text \<open>\<open>num\<close> is the static variable of the function.\<close>

definition quicConnRead ::
  "nat \<Rightarrow> 'q quiche \<Rightarrow> byte list \<Rightarrow> InetAddress \<Rightarrow> int \<Rightarrow> 'q QuicConnection \<Rightarrow> quic_io \<Rightarrow>
     (int \<times> 'q QuicConnection \<times> quic_io) res" where
  "quicConnRead fuel lib data peeraddr num c io =
     (let (done, conn) = quiche_conn_recv lib (q_conn c) data peeraddr (q_local c) in
      if done < 0 then Inr (num, c\<lparr>q_conn := conn\<rparr>, io)
      else
        let conn = (if quiche_conn_is_established lib conn
                    then read_streams lib (quiche_conn_readable lib conn) conn else conn);
            c = c\<lparr>q_conn := conn\<rparr> in
        if \<not> quiche_conn_is_established lib conn then
          fbind (flushQuic fuel lib c io) (\<lambda>(_, c, io). Inr (num, c, io))
        else if num = 10 then fbind (flushQuic fuel lib c io) (\<lambda>(_, c, io). Inr (0 + 1, c, io))
        else Inr (num + 1, c, io))"

section \<open>Retry tokens\<close>

text \<open>The \<open>socklen()\<close> bytes at \<open>sockaddr()\<close>.\<close>

definition sock_bytes :: "InetAddress \<Rightarrow> byte list res" where
  "sock_bytes a = rd_sub (raw a) 0 (unat (socklen a))"

definition mint_token :: "byte list \<Rightarrow> InetAddress \<Rightarrow> byte list res" where
  "mint_token dcid a =
     fbind (sock_bytes a) (\<lambda>addr.
     let token = str ''quiche'' @ addr @ dcid in
     if length token \<le> kMaxTokenLen then Inr token else Inl OutOfBounds)"

definition validate_token :: "byte list \<Rightarrow> InetAddress \<Rightarrow> nat \<Rightarrow> byte list option res" where
  "validate_token token a odcid_len =
     (if length token < length (str ''quiche'') \<or> take (length (str ''quiche'')) token \<noteq> str ''quiche'' then Inr None
      else
        let token = drop (length (str ''quiche'')) token; addr_len = unat (socklen a) in
        if length token < addr_len then Inr None
        else
          fbind (sock_bytes a) (\<lambda>addr.
          if take addr_len token \<noteq> addr then Inr None
          else
            let token = drop addr_len token in
            if odcid_len < length token then Inr None else Inr (Some token)))"

section \<open>The listener\<close>

record 'q QuicListener =
  l_local :: InetAddress
  conns :: "(byte list, 'q QuicConnection) std_map"
  l_num :: int
  l_io :: quic_io

definition quicNegotiate :: "'q quiche \<Rightarrow> quic_header \<Rightarrow> InetAddress \<Rightarrow> quic_io \<Rightarrow> (bool \<times> quic_io) res" where
  "quicNegotiate lib h peeraddr io =
     (if quiche_version_is_supported lib (hd_version h) then Inr (True, io)
      else
        case quiche_negotiate_version lib (hd_scid h) (hd_dcid h) of
          None \<Rightarrow> Inr (False, io)
        | Some d \<Rightarrow> fbind (quic_sendto d peeraddr io) (\<lambda>(_, io). Inr (False, io)))"

text \<open>\<open>Some odcid\<close> stands for \<open>true\<close>; \<open>rnd\<close> is what the read of \<open>/dev/urandom\<close> gives.\<close>

definition validateToken ::
  "'q quiche \<Rightarrow> byte list option \<Rightarrow> quic_header \<Rightarrow> InetAddress \<Rightarrow> quic_io \<Rightarrow> (byte list option \<times> quic_io) res" where
  "validateToken lib rnd h peeraddr io =
     (if hd_token h = [] then
        fbind (mint_token (hd_dcid h) peeraddr) (\<lambda>token.
        case genRandom kConnIdLen rnd of
          None \<Rightarrow> Inr (None, io)
        | Some new_cid \<Rightarrow>
            (case quiche_retry lib (hd_scid h) (hd_dcid h) new_cid token (hd_version h) of
               None \<Rightarrow> Inr (None, io)
             | Some d \<Rightarrow> fbind (quic_sendto d peeraddr io) (\<lambda>(_, io). Inr (None, io))))
      else fbind (validate_token (hd_token h) peeraddr kMaxConnIdLen) (\<lambda>odcid. Inr (odcid, io)))"

definition quicAccept ::
  "'q quiche \<Rightarrow> quic_header \<Rightarrow> byte list \<Rightarrow> InetAddress \<Rightarrow> InetAddress \<Rightarrow> 'q QuicConnection option res" where
  "quicAccept lib h odcid localaddr peeraddr =
     fbind (assert_that (length (hd_scid h) = kConnIdLen)) (\<lambda>_.
     Inr (map_option (QuicConnection_new localaddr peeraddr) (quiche_accept lib (hd_dcid h) odcid localaddr peeraddr)))"

text \<open>\<open>conn->quicConnRead\<close> on the connection the table holds under \<open>key\<close>.\<close>

definition table_read ::
  "nat \<Rightarrow> 'q quiche \<Rightarrow> byte list \<Rightarrow> InetAddress \<Rightarrow> byte list \<Rightarrow> 'q QuicConnection \<Rightarrow> 'q QuicListener \<Rightarrow> 'q QuicListener res" where
  "table_read fuel lib data peeraddr key c l =
     fbind (quicConnRead fuel lib data peeraddr (l_num l) c (l_io l)) (\<lambda>(num, c, io).
     Inr (l\<lparr>conns := map_put key c (conns l), l_num := num, l_io := io\<rparr>))"

text \<open>A datagram for a connection the table does not hold.\<close>

definition accept_new ::
  "nat \<Rightarrow> 'q quiche \<Rightarrow> byte list option \<Rightarrow> quic_header \<Rightarrow> InetAddress \<Rightarrow> byte list \<Rightarrow> 'q QuicListener \<Rightarrow> 'q QuicListener res" where
  "accept_new fuel lib rnd h peeraddr data l =
     fbind (quicNegotiate lib h peeraddr (l_io l)) (\<lambda>(ret, io).
     let l = l\<lparr>l_io := io\<rparr> in
     if \<not> ret then Inr l
     else
       fbind (validateToken lib rnd h peeraddr (l_io l)) (\<lambda>(odcid, io).
       let l = l\<lparr>l_io := io\<rparr> in
       case odcid of
         None \<Rightarrow> Inr l
       | Some odcid \<Rightarrow>
           fbind (quicAccept lib h odcid (l_local l) peeraddr) (\<lambda>conn.
           case conn of
             None \<Rightarrow> Inr l
           | Some c \<Rightarrow> table_read fuel lib data peeraddr (hd_dcid h) c l)))"

text \<open>One round of \<open>loopAndAccept\<close>.\<close>

definition accept_round ::
  "nat \<Rightarrow> 'q quiche \<Rightarrow> byte list option \<Rightarrow> (InetAddress \<times> byte list) option \<Rightarrow> 'q QuicListener \<Rightarrow> 'q QuicListener res" where
  "accept_round fuel lib rnd r l = (case r of
     None \<Rightarrow> Inr l
   | Some (peeraddr, data) \<Rightarrow>
       (case quiche_header_info lib data of
          None \<Rightarrow> Inr l
        | Some h \<Rightarrow>
            (case map_of (conns l) (hd_dcid h) of
               Some c \<Rightarrow> table_read fuel lib data peeraddr (hd_dcid h) c l
             | None \<Rightarrow> accept_new fuel lib rnd h peeraddr data l)))"

fun loopAndAccept ::
  "nat \<Rightarrow> 'q quiche \<Rightarrow> (byte list option \<times> (InetAddress \<times> byte list) option) list \<Rightarrow> 'q QuicListener \<Rightarrow> 'q QuicListener res" where
  "loopAndAccept fuel lib [] l = Inr l"
| "loopAndAccept fuel lib ((rnd, r) # rs) l = fbind (accept_round fuel lib rnd r l) (loopAndAccept fuel lib rs)"

definition QuicListener_new :: "InetAddress \<Rightarrow> quic_io \<Rightarrow> 'q QuicListener" where
  "QuicListener_new localaddr io = \<lparr>l_local = localaddr, conns = [], l_num = 0, l_io = io\<rparr>"

section \<open>What is shown of it\<close>

text \<open>An address of one of the two families the code knows.\<close>

definition inet :: "InetAddress \<Rightarrow> bool" where
  "inet a \<longleftrightarrow> addr_wf a \<and> (addr_family a = AF_INET \<or> addr_family a = AF_INET6)"

text \<open>The datagram \<open>d\<close> from \<open>a\<close> carries a token with the bytes of \<open>a\<close>.\<close>

definition token_for :: "'q quiche \<Rightarrow> InetAddress \<Rightarrow> byte list \<Rightarrow> byte list \<Rightarrow> bool" where
  "token_for lib a d key \<longleftrightarrow> (\<exists>h addr od.
     quiche_header_info lib d = Some h \<and> hd_dcid h = key \<and> sock_bytes a = Inr addr \<and>
     hd_token h = str ''quiche'' @ addr @ od \<and> length od \<le> 20 \<and> length (hd_scid h) = 16)"

text \<open>A library without cryptography, for concrete runs: the state counts the packets to send.\<close>

definition demo_header :: quic_header where
  "demo_header = \<lparr>hd_type = 1, hd_version = 1, hd_scid = replicate 16 7, hd_dcid = [1, 2], hd_token = []\<rparr>"

definition demo_peer :: InetAddress where
  "demo_peer = mk_sockaddr_in 5000 [10, 0, 0, 1] (replicate 12 0)"

definition demo_token :: "byte list" where
  "demo_token = str ''quiche'' @ take 16 (raw demo_peer)"

definition demo_quiche :: "nat quiche" where
  "demo_quiche = \<lparr>
     quiche_header_info = (\<lambda>d. if d = [1] then Some demo_header
       else if d = [2] then Some (demo_header\<lparr>hd_token := demo_token\<rparr>)
       else if d = [3] then Some (demo_header\<lparr>hd_token := demo_token, hd_scid := []\<rparr>) else None),
     quiche_version_is_supported = (\<lambda>v. v = 1),
     quiche_negotiate_version = (\<lambda>_ _. Some [0]),
     quiche_retry = (\<lambda>_ _ _ token _. Some token),
     quiche_accept = (\<lambda>_ _ _ _. Some 0),
     quiche_connect = (\<lambda>_ _ _ _. Some 1),
     quiche_conn_recv = (\<lambda>q d _ _. (int (length d), q + 1)),
     quiche_conn_send = (\<lambda>q. if q = 0 then (SendDone, 0) else (SendPacket [9, 9], q - 1)),
     quiche_conn_is_established = (\<lambda>q. False),
     quiche_conn_is_closed = (\<lambda>q. False),
     quiche_conn_readable = (\<lambda>q. []),
     quiche_conn_stream_recv = (\<lambda>q _. (None, q)),
     quiche_conn_stream_send = (\<lambda>q _ b _. (int (length b), q))\<rparr>"

definition demo_io :: quic_io where
  "demo_io = \<lparr>q_wire = [], q_answers = [Fail EAGAIN, Done (22 + 2, ENONE), Done (2, ENONE)], q_trace = []\<rparr>"

section \<open>Tokens and addresses\<close>

lemma length_quiche [simp]: "length (str ''quiche'') = 6"
  by (simp add: str_def)

lemma sock_bytes_inet:
  assumes "inet a"
  shows "sock_bytes a = Inr (take (unat (socklen a)) (raw a))" "unat (socklen a) \<in> {16, 28}" "length (raw a) = 28"
  using assms by (auto simp: inet_def addr_wf_def sock_bytes_def rd_sub_def sub_def socklen_def
      sizeof_sockaddr_in_def sizeof_sockaddr_in6_def)

lemma validate_token_Some:
  "validate_token t a n = Inr (Some od) \<longleftrightarrow>
     (\<exists>addr. sock_bytes a = Inr addr \<and> t = str ''quiche'' @ addr @ od \<and> length od \<le> n)"
proof
  assume "validate_token t a n = Inr (Some od)"
  then have t: "take 6 t = str ''quiche''" "sock_bytes a = Inr (take (unat (socklen a)) (drop 6 t))"
      "od = drop (unat (socklen a)) (drop 6 t)" "length od \<le> n"
    by (auto simp: validate_token_def Let_def fbind_Inr_iff split: if_splits)
  have "t = take 6 t @ take (unat (socklen a)) (drop 6 t) @ drop (unat (socklen a)) (drop 6 t)"
    by (metis append_take_drop_id)
  then show "\<exists>addr. sock_bytes a = Inr addr \<and> t = str ''quiche'' @ addr @ od \<and> length od \<le> n"
    using t by metis
next
  assume "\<exists>addr. sock_bytes a = Inr addr \<and> t = str ''quiche'' @ addr @ od \<and> length od \<le> n"
  then obtain addr where a: "sock_bytes a = Inr addr" "t = str ''quiche'' @ addr @ od" "length od \<le> n" by blast
  have "length addr = unat (socklen a)"
    using a(1) by (auto simp: sock_bytes_def rd_sub_def split: if_splits)
  then show "validate_token t a n = Inr (Some od)" using a by (simp add: validate_token_def Let_def)
qed

lemma validate_token_returns: "inet a \<Longrightarrow> \<exists>r. validate_token t a n = Inr r"
  by (simp add: validate_token_def Let_def sock_bytes_inet(1))

lemma same_front:
  assumes i: "inet a" "inet b"
    and e: "take (unat (socklen a)) (raw a) @ x = take (unat (socklen b)) (raw b) @ y"
  shows "take (unat (socklen a)) (raw a) = take (unat (socklen b)) (raw b) \<and> x = y"
proof -
  note a = sock_bytes_inet [OF i(1)] and b = sock_bytes_inet [OF i(2)]
  have at: "raw a ! k = raw b ! k" if "k < 2" for k
    using arg_cong [OF e, of "\<lambda>l. l ! k"] that a b by (auto simp: nth_append)
  have "addr_family a = addr_family b"
    using at [of 0] at [of 1] by (simp add: addr_family_def)
  then have "socklen a = socklen b" by (simp add: socklen_def)
  then show ?thesis using e a b by (simp add: append_eq_append_conv)
qed

section \<open>The table of connections\<close>

lemma flushQuic_peer: "flushQuic fuel lib c io = Inr r \<Longrightarrow> q_peer (fst (snd r)) = q_peer c"
proof (induction fuel arbitrary: c io)
  case (Suc fuel)
  show ?case
  proof (cases "fst (quiche_conn_send lib (q_conn c))")
    case (SendPacket d)
    obtain sent io1 where "quic_sendto d (q_peer c) io = Inr (sent, io1)"
      using Suc.prems SendPacket by (auto simp: Let_def fbind_Inr_iff)
    then show ?thesis
      using Suc.prems SendPacket Suc.IH [of "c\<lparr>q_conn := snd (quiche_conn_send lib (q_conn c)), send_times := send_times c + 1\<rparr>" io1]
      by (cases "sent = int (length d)"; cases "send_times c = INT_MAX") (auto simp: Let_def)
  qed (use Suc.prems in \<open>auto simp: Let_def\<close>)
qed simp

lemma quicConnRead_peer:
  "quicConnRead fuel lib d a num c io = Inr (n1, c1, io1) \<Longrightarrow> q_peer c1 = q_peer c"
  by (auto simp: quicConnRead_def Let_def fbind_Inr_iff split_beta dest!: flushQuic_peer split: if_split_asm)

lemma table_read_conns:
  assumes "table_read fuel lib d a key c l = Inr l1"
  shows "\<exists>c1. map_of (conns l1) = (map_of (conns l))(key \<mapsto> c1) \<and> q_peer c1 = q_peer c"
  using assms by (auto simp: table_read_def fbind_Inr_iff dest: quicConnRead_peer)

lemma validateToken_Some:
  "validateToken lib rnd h a io = Inr (Some od, io1) \<longleftrightarrow>
     hd_token h \<noteq> [] \<and> validate_token (hd_token h) a 20 = Inr (Some od) \<and> io1 = io"
  by (auto simp: validateToken_def kMaxConnIdLen_def fbind_Inr_iff split: option.splits)

lemma accept_new_conns:
  assumes r: "accept_new fuel lib rnd h a d l = Inr l1" and h: "quiche_header_info lib d = Some h"
  shows "conns l1 = conns l \<or>
    (\<exists>c1. map_of (conns l1) = (map_of (conns l))(hd_dcid h \<mapsto> c1) \<and> q_peer c1 = a \<and> token_for lib a d (hd_dcid h))"
proof (cases "conns l1 = conns l")
  case False
  obtain ret io1 where n: "quicNegotiate lib h a (l_io l) = Inr (ret, io1)"
    using r by (auto simp: accept_new_def fbind_Inr_iff)
  obtain od io2 where v: "validateToken lib rnd h a io1 = Inr (Some od, io2)" and ret: "ret"
    using r False n by (auto simp: accept_new_def Let_def fbind_Inr_iff split: if_split_asm option.split_asm)
  obtain q where s: "length (hd_scid h) = 16" and
      t: "table_read fuel lib d a (hd_dcid h) (QuicConnection_new (l_local l) a q) (l\<lparr>l_io := io2\<rparr>) = Inr l1"
    using r False n v ret
    by (cases "quiche_accept lib (hd_dcid h) od (l_local l) a")
      (auto simp: accept_new_def quicAccept_def kConnIdLen_def Let_def fbind_Inr_iff assert_that_Inr_iff)
  have "token_for lib a d (hd_dcid h)"
    using v h s by (auto simp: validateToken_Some validate_token_Some token_for_def)
  then show ?thesis using table_read_conns [OF t] by (auto simp: QuicConnection_new_def)
qed simp

lemma accept_round_conns:
  assumes r: "accept_round fuel lib rnd r l = Inr l1" and c: "map_of (conns l1) key = Some c1"
  shows "(\<exists>c. map_of (conns l) key = Some c \<and> q_peer c = q_peer c1) \<or>
    (\<exists>d. r = Some (q_peer c1, d) \<and> token_for lib (q_peer c1) d key)"
proof (cases "conns l1 = conns l")
  case True
  then show ?thesis using c by auto
next
  case False
  then obtain a d h where e: "r = Some (a, d)" "quiche_header_info lib d = Some h"
    using r by (auto simp: accept_round_def split: option.splits)
  show ?thesis
  proof (cases "map_of (conns l) (hd_dcid h)")
    case None
    then show ?thesis
      using r c False e accept_new_conns [of fuel lib rnd h a d l l1]
      by (auto simp: accept_round_def split: if_splits)
  next
    case (Some c0)
    then show ?thesis
      using r c e table_read_conns [of fuel lib d a "hd_dcid h" c0 l l1]
      by (auto simp: accept_round_def split: if_splits)
  qed
qed

lemma loopAndAccept_conns:
  assumes "loopAndAccept fuel lib rs l = Inr l1" "map_of (conns l1) key = Some c1"
  shows "(\<exists>c. map_of (conns l) key = Some c \<and> q_peer c = q_peer c1) \<or>
    (\<exists>rnd d. (rnd, Some (q_peer c1, d)) \<in> set rs \<and> token_for lib (q_peer c1) d key)"
  using assms
proof (induction rs arbitrary: l)
  case (Cons x rs)
  obtain rnd r where x: "x = (rnd, r)" by (cases x)
  obtain l2 where s: "accept_round fuel lib rnd r l = Inr l2" "loopAndAccept fuel lib rs l2 = Inr l1"
    using Cons.prems(1) x by (auto simp: fbind_Inr_iff)
  consider c where "map_of (conns l2) key = Some c" "q_peer c = q_peer c1"
    | rnd d where "(rnd, Some (q_peer c1, d)) \<in> set rs" "token_for lib (q_peer c1) d key"
    using Cons.IH [OF s(2) Cons.prems(2)] by blast
  then show ?case
  proof cases
    case 1
    then show ?thesis using accept_round_conns [OF s(1) 1(1)] x by (auto simp del: loopAndAccept.simps)
  next
    case 2
    then show ?thesis by auto
  qed
qed simp

lemma quic_sendto_done:
  "q_answers io = Done (n, e) # as \<Longrightarrow>
     quic_sendto d a io = Inr (int n, io\<lparr>q_wire := q_wire io @ [(take n d, a)], q_answers := as, q_trace := q_trace io @ [PCheckTicks]\<rparr>)"
  by (simp add: quic_sendto_def Udp_AsyncSendto_def call_SendTo_def)

lemma demo_answers:
  "sock_bytes demo_peer = Inr (take 16 (raw demo_peer))" "inet demo_peer"
  by code_simp+

section \<open>Properties\<close>

text \<open>C23. 
  A minted token fits its array, and it is accepted from exactly the addresses with
  the bytes of the one it was minted for, giving back the connection id of the first packet.
\<close>

theorem retry_token_binds_address:
  assumes a: "inet a" and b: "inet b" and d: "length dcid \<le> 20"
  shows "\<exists>t. mint_token dcid a = Inr t \<and> length t \<le> kMaxTokenLen \<and>
    validate_token t b kMaxConnIdLen = Inr (if sock_bytes b = sock_bytes a then Some dcid else None)"
proof -
  note sa = sock_bytes_inet [OF a] and sb = sock_bytes_inet [OF b]
  define x where "x = take (unat (socklen a)) (raw a)"
  define y where "y = take (unat (socklen b)) (raw b)"
  define t where "t = str ''quiche'' @ x @ dcid"
  have x: "sock_bytes a = Inr x" "length x \<le> 28" and y: "sock_bytes b = Inr y"
    unfolding x_def y_def by (rule sa(1), simp add: sa(3), rule sb(1))
  have l: "length t \<le> kMaxTokenLen" using x(2) d by (simp add: t_def kMaxTokenLen_def)
  then have m: "mint_token dcid a = Inr t" by (simp add: mint_token_def x(1) t_def Let_def)
  obtain r where r: "validate_token t b kMaxConnIdLen = Inr r"
    using validate_token_returns [OF b, of t kMaxConnIdLen] by (elim exE)
  have some: "r = Some od \<longleftrightarrow> y = x \<and> od = dcid" for od
  proof
    assume "r = Some od"
    then have "x @ dcid = y @ od" using r y by (simp add: validate_token_Some t_def)
    from same_front [OF a b this [unfolded x_def y_def]] show "y = x \<and> od = dcid"
      unfolding x_def y_def by (rule conjE) (rule conjI, (rule sym, assumption)+)
  next
    assume "y = x \<and> od = dcid"
    then have "validate_token t b kMaxConnIdLen = Inr (Some od)"
      using y d by (simp add: validate_token_Some t_def kMaxConnIdLen_def)
    then show "r = Some od" using r by simp
  qed
  have "r = (if sock_bytes b = sock_bytes a then Some dcid else None)"
  proof (cases "y = x")
    case True
    then show ?thesis using some [of dcid] by (simp add: x(1) y)
  next
    case False
    then have "r \<noteq> Some od" for od using some [of od] by simp
    then have "r = None" by (cases r) blast+
    then show ?thesis using False by (simp add: x(1) y)
  qed
  then show ?thesis using m l r by simp
qed

theorem retry_token_binds_address_witness:
  "\<exists>t. mint_token [1, 2] demo_peer = Inr t \<and> length t \<le> kMaxTokenLen \<and>
    validate_token t (mk_sockaddr_in 5001 [10, 0, 0, 1] (replicate 12 0)) kMaxConnIdLen = Inr None"
proof -
  have i: "inet demo_peer" "inet (mk_sockaddr_in 5001 [10, 0, 0, 1] (replicate 12 0))"
    "sock_bytes (mk_sockaddr_in 5001 [10, 0, 0, 1] (replicate 12 0)) \<noteq> sock_bytes demo_peer"
    by code_simp+
  show ?thesis using retry_token_binds_address [OF i(1) i(2), of "[1, 2]"] i(3) by simp
qed

text \<open>C14. 
  Every connection in the table of a listener was entered by a datagram that came from
  the connection's peer address and carried a token with the bytes of that address.
\<close>

theorem connections_have_validated_peers:
  assumes "loopAndAccept fuel lib rs (QuicListener_new localaddr io) = Inr l"
    and "map_of (conns l) key = Some c"
  shows "\<exists>rnd d. (rnd, Some (q_peer c, d)) \<in> set rs \<and> token_for lib (q_peer c) d key"
  using loopAndAccept_conns [OF assms] by (simp add: QuicListener_new_def)

theorem connections_have_validated_peers_witness:
  "\<exists>l c. loopAndAccept 5 demo_quiche [(Some (replicate 16 5), Some (demo_peer, [1])), (None, Some (demo_peer, [2]))]
       (QuicListener_new InetAddress_zero demo_io) = Inr l \<and>
     map_of (conns l) [1, 2] = Some c \<and> q_peer c = demo_peer \<and> length (q_wire (l_io l)) = 2 \<and>
     token_for demo_quiche demo_peer [2] [1, 2]"
proof -
  let ?rs = "[(Some (replicate 16 5), Some (demo_peer, [1])), (None, Some (demo_peer, [2]))]"
  let ?run = "loopAndAccept 5 demo_quiche ?rs (QuicListener_new InetAddress_zero demo_io)"
  have "case ?run of Inl _ \<Rightarrow> False | Inr l \<Rightarrow> (case map_of (conns l) [1, 2] of None \<Rightarrow> False
      | Some c \<Rightarrow> q_peer c = demo_peer \<and> length (q_wire (l_io l)) = 2)"
    by code_simp
  then obtain l c where l: "?run = Inr l" "map_of (conns l) [1, 2] = Some c" "q_peer c = demo_peer"
      "length (q_wire (l_io l)) = 2"
    by (auto split: sum.splits option.splits)
  have no: "\<not> token_for demo_quiche demo_peer [1] [1, 2]"
    by (simp add: token_for_def demo_quiche_def demo_header_def str_def)
  show ?thesis
    using connections_have_validated_peers [OF l(1,2)] l no by auto
qed

text \<open>C39. 
  The token holds no secret: a first packet that carries the fixed prefix and its own
  address is taken for a validated one, and with a source connection id of another
  length than 16 it ends the program by the assertion.
\<close>

theorem forged_token_ends_listener:
  assumes "quiche_header_info lib d = Some h" "map_of (conns l) (hd_dcid h) = None"
    and "quiche_version_is_supported lib (hd_version h)"
    and "sock_bytes a = Inr addr" "hd_token h = str ''quiche'' @ addr"
    and "length (hd_scid h) \<noteq> 16"
  shows "accept_round fuel lib rnd (Some (a, d)) l = Inl AssertFail"
proof -
  have "validate_token (hd_token h) a 20 = Inr (Some [])"
    using assms(4,5) by (simp add: validate_token_Some)
  moreover have "hd_token h \<noteq> []" using assms(5) by (simp add: str_def)
  ultimately have "validateToken lib rnd h a io = Inr (Some [], io)" for io
    by (simp add: validateToken_Some)
  then show ?thesis
    using assms by (simp add: accept_round_def accept_new_def quicNegotiate_def quicAccept_def kConnIdLen_def assert_that_def)
qed

theorem forged_token_ends_listener_witness:
  "accept_round 5 demo_quiche None (Some (demo_peer, [3])) (QuicListener_new InetAddress_zero demo_io) = Inl AssertFail"
  by (rule forged_token_ends_listener [where h = "demo_header\<lparr>hd_token := demo_token, hd_scid := []\<rparr>"
      and addr = "take 16 (raw demo_peer)"])
    (simp_all add: demo_quiche_def demo_header_def QuicListener_new_def demo_answers demo_token_def)

text \<open>
  When every packet the library makes leaves it fewer to make, and the socket takes what
  it is given, \<open>flushQuic\<close> returns.
\<close>

theorem flushQuic_returns:
  assumes p: "\<And>q d. fst (quiche_conn_send lib q) = SendPacket d \<Longrightarrow> pend (snd (quiche_conn_send lib q)) < pend q"
  shows "pend (q_conn c) < fuel \<Longrightarrow> pend (q_conn c) \<le> length (q_answers io) \<Longrightarrow>
    \<forall>x\<in>set (q_answers io). \<exists>n e. x = Done (n, e) \<Longrightarrow>
    send_times c + int (pend (q_conn c)) \<le> INT_MAX \<Longrightarrow> \<exists>r. flushQuic fuel lib c io = Inr r"
proof (induction fuel arbitrary: c io)
  case (Suc fuel)
  show ?case
  proof (cases "fst (quiche_conn_send lib (q_conn c))")
    case (SendPacket d)
    note less = p [OF SendPacket]
    obtain n e as where q: "q_answers io = Done (n, e) # as"
      using Suc.prems(2,3) less by (cases "q_answers io") auto
    let ?c = "c\<lparr>q_conn := snd (quiche_conn_send lib (q_conn c)), send_times := send_times c + 1\<rparr>"
    let ?io = "io\<lparr>q_wire := q_wire io @ [(d, q_peer c)], q_answers := as, q_trace := q_trace io @ [PCheckTicks]\<rparr>"
    have "\<exists>r. flushQuic fuel lib ?c ?io = Inr r"
      by (rule Suc.IH) (use less Suc.prems q in auto)
    then show ?thesis
      using SendPacket less Suc.prems q by (auto simp: quic_sendto_done [OF q] Let_def)
  qed (auto simp: Let_def)
qed simp

theorem flushQuic_returns_witness:
  "\<exists>r. flushQuic 3 demo_quiche (QuicConnection_new InetAddress_zero demo_peer 2)
     (demo_io\<lparr>q_answers := [Done (2, ENONE), Done (2, ENONE)]\<rparr>) = Inr r"
  by (rule flushQuic_returns [where pend = "\<lambda>q. q"])
    (auto simp: demo_quiche_def QuicConnection_new_def split: if_splits)

end
