(* ===== verification/Spec2Isabelle.thy ===== *)
theory Spec2Isabelle
  imports Ice_Server Sdp_Message Rtcp_Packet Log_Backend Logger_Line Http_Stream Webrtc_Server Quic_Listener
begin

text \<open>
  Verification of the network library baize: a runtime of stackful coroutines over
  \<open>epoll\<close>, with buffers, streams, timers and logging (\<open>src/kernel\<close>), HTTP on top of
  its streams (\<open>src/http\<close>), a WebRTC echo server (\<open>src/webrtc\<close>) and a QUIC listener
  (\<open>src/quic\<close>).

  \<^bold>\<open>How the parts interact.\<close> The event loop runs the coroutines of a pool; a
  coroutine that would block on a descriptor waits in a park until the poller or the
  time wheel wakes it. Streams repeat a system call around such waits. HTTP streams read
  into a buffer until a message is complete. The WebRTC server receives offers over HTTP
  and datagrams over UDP: the first STUN packet binds the address of a peer to its
  connection, ICE and DTLS bring the connection up, and SRTP packets are then decrypted,
  decoded and echoed. Every part logs through a line buffer and a background thread.

  \<^bold>\<open>Conventions\<close> (\<open>Baize_Prelude\<close>, \<open>Net_Types\<close>). A class is a record of its
  members, a method a function from the record to the new one. Code that can stop
  returns \<open>'a res\<close>: \<open>Inl\<close> a fault (a failed assertion, an access outside an object, a
  null pointer, signed overflow, an exception, a fatal log line, or a loop that does
  not end) or \<open>Inr\<close> a value; assertions are on, as in the build. Integers that wrap are
  words; indices of type \<open>int\<close> are integers with the overflow written out where it can
  happen. \<open>std::string\<close> is a list of bytes and \<open>std::map\<close> a list sorted by its keys. The
  host is little-endian. The locale \<open>wire_int\<close> is the contract of the integers read
  from and written to packets, interpreted for one, two, three, four and eight bytes.

  \<^bold>\<open>Memory and text.\<close>
  \<^item> \<open>Net_Buffer\<close> (\<open>kernel/net/net_buffer\<close>, \<open>net_buffer_pool\<close>): the growing buffer
    refines a queue of bytes, and its users rely on the locale \<open>byte_queue\<close>; the
    pool conserves its buffers.
  \<^item> \<open>String_Piece\<close> (\<open>kernel/util/string_piece\<close>): views as a position in a byte array;
    searching, splitting, trimming and comparing equal functions on lists.
  \<^item> \<open>Crc32\<close> (\<open>kernel/crypto/util.cc\<close>): the table-driven CRC equals the bit-serial one
    and detects every change within four consecutive bytes.
  \<^item> \<open>Inet_Address\<close> (\<open>kernel/net/inet_address\<close>): the union as its 28 bytes.

  \<^bold>\<open>Runtime.\<close>
  \<^item> \<open>Routine_Runtime\<close> (\<open>kernel/runtime\<close>): a task is the tree of runtime calls its
    code makes, a resume runs it to its next suspension. Over all tasks and all reports
    of the poller and the wheel no assertion fails and every coroutine is in one place;
    three theorems show where waking goes wrong.
  \<^item> \<open>Time_Wheel\<close> (\<open>kernel/time\<close>): the intrusive lists of the slots as maps of
    pointers, refined to lists of timers; short timers run on time, timers on the third
    wheel never do. \<open>Civil_Time\<close>: the calendar of the time stamps.
  \<^item> \<open>Async_Io\<close> (\<open>kernel/net/socket\<close>, \<open>tcp_stream\<close>, \<open>tcp_listener\<close>, \<open>udp_stream\<close>,
    \<open>kernel/crypto/tls_stream\<close>): system calls repeated over lists of the answers of the
    kernel; the locale \<open>stream_writer\<close> is the contract of a write, met by TCP and TLS.

  \<^bold>\<open>Logging.\<close> \<open>Log_Stream\<close>, \<open>Logger_Line\<close> and \<open>Log_Backend\<close> (\<open>kernel/log\<close>,
  \<open>kernel/util/fixed_buffer.h\<close>): one statement prints one line; the front end and the
  background thread are the step relation \<open>log_reach\<close>, one step for each section under
  the lock. In all its interleavings no step faults, and while the disk takes what it is
  given and at most 25 buffers wait, no line is lost or reordered; what is still in the
  buffers at \<open>Stop\<close> is lost.

  \<^bold>\<open>HTTP.\<close> \<open>Http_Message\<close> frames, decodes and encodes messages; \<open>Http_Stream\<close>
  reads them however the network cuts the stream. The locale \<open>chunk_source\<close> is what the
  reader needs of a transport, interpreted for TCP and for TLS.

  \<^bold>\<open>WebRTC.\<close>
  \<^item> \<open>Stun_Packet\<close>, \<open>Stun_Correct\<close>, \<open>Stun_Roundtrip\<close> (\<open>webrtc/ice/stun_packet\<close>): the
    parser refines an abstract list of attributes, reads inside the packet, returns on
    packets below 64 KiB and reads back what \<open>Pack\<close> writes. \<open>Ice_Server\<close>: which
    requests are answered, and when the responder is connected.
  \<^item> \<open>Sdp_Message\<close> (\<open>webrtc/sdp\<close>), \<open>Rtp_Packet\<close>, \<open>Rtcp_Packet\<close>, \<open>Srtp_Session\<close>
    (\<open>webrtc/rtp\<close>): decoders against layouts of the packets, and their faults.
  \<^item> \<open>Dtls_Transport\<close> (\<open>webrtc/dtls\<close>): well-formedness over all runs, the order of the
    states, and the agreement of two ends on the SRTP keys.
  \<^item> \<open>Peer_Connection\<close> (\<open>webrtc/pc/peer_connection\<close>, \<open>webrtc_settings\<close>): one
    datagram from ICE to the echo; sessions only with the keys of the handshake.
  \<^item> \<open>Webrtc_Server\<close> (\<open>webrtc/pc/webrtc_server\<close>): the coroutines of the server as
    events between two suspensions, with the table of connections and the buffers as
    an invariant over all their sequences.

  \<^bold>\<open>QUIC.\<close> \<open>Quic_Listener\<close> (\<open>quic/QuicListener\<close>, \<open>QuicConnection\<close>): which
  datagrams open a connection, and what the retry tokens are worth.

  \<^bold>\<open>Libraries.\<close> OpenSSL, libsrtp, quiche, the C library's files and clock, and the
  kernel are parameters: records of the functions the code calls, or lists of answers.
  Hypotheses on them are named: \<open>rearms\<close> (a handled DTLS timeout sets a new one in the
  future), \<open>srtp_lib_ok\<close> (key lengths; a session keeps its policy), \<open>host_ok\<close> (a short
  write of a file reports an error, files open, the time is positive), \<open>disk_ok\<close> (the disk
  takes every byte), \<open>calm_reads\<close> (data
  arrives before the time limit). Each has an instance in a witness.

  \<^bold>\<open>Bounds and fuel.\<close> Loops without a structural measure take fuel and return
  \<open>Inl Diverge\<close> without it; the fuel is chosen in the definitions and shown to be enough.
  The STUN parser gets one more than the length of the packet, and every attribute takes
  four bytes; behind 64 KiB its 16-bit arithmetic wraps and a packet makes it run forever.
  Splitting gets one more than the length of the text. The pool's loop gets the number of
  tasks. An HTTP read gets one more than the answers of the network. The two DTLS timer
  functions call each other at most twice under \<open>rearms\<close>. \<open>flushQuic\<close> needs more fuel than
  packets are pending. Lists of answers that end are runs that wait for ever.

  \<^bold>\<open>Not modelled.\<close> The context switch (Boost.Context) is a resume that runs to the next
  suspension. The wrappers of pthread, \<open>daemon\<close> and \<open>sigaction\<close> (\<open>kernel/thread\<close>,
  \<open>kernel/process\<close>), the configuration of OpenSSL and quiche (\<open>ssl_config\<close>,
  \<open>dtls_config\<close>, \<open>QuicConfig\<close>), socket options and the registration with \<open>epoll_ctl\<close>
  only forward arguments to the system or a library. The HMAC of STUN is a parameter;
  its verification is commented out in the source. Floating-point durations and digits,
  the setters of \<open>StringPiece\<close>, the dumps of STUN packets and the log lines of the
  protocol code are left out, and so are the example and test programs.
\<close>

end
